(* ===== verification/Prelude.thy ===== *)
theory Prelude
  imports Main "HOL-Library.Word" "HOL-Library.Multiset"
begin

text \<open>
  What every theory of the development shares: names for the C integer types, the
  operations of libwayland's intrusive list (\<open>wl_list\<close>) on HOL lists, and the lemmas and
  collections the component theories use.

  A \<open>wl_list\<close> is modelled by the list of its elements from \<open>head.next\<close> to \<open>head.prev\<close>.
  \<open>wl_list_insert(&head, e)\<close> puts \<open>e\<close> first, \<open>wl_list_insert(head.prev, e)\<close> puts it last,
  \<open>wl_list_insert(&x.link, e)\<close> puts it right after \<open>x\<close> and
  \<open>wl_list_insert(x.link.prev, e)\<close> right before it.
\<close>

unbundle bit_operations_syntax

text \<open>\<open>uint32_t\<close> and \<open>int32_t\<close> are both 32 bits; a signed value is read with \<^term>\<open>sint\<close>,
  and the mixed arithmetic of C (where the signed operand is converted to unsigned) is the
  arithmetic of \<^typ>\<open>32 word\<close>.\<close>

type_synonym u32 = "32 word"
type_synonym i32 = "32 word"

text \<open>Addresses of objects the code allocates, and of libwayland resources.\<close>

type_synonym addr = nat

named_theorems frame_simps \<open>fields an operation leaves alone\<close>
named_theorems inv_intros \<open>operations that keep a component's invariant\<close>

subsection \<open>Linked lists\<close>

fun insert_after :: "'a \<Rightarrow> 'a \<Rightarrow> 'a list \<Rightarrow> 'a list" where
  "insert_after p e [] = []"
| "insert_after p e (x # xs) = (if x = p then x # e # xs else x # insert_after p e xs)"

fun insert_before :: "'a \<Rightarrow> 'a \<Rightarrow> 'a list \<Rightarrow> 'a list" where
  "insert_before p e [] = []"
| "insert_before p e (x # xs) = (if x = p then e # x # xs else x # insert_before p e xs)"

lemma set_insert_after [simp]:
  "p \<in> set xs \<Longrightarrow> set (insert_after p e xs) = insert e (set xs)"
  by (induction xs) auto

lemma set_insert_before [simp]:
  "p \<in> set xs \<Longrightarrow> set (insert_before p e xs) = insert e (set xs)"
  by (induction xs) auto

lemma insert_after_notin [simp]: "p \<notin> set xs \<Longrightarrow> insert_after p e xs = xs"
  by (induction xs) auto

lemma insert_before_notin [simp]: "p \<notin> set xs \<Longrightarrow> insert_before p e xs = xs"
  by (induction xs) auto

lemma distinct_insert_after:
  "distinct xs \<Longrightarrow> e \<notin> set xs \<Longrightarrow> distinct (insert_after p e xs)"
proof (induction xs)
  case (Cons x xs)
  then show ?case by (cases "p \<in> set xs") auto
qed simp

lemma distinct_insert_before:
  "distinct xs \<Longrightarrow> e \<notin> set xs \<Longrightarrow> distinct (insert_before p e xs)"
proof (induction xs)
  case (Cons x xs)
  then show ?case by (cases "p \<in> set xs") auto
qed simp

lemma insert_after_split:
  "p \<notin> set as \<Longrightarrow> insert_after p e (as @ p # bs) = as @ p # e # bs"
  by (induction as) auto

lemma insert_before_split:
  "p \<notin> set as \<Longrightarrow> insert_before p e (as @ p # bs) = as @ e # p # bs"
  by (induction as) auto

text \<open>A link of the list that is the head itself is \<open>None\<close>. \<open>link_prev e xs\<close> and
  \<open>link_next e xs\<close> are \<open>e.link.prev\<close> and \<open>e.link.next\<close>, \<open>last_link xs\<close> is \<open>head.prev\<close> and
  \<open>link_after p e xs\<close> is \<open>wl_list_insert(p, e)\<close>.\<close>

definition last_link :: "'a list \<Rightarrow> 'a option" where
  "last_link xs = (if xs = [] then None else Some (last xs))"

definition first_link :: "'a list \<Rightarrow> 'a option" where
  "first_link xs = (case xs of [] \<Rightarrow> None | x # _ \<Rightarrow> Some x)"

fun link_next :: "'a \<Rightarrow> 'a list \<Rightarrow> 'a option" where
  "link_next e [] = None"
| "link_next e (x # xs) = (if x = e then first_link xs else link_next e xs)"

definition link_prev :: "'a \<Rightarrow> 'a list \<Rightarrow> 'a option" where
  "link_prev e xs = last_link (takeWhile (\<lambda>x. x \<noteq> e) xs)"

definition link_after :: "'a option \<Rightarrow> 'a \<Rightarrow> 'a list \<Rightarrow> 'a list" where
  "link_after p e xs = (case p of None \<Rightarrow> e # xs | Some q \<Rightarrow> insert_after q e xs)"

lemma last_link_simps [simp]: "last_link [] = None" "last_link (xs @ [x]) = Some x"
  by (simp_all add: last_link_def)

lemma last_link_None [simp]: "last_link xs = None \<longleftrightarrow> xs = []" "None = last_link xs \<longleftrightarrow> xs = []"
  by (auto simp: last_link_def)

lemma first_link_simps [simp]: "first_link [] = None" "first_link (x # xs) = Some x"
  by (simp_all add: first_link_def)

lemma link_prev_split: "e \<notin> set as \<Longrightarrow> link_prev e (as @ e # bs) = last_link as"
  unfolding link_prev_def by (subst takeWhile_append2) auto

lemma link_next_split: "e \<notin> set as \<Longrightarrow> link_next e (as @ e # bs) = first_link bs"
  by (induction as) auto

lemma link_after_last:
  "distinct (as @ bs) \<Longrightarrow> link_after (last_link as) e (as @ bs) = as @ e # bs"
proof (cases as rule: rev_cases)
  case (snoc as' a)
  then show "distinct (as @ bs) \<Longrightarrow> ?thesis"
    by (simp add: link_after_def insert_after_split)
qed (simp add: link_after_def)

lemma mset_link_after:
  "(\<And>q. p = Some q \<Longrightarrow> q \<in> set xs) \<Longrightarrow> distinct xs \<Longrightarrow> mset (link_after p e xs) = add_mset e (mset xs)"
proof (cases p)
  case (Some q)
  assume "\<And>q. p = Some q \<Longrightarrow> q \<in> set xs" "distinct xs"
  with Some obtain as bs where "xs = as @ q # bs" "q \<notin> set as"
    by (metis split_list_first)
  with Some show ?thesis by (simp add: link_after_def insert_after_split)
qed (simp add: link_after_def)

lemma remove1_filter: "distinct xs \<Longrightarrow> remove1 x xs = filter (\<lambda>y. y \<noteq> x) xs"
  by (simp add: distinct_remove1_removeAll removeAll_filter_not_eq) (metis (no_types))

subsection \<open>Small facts on options and lists\<close>

lemma find_SomeD: "List.find P xs = Some x \<Longrightarrow> x \<in> set xs \<and> P x"
  by (auto simp: find_Some_iff in_set_conv_nth)

lemma find_None_all: "List.find P xs = None \<longleftrightarrow> (\<forall>x \<in> set xs. \<not> P x)"
  by (auto simp: find_None_iff)

lemma distinct_map_remove1: "distinct (map f xs) \<Longrightarrow> distinct (map f (remove1 x xs))"
proof (induction xs)
  case (Cons y ys)
  have "f ` set (remove1 x ys) \<subseteq> f ` set ys" by (intro image_mono set_remove1_subset)
  with Cons show ?case by auto
qed simp

lemma length_filter_remove1:
  "x \<in> set xs \<Longrightarrow> P x \<Longrightarrow> length (filter P (remove1 x xs)) = length (filter P xs) - 1"
  by (simp add: filter_remove1 length_remove1)

subsection \<open>Faults\<close>

text \<open>What the code does when it goes wrong: an access to a null pointer or to freed memory, a
  failed assertion, or a recursion that does not end within its fuel.\<close>

datatype fault = NullDereference | UseAfterFree | AssertionFailed | OutOfFuel

type_synonym 'a result = "fault + 'a"

definition andThen :: "'a result \<Rightarrow> ('a \<Rightarrow> 'b result) \<Rightarrow> 'b result" where
  "andThen m f = (case m of Inl e \<Rightarrow> Inl e | Inr x \<Rightarrow> f x)"

definition fuelled :: "'a option \<Rightarrow> 'a result" where
  "fuelled x = (case x of None \<Rightarrow> Inl OutOfFuel | Some y \<Rightarrow> Inr y)"

lemma andThen_simps [simp]: "andThen (Inl e) f = Inl e" "andThen (Inr x) f = f x"
  by (simp_all add: andThen_def)

lemma andThen_Inr: "andThen m f = Inr y \<longleftrightarrow> (\<exists>x. m = Inr x \<and> f x = Inr y)"
  by (cases m) auto

lemma fuelled_simps [simp]: "fuelled None = Inl OutOfFuel" "fuelled (Some y) = Inr y"
  by (simp_all add: fuelled_def)

lemma fuelled_Inr [simp]: "fuelled x = Inr y \<longleftrightarrow> x = Some y"
  by (cases x) auto

end
