(* ===== verification/Interfaces.thy ===== *)
theory Interfaces
  imports Prelude
begin

text \<open>
  The interfaces between components, as locales: what a client calls and what it relies on.
  Each is interpreted on the model's own definitions in the theory that provides it.
\<close>

subsection \<open>The barrier a cohort of windows waits on\<close>

text \<open>
  \<open>libswc/window.c\<close> knows the transaction only through these laws: which configure each
  participant still owes (\<open>waits\<close>), whether the cohort is sealed, and whether it was
  released. \<open>ack\<close> and \<open>withdraw\<close> return the completion report they make, if any.
\<close>

locale barrier =
  fixes valid :: "'t \<Rightarrow> bool"
    and waits :: "'t \<Rightarrow> 'k \<Rightarrow> u32 option"
    and sealed :: "'t \<Rightarrow> bool"
    and released :: "'t \<Rightarrow> bool"
    and ack :: "'t \<Rightarrow> 'k \<Rightarrow> u32 \<Rightarrow> 't \<times> bool option"
    and withdraw :: "'t \<Rightarrow> 'k \<Rightarrow> 't \<times> bool option"
  assumes valid_ack: "valid t \<Longrightarrow> valid (fst (ack t k s))"
    and valid_withdraw: "valid t \<Longrightarrow> valid (fst (withdraw t k))"
    and waits_ack: "valid t \<Longrightarrow> waits (fst (ack t k s)) =
          (if waits t k = Some s then (waits t)(k := None) else waits t)"
    and waits_withdraw: "valid t \<Longrightarrow> waits (fst (withdraw t k)) = (waits t)(k := None)"
    and sealed_ack: "valid t \<Longrightarrow> sealed (fst (ack t k s)) = sealed t"
    and sealed_withdraw: "valid t \<Longrightarrow> sealed (fst (withdraw t k)) = sealed t"
    and settled: "valid t \<Longrightarrow> sealed t \<Longrightarrow> waits t = Map.empty \<Longrightarrow> released t"
    and released_sealed: "valid t \<Longrightarrow> released t \<Longrightarrow> sealed t"
    and report_ack: "valid t \<Longrightarrow> snd (ack t k s) =
          (if \<not> released t \<and> released (fst (ack t k s)) then Some False else None)"
    and report_withdraw: "valid t \<Longrightarrow> snd (withdraw t k) =
          (if \<not> released t \<and> released (fst (withdraw t k)) then Some False else None)"
    and early_ack: "valid t \<Longrightarrow> \<not> released t \<Longrightarrow> released (fst (ack t k s)) \<Longrightarrow>
          waits (fst (ack t k s)) = Map.empty"
    and released_ack: "valid t \<Longrightarrow> released t \<Longrightarrow> released (fst (ack t k s))"
begin

lemma stale_ack_ignored:
  assumes "valid t" "waits t k \<noteq> Some s"
  shows "released (fst (ack t k s)) = released t \<and> snd (ack t k s) = None"
proof -
  have same: "waits (fst (ack t k s)) = waits t"
    using assms waits_ack by simp
  have "\<not> (\<not> released t \<and> released (fst (ack t k s)))"
  proof
    assume new: "\<not> released t \<and> released (fst (ack t k s))"
    with early_ack assms(1) same have "waits t = Map.empty" by metis
    moreover have "sealed t"
      using new released_sealed[OF valid_ack[OF assms(1)]] sealed_ack[OF assms(1)] by blast
    ultimately show False using settled assms(1) new by blast
  qed
  with assms(1) released_ack report_ack show ?thesis by auto
qed

lemma last_ack_releases:
  assumes "valid t" "sealed t" "\<not> released t" "waits t = [k \<mapsto> s]"
  shows "released (fst (ack t k s)) \<and> snd (ack t k s) = Some False"
proof -
  have "waits (fst (ack t k s)) = Map.empty"
    using assms waits_ack by auto
  then have "released (fst (ack t k s))"
    using settled valid_ack sealed_ack assms by metis
  with assms report_ack show ?thesis by simp
qed

lemma last_withdrawal_releases:
  assumes "valid t" "sealed t" "\<not> released t" "dom (waits t) \<subseteq> {k}"
  shows "released (fst (withdraw t k)) \<and> snd (withdraw t k) = Some False"
proof -
  have "waits (fst (withdraw t k)) = Map.empty"
    using assms(4) waits_withdraw[OF assms(1), of k] by (auto simp: fun_eq_iff dom_def)
  then have "released (fst (withdraw t k))"
    using settled valid_withdraw sealed_withdraw assms by metis
  with assms report_withdraw show ?thesis by simp
qed

lemma acks_release:
  "valid t \<Longrightarrow> sealed t \<Longrightarrow> (\<And>k s. waits t k = Some s \<Longrightarrow> (k, s) \<in> set ks) \<Longrightarrow>
   valid (foldl (\<lambda>t (k, s). fst (ack t k s)) t ks) \<and>
   released (foldl (\<lambda>t (k, s). fst (ack t k s)) t ks)"
proof (induction ks arbitrary: t)
  case Nil
  then have "waits t = Map.empty" by (intro ext) (metis empty_iff empty_set not_Some_eq)
  with Nil settled show ?case by simp
next
  case (Cons p ks)
  obtain k s where p: "p = (k, s)" by (cases p)
  let ?t = "fst (ack t k s)"
  have "(j, r) \<in> set ks" if "waits ?t j = Some r" for j r
    using that Cons.prems waits_ack[OF Cons.prems(1), of k s] p
    by (auto split: if_splits)
  with Cons.IH[of ?t] Cons.prems valid_ack sealed_ack p show ?case by auto
qed

end

subsection \<open>A stack with layers\<close>

text \<open>The window manager puts windows in order by raising them one after another, within layers
  it does not own. \<open>order\<close> lists the stack from the top, \<open>rank\<close> is the layer; \<open>raise\<close> puts an
  element right below the layers above its own.\<close>

locale layered_stack =
  fixes order :: "'s \<Rightarrow> 'v list"
    and rank :: "'s \<Rightarrow> 'v \<Rightarrow> 'r::linorder"
    and raise :: "'v \<Rightarrow> 's \<Rightarrow> 's"
  assumes rank_raise: "rank (raise v s) = rank s"
    and order_raise: "distinct (order s) \<Longrightarrow> v \<in> set (order s) \<Longrightarrow>
      order (raise v s) =
        takeWhile (\<lambda>x. rank s v < rank s x) (filter (\<lambda>x. x \<noteq> v) (order s)) @
        v # dropWhile (\<lambda>x. rank s v < rank s x) (filter (\<lambda>x. x \<noteq> v) (order s))"
begin

definition layered :: "'s \<Rightarrow> bool" where
  "layered s \<longleftrightarrow> distinct (order s) \<and> sorted_wrt (\<lambda>a b. rank s b \<le> rank s a) (order s)"

lemma takeWhile_layered:
  "sorted_wrt (\<lambda>a b. f b \<le> f a) xs \<Longrightarrow> takeWhile (\<lambda>x. r < f x) xs = filter (\<lambda>x. r < f x) xs"
  for f :: "'v \<Rightarrow> 'r"
  by (induction xs) (auto simp: empty_filter_conv dest: order.strict_trans2)

lemma dropWhile_layered:
  "sorted_wrt (\<lambda>a b. f b \<le> f a) xs \<Longrightarrow> dropWhile (\<lambda>x. r < f x) xs = filter (\<lambda>x. f x \<le> r) xs"
  for f :: "'v \<Rightarrow> 'r"
proof (induction xs)
  case (Cons a xs)
  show ?case
  proof (cases "r < f a")
    case False
    with Cons.prems have "filter (\<lambda>x. f x \<le> r) xs = xs" by (auto simp: filter_id_conv)
    with False show ?thesis by simp
  qed (use Cons in simp)
qed simp

lemma raise_layered:
  assumes "layered s" "v \<in> set (order s)"
  shows "order (raise v s) =
    filter (\<lambda>x. rank s v < rank s x) (order s) @
    v # filter (\<lambda>x. rank s x \<le> rank s v \<and> x \<noteq> v) (order s)"
proof -
  let ?o = "filter (\<lambda>x. x \<noteq> v) (order s)"
  have so: "sorted_wrt (\<lambda>a b. rank s b \<le> rank s a) ?o"
    using assms(1) by (simp add: layered_def sorted_wrt_filter)
  have "filter (\<lambda>x. rank s v < rank s x) ?o = filter (\<lambda>x. rank s v < rank s x) (order s)"
    "filter (\<lambda>x. rank s x \<le> rank s v) ?o = filter (\<lambda>x. rank s x \<le> rank s v \<and> x \<noteq> v) (order s)"
    by (auto intro!: filter_cong)
  then show ?thesis
    using assms order_raise[of s v]
    by (simp add: takeWhile_layered[OF so] dropWhile_layered[OF so] layered_def)
qed

lemma raise_keeps:
  assumes "layered s" "v \<in> set (order s)"
  shows "layered (raise v s)" "set (order (raise v s)) = set (order s)"
proof -
  show "set (order (raise v s)) = set (order s)"
    unfolding raise_layered[OF assms] using assms(2) by auto
  have "sorted_wrt (\<lambda>a b. rank s b \<le> rank s a) (order s)" "distinct (order s)"
    using assms(1) by (simp_all add: layered_def)
  then show "layered (raise v s)"
    unfolding layered_def rank_raise raise_layered[OF assms]
    by (auto simp: sorted_wrt_append sorted_wrt_filter)
qed

text \<open>Raising the elements of a list in turn, all of one layer, stacks them on top of that layer
  with the last one raised first.\<close>

lemma raise_all:
  assumes "layered s" "distinct vs" "set vs \<subseteq> set (order s)" "\<forall>v\<in>set vs. rank s v = r"
  shows "layered (fold raise vs s) \<and> order (fold raise vs s) =
    filter (\<lambda>x. r < rank s x) (order s) @ rev vs @
    filter (\<lambda>x. rank s x \<le> r \<and> x \<notin> set vs) (order s)"
  using assms(2-)
proof (induction vs rule: rev_induct)
  case Nil
  then show ?case
  proof -
    have so: "sorted_wrt (\<lambda>a b. rank s b \<le> rank s a) (order s)" using assms(1) by (simp add: layered_def)
    have "order s = takeWhile (\<lambda>x. r < rank s x) (order s) @ dropWhile (\<lambda>x. r < rank s x) (order s)"
      by simp
    then show ?thesis using assms(1) by (simp add: takeWhile_layered[OF so] dropWhile_layered[OF so])
  qed
next
  case (snoc v vs)
  let ?t = "fold raise vs s"
  have rank_t: "rank ?t = rank s"
    by (induction vs rule: rev_induct) (simp_all add: rank_raise)
  have IH: "layered ?t" "order ?t = filter (\<lambda>x. r < rank s x) (order s) @ rev vs @
      filter (\<lambda>x. rank s x \<le> r \<and> x \<notin> set vs) (order s)"
    using snoc by simp_all
  have v: "v \<in> set (order ?t)" "rank s v = r" "v \<notin> set vs"
    using snoc.prems by (auto simp: IH(2))
  have vs: "\<forall>x\<in>set vs. rank s x = r" using snoc.prems by simp
  have "filter (\<lambda>x. r < rank s x) (order ?t) = filter (\<lambda>x. r < rank s x) (order s)"
    using vs by (auto simp: IH(2) filter_empty_conv)
  moreover have "filter (\<lambda>x. rank s x \<le> r \<and> x \<noteq> v) (order ?t) =
      rev vs @ filter (\<lambda>x. rank s x \<le> r \<and> x \<notin> set (vs @ [v])) (order s)"
  proof -
    have "filter (\<lambda>x. rank s x \<le> r \<and> x \<noteq> v) (filter (\<lambda>x. r < rank s x) (order s)) = []"
      by (auto simp: filter_empty_conv)
    moreover have "filter (\<lambda>x. rank s x \<le> r \<and> x \<noteq> v) (rev vs) = rev vs"
      using vs v(3) by (auto simp: filter_id_conv)
    moreover have "filter (\<lambda>x. rank s x \<le> r \<and> x \<noteq> v) (filter (\<lambda>x. rank s x \<le> r \<and> x \<notin> set vs) (order s)) =
        filter (\<lambda>x. rank s x \<le> r \<and> x \<notin> set (vs @ [v])) (order s)"
      unfolding filter_filter by (rule filter_cong) auto
    ultimately show ?thesis unfolding IH(2) by (simp only: filter_append append_Nil)
  qed
  ultimately show ?case
    using raise_layered[OF IH(1) v(1)] raise_keeps(1)[OF IH(1) v(1)] v(2) by (simp add: rank_t)
qed

end

end
