(* ===== verification/Transaction.thy ===== *)
theory Transaction
  imports Interfaces
begin

text \<open>
  \<open>libswc/transaction.c\<close>: the barrier that collects the configures of a cohort of windows
  and completes once, when every participant has acknowledged or the timeout expires.

  Every function runs \<open>finish\<close> last, and nothing touches the transaction after the
  completion handler was called (the handler may destroy it). A function of the model
  therefore returns the transaction together with the call it makes in tail position:
  \<open>Some timed_out\<close> when the handler runs, \<open>None\<close> otherwise. A \<open>NULL\<close> transaction is \<open>None\<close>;
  the success of \<open>malloc\<close> and of \<open>wl_event_loop_add_timer\<close> is an argument.
\<close>

subsection \<open>State\<close>

record 'k participant =
  p_key :: 'k
  p_serial :: u32
  p_acked :: bool

text \<open>\<open>timer\<close> is \<open>None\<close> for a \<open>NULL\<close> event source, \<open>Some 0\<close> for a disarmed one and \<open>Some ms\<close>
  for one that fires after \<open>ms\<close> milliseconds (the contract of
  \<open>wl_event_source_timer_update\<close>). \<open>has_handler\<close> is \<open>handler && handler->complete\<close>.
  The counters are \<open>size_t\<close>; the invariant below bounds them by the length of the
  participant list, so they neither wrap nor are decremented at zero.\<close>

record 'k transaction =
  has_handler :: bool
  participants :: "'k participant list"
  timer :: "u32 option"
  t_size :: nat
  t_pending :: nat
  committed :: bool
  complete :: bool

type_synonym 'k tptr = "'k transaction option"

subsection \<open>Operations\<close>

definition find_participant :: "'k transaction \<Rightarrow> 'k \<Rightarrow> 'k participant option" where
  "find_participant t key = List.find (\<lambda>p. p_key p = key) (participants t)"

definition finish :: "'k transaction \<Rightarrow> bool \<Rightarrow> 'k transaction \<times> bool option" where
  "finish t timed_out =
     (if complete t then (t, None)
      else
        let t = t\<lparr>complete := True\<rparr>;
            t = (case timer t of None \<Rightarrow> t | Some _ \<Rightarrow> t\<lparr>timer := Some 0\<rparr>)
        in (t, if has_handler t then Some timed_out else None))"

definition handle_timeout :: "'k transaction \<Rightarrow> 'k transaction \<times> bool option" where
  "handle_timeout t = finish t True"

definition transaction_create :: "bool \<Rightarrow> bool \<Rightarrow> bool \<Rightarrow> 'k tptr" where
  "transaction_create loop mem_ok handler =
     (if \<not> loop then None
      else if \<not> mem_ok then None
      else Some \<lparr>has_handler = handler, participants = [], timer = None, t_size = 0,
                 t_pending = 0, committed = False, complete = False\<rparr>)"

text \<open>\<open>transaction_destroy\<close> removes the timer source and frees every participant and the
  transaction; the model returns the keys whose participants are freed and whether a timer
  source was removed.\<close>

definition transaction_destroy :: "'k tptr \<Rightarrow> 'k list \<times> bool" where
  "transaction_destroy tp =
     (case tp of None \<Rightarrow> ([], False)
      | Some t \<Rightarrow> (map p_key (participants t), timer t \<noteq> None))"

definition transaction_add :: "bool \<Rightarrow> 'k tptr \<Rightarrow> 'k \<Rightarrow> u32 \<Rightarrow> 'k tptr \<times> bool" where
  "transaction_add mem_ok tp key serial =
     (case tp of None \<Rightarrow> (None, False)
      | Some t \<Rightarrow>
          if committed t \<or> find_participant t key \<noteq> None then (Some t, False)
          else if \<not> mem_ok then (Some t, False)
          else (Some (t\<lparr>participants :=
                          \<lparr>p_key = key, p_serial = serial, p_acked = False\<rparr> # participants t,
                        t_size := Suc (t_size t),
                        t_pending := Suc (t_pending t)\<rparr>), True))"

definition settle :: "'k transaction \<Rightarrow> 'k transaction \<times> bool option" where
  "settle t = (if committed t \<and> t_pending t = 0 then finish t False else (t, None))"

definition transaction_remove :: "'k tptr \<Rightarrow> 'k \<Rightarrow> 'k tptr \<times> bool option" where
  "transaction_remove tp key =
     (case tp of None \<Rightarrow> (None, None)
      | Some t \<Rightarrow>
          (case find_participant t key of None \<Rightarrow> (Some t, None)
           | Some p \<Rightarrow>
               let t = t\<lparr>participants := remove1 p (participants t), t_size := t_size t - 1\<rparr>;
                   t = (if \<not> p_acked p then t\<lparr>t_pending := t_pending t - 1\<rparr> else t)
               in apfst Some (settle t)))"

text \<open>The flag is set in the participant that \<open>find\<close> returned, which is the first with the
  key.\<close>

fun set_acked :: "'k \<Rightarrow> 'k participant list \<Rightarrow> 'k participant list" where
  "set_acked key [] = []"
| "set_acked key (p # ps) =
     (if p_key p = key then p\<lparr>p_acked := True\<rparr> # ps else p # set_acked key ps)"

definition transaction_ack :: "'k tptr \<Rightarrow> 'k \<Rightarrow> u32 \<Rightarrow> 'k tptr \<times> bool option" where
  "transaction_ack tp key serial =
     (case tp of None \<Rightarrow> (None, None)
      | Some t \<Rightarrow>
          (case find_participant t key of None \<Rightarrow> (Some t, None)
           | Some p \<Rightarrow>
               if p_serial p \<noteq> serial \<or> p_acked p then (Some t, None)
               else apfst Some
                      (settle (t\<lparr>participants := set_acked key (participants t),
                                 t_pending := t_pending t - 1\<rparr>))))"

definition transaction_commit :: "bool \<Rightarrow> 'k tptr \<Rightarrow> u32 \<Rightarrow> 'k tptr \<times> bool option" where
  "transaction_commit timer_ok tp timeout_ms =
     (case tp of None \<Rightarrow> (None, None)
      | Some t \<Rightarrow>
          if committed t then (Some t, None)
          else
            let t = t\<lparr>committed := True\<rparr>
            in if t_pending t = 0 then apfst Some (finish t False)
               else if \<not> timer_ok then apfst Some (finish (t\<lparr>timer := None\<rparr>) True)
               else (Some (t\<lparr>timer := Some timeout_ms\<rparr>), None))"

definition transaction_committed :: "'k tptr \<Rightarrow> bool" where
  "transaction_committed tp = (case tp of None \<Rightarrow> False | Some t \<Rightarrow> committed t)"

definition transaction_complete :: "'k tptr \<Rightarrow> bool" where
  "transaction_complete tp = (case tp of None \<Rightarrow> False | Some t \<Rightarrow> complete t)"

definition transaction_acked :: "'k tptr \<Rightarrow> 'k \<Rightarrow> bool" where
  "transaction_acked tp key =
     (case tp of None \<Rightarrow> False
      | Some t \<Rightarrow> (case find_participant t key of None \<Rightarrow> False | Some p \<Rightarrow> p_acked p))"

definition transaction_pending :: "'k tptr \<Rightarrow> nat" where
  "transaction_pending tp = (case tp of None \<Rightarrow> 0 | Some t \<Rightarrow> t_pending t)"

definition transaction_size :: "'k tptr \<Rightarrow> nat" where
  "transaction_size tp = (case tp of None \<Rightarrow> 0 | Some t \<Rightarrow> t_size t)"

subsection \<open>The event loop's view: a step per call\<close>

text \<open>What can happen to one transaction. The event loop calls \<open>handle_timeout\<close> only while
  the timer is armed.\<close>

datatype 'k t_event = Add bool 'k u32 | Remove 'k | Ack 'k u32 | Commit bool u32 | Timeout

definition timer_armed :: "'k transaction \<Rightarrow> bool" where
  "timer_armed t = (case timer t of None \<Rightarrow> False | Some ms \<Rightarrow> ms \<noteq> 0)"

fun t_step :: "'k transaction \<Rightarrow> 'k t_event \<Rightarrow> 'k transaction \<times> bool option" where
  "t_step t (Add mem_ok key serial) =
     (the (fst (transaction_add mem_ok (Some t) key serial)), None)"
| "t_step t (Remove key) = apfst the (transaction_remove (Some t) key)"
| "t_step t (Ack key serial) = apfst the (transaction_ack (Some t) key serial)"
| "t_step t (Commit timer_ok ms) = apfst the (transaction_commit timer_ok (Some t) ms)"
| "t_step t Timeout = (if timer_armed t then handle_timeout t else (t, None))"

fun t_run :: "'k transaction \<Rightarrow> 'k t_event list \<Rightarrow> 'k transaction \<times> bool list" where
  "t_run t [] = (t, [])"
| "t_run t (e # es) =
     (let (t1, c) = t_step t e; (t2, cs) = t_run t1 es
      in (t2, (case c of None \<Rightarrow> cs | Some b \<Rightarrow> b # cs)))"

subsection \<open>Invariant\<close>

definition unacked :: "'k transaction \<Rightarrow> 'k participant list" where
  "unacked t = filter (\<lambda>p. \<not> p_acked p) (participants t)"

definition t_inv :: "'k transaction \<Rightarrow> bool" where
  "t_inv t \<longleftrightarrow>
     distinct (map p_key (participants t)) \<and>
     t_size t = length (participants t) \<and>
     t_pending t = length (unacked t) \<and>
     (complete t \<longrightarrow> committed t \<and> \<not> timer_armed t) \<and>
     (committed t \<longrightarrow> complete t \<or> 0 < t_pending t \<and> timer t \<noteq> None) \<and>
     (\<not> committed t \<longrightarrow> timer t = None)"

lemma find_participant_SomeD:
  "find_participant t key = Some p \<Longrightarrow> p \<in> set (participants t) \<and> p_key p = key"
  unfolding find_participant_def by (drule find_SomeD) simp

lemma find_participant_None:
  "find_participant t key = None \<longleftrightarrow> key \<notin> p_key ` set (participants t)"
  unfolding find_participant_def find_None_all by auto

lemma find_participant_unique:
  assumes "distinct (map p_key (participants t))" "p \<in> set (participants t)"
  shows "find_participant t (p_key p) = Some p"
proof -
  obtain q where q: "find_participant t (p_key p) = Some q"
    using assms(2) find_participant_None[of t "p_key p"] by fastforce
  with find_participant_SomeD[OF q] assms have "q = p"
    by (meson distinct_map inj_onD)
  with q show ?thesis by simp
qed

lemma set_acked_map: "distinct (map p_key ps) \<Longrightarrow>
  set_acked key ps = map (\<lambda>p. if p_key p = key then p\<lparr>p_acked := True\<rparr> else p) ps"
proof (induction ps)
  case (Cons p ps)
  show ?case
  proof (cases "p_key p = key")
    case True
    with Cons.prems have "key \<notin> p_key ` set ps" by simp
    then have "map (\<lambda>p. if p_key p = key then p\<lparr>p_acked := True\<rparr> else p) ps = ps"
      by (intro map_idI) (metis imageI)
    with True show ?thesis by simp
  qed (use Cons in simp)
qed simp

lemma keys_set_acked [simp]: "map p_key (set_acked key ps) = map p_key ps"
  by (induction ps) auto

lemma length_set_acked [simp]: "length (set_acked key ps) = length ps"
  by (metis keys_set_acked length_map)

lemma unacked_set_acked:
  assumes "distinct (map p_key ps)" "p \<in> set ps" "p_key p = key" "\<not> p_acked p"
  shows "filter (\<lambda>p. \<not> p_acked p) (set_acked key ps) =
         remove1 p (filter (\<lambda>p. \<not> p_acked p) ps)"
  using assms
proof (induction ps)
  case (Cons q qs)
  show ?case
  proof (cases "q = p")
    case False
    with Cons.prems have "p \<in> set qs" by simp
    with Cons.prems have "p_key q \<noteq> key" by auto
    with Cons \<open>p \<in> set qs\<close> False show ?thesis by simp
  qed (use Cons.prems in simp)
qed simp

text \<open>What a client sees of the barrier: which configure each enrolled key still owes.\<close>

definition outstanding :: "'k transaction \<Rightarrow> 'k \<Rightarrow> u32 option" where
  "outstanding t key =
     (case find_participant t key of None \<Rightarrow> None
      | Some p \<Rightarrow> if p_acked p then None else Some (p_serial p))"

definition enrolled :: "'k transaction \<Rightarrow> 'k set" where
  "enrolled t = p_key ` set (participants t)"

lemma find_set_acked:
  "find_participant (t\<lparr>participants := set_acked key (participants t), t_pending := n\<rparr>) k =
     (if k = key then map_option (\<lambda>p. p\<lparr>p_acked := True\<rparr>) (find_participant t key)
      else find_participant t k)"
proof -
  have "List.find (\<lambda>p. p_key p = k) (set_acked key ps) =
     (if k = key then map_option (\<lambda>p. p\<lparr>p_acked := True\<rparr>) (List.find (\<lambda>p. p_key p = key) ps)
      else List.find (\<lambda>p. p_key p = k) ps)" for ps :: "'a participant list"
    by (induction ps) auto
  then show ?thesis by (simp add: find_participant_def)
qed

lemma find_remove1:
  assumes "distinct (map p_key ps)" "p \<in> set ps"
  shows "List.find (\<lambda>q. p_key q = k) (remove1 p ps) =
     (if k = p_key p then None else List.find (\<lambda>q. p_key q = k) ps)"
  using assms
proof (induction ps)
  case (Cons q qs)
  then show ?case
    by (cases "q = p") (auto simp: find_None_all image_iff)
qed simp

lemma finish_frame [frame_simps]:
  "participants (fst (finish t b)) = participants t"
  "t_size (fst (finish t b)) = t_size t"
  "t_pending (fst (finish t b)) = t_pending t"
  "committed (fst (finish t b)) = committed t"
  "has_handler (fst (finish t b)) = has_handler t"
  "complete (fst (finish t b))"
  by (auto simp: finish_def Let_def split: option.splits)

lemma settle_frame [frame_simps]:
  "participants (fst (settle t)) = participants t"
  "t_size (fst (settle t)) = t_size t"
  "t_pending (fst (settle t)) = t_pending t"
  "committed (fst (settle t)) = committed t"
  "has_handler (fst (settle t)) = has_handler t"
  by (auto simp: settle_def frame_simps)

lemma finish_complete: "complete t \<Longrightarrow> finish t b = (t, None)"
  by (simp add: finish_def)

lemma timer_finish: "\<not> complete t \<Longrightarrow> \<not> timer_armed (fst (finish t b))"
  by (auto simp: finish_def timer_armed_def Let_def split: option.splits)

lemma timer_finish_None: "timer t = None \<Longrightarrow> timer (fst (finish t b)) = None"
  by (simp add: finish_def Let_def)

text \<open>The part of the invariant that holds before the closing \<open>settle\<close>: the barrier may be
  committed with nothing outstanding.\<close>

definition t_core :: "'k transaction \<Rightarrow> bool" where
  "t_core t \<longleftrightarrow>
     distinct (map p_key (participants t)) \<and>
     t_size t = length (participants t) \<and>
     t_pending t = length (unacked t) \<and>
     (complete t \<longrightarrow> committed t \<and> \<not> timer_armed t) \<and>
     (\<not> committed t \<longrightarrow> timer t = None)"

lemma t_inv_core: "t_inv t \<Longrightarrow> t_core t"
  by (simp add: t_inv_def t_core_def)

lemma t_inv_finish: "t_core t \<Longrightarrow> committed t \<Longrightarrow> t_inv (fst (finish t b))"
  by (cases "complete t")
     (simp_all add: t_core_def t_inv_def finish_complete frame_simps timer_finish unacked_def)

lemma t_inv_settle:
  assumes "t_core t" "committed t \<Longrightarrow> complete t \<or> timer t \<noteq> None"
  shows "t_inv (fst (settle t))"
proof (cases "committed t \<and> t_pending t = 0")
  case True
  with assms(1) show ?thesis by (simp add: settle_def t_inv_finish)
next
  case False
  with assms show ?thesis by (auto simp: settle_def t_core_def t_inv_def)
qed

subsection \<open>Every operation keeps the invariant\<close>

lemma t_inv_create [inv_intros]: "transaction_create loop m h = Some t \<Longrightarrow> t_inv t"
  by (auto simp: transaction_create_def t_inv_def unacked_def split: if_splits)

lemma t_inv_add [inv_intros]: "t_inv t \<Longrightarrow> t_inv (the (fst (transaction_add m (Some t) k s)))"
  by (auto simp: transaction_add_def t_inv_def unacked_def find_participant_None timer_armed_def)

lemma t_core_removed:
  assumes "t_inv t" "find_participant t k = Some p"
  shows "t_core (let t = t\<lparr>participants := remove1 p (participants t), t_size := t_size t - 1\<rparr>
                 in if \<not> p_acked p then t\<lparr>t_pending := t_pending t - 1\<rparr> else t)"
proof -
  from find_participant_SomeD[OF assms(2)] have p: "p \<in> set (participants t)" by simp
  from assms(1) have d: "distinct (participants t)"
    by (auto simp: t_inv_def distinct_map)
  from assms(1) have "distinct (map p_key (remove1 p (participants t)))"
    by (simp add: t_inv_def distinct_map_remove1)
  moreover have "length (unacked (t\<lparr>participants := remove1 p (participants t)\<rparr>)) =
      (if p_acked p then length (unacked t) else length (unacked t) - 1)"
    using p by (simp add: unacked_def filter_remove1 length_remove1)
  ultimately show ?thesis
    using assms(1) p by (simp add: t_core_def t_inv_def Let_def unacked_def length_remove1 timer_armed_def)
qed

lemma t_inv_remove [inv_intros]:
  assumes "t_inv t"
  shows "t_inv (the (fst (transaction_remove (Some t) k)))"
proof (cases "find_participant t k")
  case None
  with assms show ?thesis by (simp add: transaction_remove_def)
next
  case (Some p)
  let ?t = "let t = t\<lparr>participants := remove1 p (participants t), t_size := t_size t - 1\<rparr>
            in if \<not> p_acked p then t\<lparr>t_pending := t_pending t - 1\<rparr> else t"
  have "t_inv (fst (settle ?t))"
    using assms
    by (intro t_inv_settle t_core_removed[OF assms Some])
       (auto simp: t_inv_def Let_def split: if_splits)
  with Some show ?thesis by (simp add: transaction_remove_def Let_def)
qed

lemma t_core_acked:
  assumes "t_inv t" "find_participant t k = Some p" "p_serial p = s" "\<not> p_acked p"
  shows "t_core (t\<lparr>participants := set_acked k (participants t), t_pending := t_pending t - 1\<rparr>)"
proof -
  note p = find_participant_SomeD[OF assms(2)]
  have "unacked (t\<lparr>participants := set_acked k (participants t), t_pending := t_pending t - 1\<rparr>) =
        remove1 p (unacked t)"
    unfolding unacked_def using assms p by (simp add: t_inv_def unacked_set_acked)
  moreover have "p \<in> set (unacked t)" using p assms by (simp add: unacked_def)
  ultimately show ?thesis
    using assms by (auto simp: t_core_def t_inv_def length_remove1 timer_armed_def)
qed

lemma t_inv_ack [inv_intros]:
  assumes "t_inv t"
  shows "t_inv (the (fst (transaction_ack (Some t) k s)))"
proof (cases "outstanding t k = Some s")
  case False
  with assms show ?thesis
    by (auto simp: transaction_ack_def outstanding_def split: option.splits)
next
  case True
  then obtain p where p: "find_participant t k = Some p" "p_serial p = s" "\<not> p_acked p"
    by (auto simp: outstanding_def split: option.splits if_splits)
  have "t_inv (fst (settle
      (t\<lparr>participants := set_acked k (participants t), t_pending := t_pending t - 1\<rparr>)))"
    using assms by (intro t_inv_settle t_core_acked[OF assms p]) (auto simp: t_inv_def)
  with p show ?thesis by (simp add: transaction_ack_def)
qed

lemma t_inv_commit [inv_intros]:
  assumes "t_inv t"
  shows "t_inv (the (fst (transaction_commit ok (Some t) ms)))"
proof (cases "committed t")
  case True
  with assms show ?thesis by (simp add: transaction_commit_def)
next
  case False
  with assms have "t_core (t\<lparr>committed := True\<rparr>)" "t_core (t\<lparr>committed := True, timer := None\<rparr>)"
    "timer t = None" "\<not> complete t"
    by (auto simp: t_core_def t_inv_def unacked_def timer_armed_def)
  with False assms show ?thesis
    by (auto simp: transaction_commit_def Let_def intro!: t_inv_finish)
       (auto simp: t_inv_def unacked_def)
qed

lemma t_inv_timeout [inv_intros]:
  "t_inv t \<Longrightarrow> timer_armed t \<Longrightarrow> t_inv (fst (handle_timeout t))"
  unfolding handle_timeout_def
  by (rule t_inv_finish) (auto simp: t_inv_core, auto simp: t_inv_def timer_armed_def split: option.splits)

lemma t_inv_step: "t_inv t \<Longrightarrow> t_inv (fst (t_step t e))"
  by (cases e) (auto simp: apfst_def map_prod_def split_beta intro: inv_intros)

lemma t_inv_run: "t_inv t \<Longrightarrow> t_inv (fst (t_run t es))"
  by (induction es arbitrary: t) (auto simp: Let_def split_beta intro: t_inv_step)

subsection \<open>What each call does to the client's view\<close>

lemma outstanding_None_core:
  assumes "t_core t"
  shows "t_pending t = 0 \<longleftrightarrow> (\<forall>k. outstanding t k = None)"
proof -
  have "t_pending t = 0 \<longleftrightarrow> (\<forall>p \<in> set (participants t). p_acked p)"
    using assms by (auto simp: t_core_def unacked_def filter_empty_conv)
  also have "\<dots> \<longleftrightarrow> (\<forall>k. outstanding t k = None)"
  proof
    assume "\<forall>p \<in> set (participants t). p_acked p"
    then show "\<forall>k. outstanding t k = None"
      by (auto simp: outstanding_def split: option.splits dest!: find_participant_SomeD)
  next
    assume none: "\<forall>k. outstanding t k = None"
    show "\<forall>p \<in> set (participants t). p_acked p"
    proof
      fix p assume "p \<in> set (participants t)"
      with assms have "find_participant t (p_key p) = Some p"
        by (simp add: t_core_def find_participant_unique)
      with none[rule_format, of "p_key p"] show "p_acked p"
        by (simp add: outstanding_def split: if_splits)
    qed
  qed
  finally show ?thesis .
qed

lemmas outstanding_None_pending = outstanding_None_core [OF t_inv_core]

lemma outstanding_cong:
  "participants t = participants t' \<Longrightarrow> outstanding t = outstanding t'"
  by (auto simp: outstanding_def find_participant_def)

lemma outstanding_ack:
  assumes "t_inv t"
  shows "outstanding (the (fst (transaction_ack (Some t) k s))) =
         (if outstanding t k = Some s then (outstanding t)(k := None) else outstanding t)"
proof (cases "outstanding t k = Some s")
  case True
  then obtain p where p: "find_participant t k = Some p" "p_serial p = s" "\<not> p_acked p"
    by (auto simp: outstanding_def split: option.splits if_splits)
  let ?t = "t\<lparr>participants := set_acked k (participants t), t_pending := t_pending t - 1\<rparr>"
  have "outstanding (the (fst (transaction_ack (Some t) k s))) = outstanding ?t"
    using p by (intro outstanding_cong) (simp add: transaction_ack_def frame_simps)
  also have "\<dots> = (outstanding t)(k := None)"
    using p by (auto simp: outstanding_def find_set_acked)
  finally show ?thesis using True by simp
next
  case False
  then show ?thesis
    by (auto simp: transaction_ack_def outstanding_def split: option.splits)
qed

lemma outstanding_remove:
  assumes "t_inv t"
  shows "outstanding (the (fst (transaction_remove (Some t) k))) = (outstanding t)(k := None)"
proof (cases "find_participant t k")
  case None
  then show ?thesis by (auto simp: transaction_remove_def outstanding_def)
next
  case (Some p)
  have "participants (the (fst (transaction_remove (Some t) k))) = remove1 p (participants t)"
    using Some by (simp add: transaction_remove_def Let_def frame_simps)
  with find_participant_SomeD[OF Some] assms show ?thesis
    by (auto simp: outstanding_def find_participant_def find_remove1 t_inv_def)
qed

lemma step_handler [frame_simps]: "has_handler (fst (t_step t e)) = has_handler t"
  by (cases e; auto simp: transaction_add_def transaction_remove_def transaction_ack_def
        transaction_commit_def handle_timeout_def settle_def finish_def Let_def
        split: option.splits)+

lemma step_complete [frame_simps]: "complete t \<Longrightarrow> complete (fst (t_step t e))"
  by (cases e; auto simp: transaction_add_def transaction_remove_def transaction_ack_def
        transaction_commit_def handle_timeout_def settle_def finish_def Let_def
        split: option.splits)+

lemma step_committed [frame_simps]: "committed t \<Longrightarrow> committed (fst (t_step t e))"
  by (cases e; auto simp: transaction_add_def transaction_remove_def transaction_ack_def
        transaction_commit_def handle_timeout_def settle_def finish_def Let_def
        split: option.splits)+

lemma t_step_report:
  assumes "has_handler t"
  shows "(snd (t_step t e) \<noteq> None) = (\<not> complete t \<and> complete (fst (t_step t e)))"
  using assms
  by (cases e; auto simp: transaction_add_def transaction_remove_def transaction_ack_def
        transaction_commit_def handle_timeout_def settle_def finish_def Let_def
        split: option.splits)

text \<open>A step that is not the timeout, and not a commit without a timer, reports \<open>False\<close>.\<close>

lemma t_step_report_False:
  "snd (t_step t e) = Some b \<Longrightarrow> b \<longleftrightarrow> e = Timeout \<or> (\<exists>ms. e = Commit False ms) \<and> t_pending t \<noteq> 0"
  by (cases e; auto simp: transaction_add_def transaction_remove_def transaction_ack_def
        transaction_commit_def handle_timeout_def settle_def finish_def Let_def
        split: option.splits if_splits)

lemma t_step_False_pending:
  "snd (t_step t e) = Some False \<Longrightarrow> t_pending (fst (t_step t e)) = 0 \<and> committed (fst (t_step t e))"
  by (cases e; auto simp: transaction_add_def transaction_remove_def transaction_ack_def
        transaction_commit_def handle_timeout_def settle_def finish_def Let_def
        split: option.splits if_splits)

lemma t_step_ack_released:
  assumes "t_inv t" "\<not> complete t" "complete (fst (t_step t (Ack k s)))" "has_handler t"
  shows "outstanding (fst (t_step t (Ack k s))) = Map.empty"
proof -
  obtain b where b: "snd (t_step t (Ack k s)) = Some b"
    using assms t_step_report[of t "Ack k s"] by auto
  with t_step_report_False[OF b] have "snd (t_step t (Ack k s)) = Some False" by simp
  then have "t_pending (fst (t_step t (Ack k s))) = 0" using t_step_False_pending by blast
  with t_inv_step[OF assms(1)] show ?thesis
    using outstanding_None_pending[of "fst (t_step t (Ack k s))"] by blast
qed

interpretation tb: barrier "\<lambda>t. t_inv t \<and> has_handler t" outstanding committed complete
  "\<lambda>t k s. t_step t (Ack k s)" "\<lambda>t k. t_step t (Remove k)"
proof (unfold_locales, goal_cases)
  case (1 t k s) then show ?case by (simp only: frame_simps t_inv_step)
next
  case (2 t k) then show ?case by (simp only: frame_simps t_inv_step)
next
  case (3 t k s) then show ?case by (simp add: outstanding_ack)
next
  case (4 t k) then show ?case by (simp add: outstanding_remove)
next
  case (5 t k s) then show ?case
    by (auto simp: transaction_ack_def frame_simps split: option.splits)
next
  case (6 t k) then show ?case
    by (auto simp: transaction_remove_def frame_simps Let_def split: option.splits)
next
  case (7 t)
  then have "t_pending t = 0" using outstanding_None_pending[of t] by simp
  with 7 show ?case by (simp add: t_inv_def)
next
  case (8 t) then show ?case by (simp add: t_inv_def)
next
  case (9 t k s)
  then show ?case
    using t_step_report[of t "Ack k s"] t_step_report_False[of t "Ack k s"] by auto
next
  case (10 t k)
  then show ?case
    using t_step_report[of t "Remove k"] t_step_report_False[of t "Remove k"] by auto
next
  case (11 t k s) then show ?case by (intro t_step_ack_released) auto
next
  case (12 t k s) then show ?case by (simp only: frame_simps)
qed

subsection \<open>Runs\<close>

declare t_step.simps [simp del]

lemma run_complete: "complete t \<Longrightarrow> complete (fst (t_run t es))"
  by (induction es arbitrary: t) (auto simp: Let_def split_beta frame_simps)

lemma t_run_reports:
  assumes "has_handler t"
  shows "length (snd (t_run t es)) =
         (if complete (fst (t_run t es)) \<and> \<not> complete t then 1 else 0)"
  using assms
proof (induction es arbitrary: t)
  case (Cons e es)
  let ?t = "fst (t_step t e)"
  have "length (snd (t_run ?t es)) =
      (if complete (fst (t_run ?t es)) \<and> \<not> complete ?t then 1 else 0)"
    using Cons by (simp add: frame_simps)
  with t_step_report[OF Cons.prems, of e] step_complete[of t e] run_complete[of ?t es]
  show ?case by (auto simp: Let_def split_beta split: option.splits)
qed simp

lemma t_run_append:
  "t_run t (es @ fs) =
     (let (t1, cs) = t_run t es; (t2, ds) = t_run t1 fs in (t2, cs @ ds))"
  by (induction es arbitrary: t) (auto simp: Let_def split_beta split: option.splits)

lemma t_run_acks:
  "fst (t_run t (map (\<lambda>(k, s). Ack k s) ks)) =
   foldl (\<lambda>t (k, s). fst (t_step t (Ack k s))) t ks"
  by (induction ks arbitrary: t) (auto simp: Let_def split_beta)

lemma t_step_add_fresh:
  assumes "\<not> committed t" "k \<notin> enrolled t"
  shows "snd (t_step t (Add True k s)) = None" "\<not> committed (fst (t_step t (Add True k s)))"
    "enrolled (fst (t_step t (Add True k s))) = insert k (enrolled t)"
    "outstanding (fst (t_step t (Add True k s))) = (outstanding t)(k \<mapsto> s)"
proof -
  have "find_participant t k = None"
    using assms(2) by (simp add: find_participant_None enrolled_def)
  with assms show "snd (t_step t (Add True k s)) = None" "\<not> committed (fst (t_step t (Add True k s)))"
    "enrolled (fst (t_step t (Add True k s))) = insert k (enrolled t)"
    "outstanding (fst (t_step t (Add True k s))) = (outstanding t)(k \<mapsto> s)"
    by (auto simp: t_step.simps transaction_add_def enrolled_def outstanding_def find_participant_def)
qed

lemma t_run_adds:
  assumes "\<not> committed t" "distinct (map fst ks)" "enrolled t \<inter> fst ` set ks = {}"
  shows "snd (t_run t (map (\<lambda>(k, s). Add True k s) ks)) = [] \<and>
         \<not> committed (fst (t_run t (map (\<lambda>(k, s). Add True k s) ks))) \<and>
         outstanding (fst (t_run t (map (\<lambda>(k, s). Add True k s) ks))) = outstanding t ++ map_of ks"
  using assms
proof (induction ks arbitrary: t)
  case (Cons p ks)
  obtain k s where p: "p = (k, s)" by (cases p)
  note t = t_step_add_fresh[of t k s]
  have "map_of ks k = None" using Cons.prems p by (simp add: map_of_eq_None_iff)
  then have "(\<lambda>a. if a = k then Some s else outstanding t a) ++ map_of ks =
      outstanding t ++ (\<lambda>a. if a = k then Some s else map_of ks a)"
    by (auto simp: map_add_def fun_eq_iff split: option.splits)
  with Cons.IH[of "fst (t_step t (Add True k s))"] Cons.prems p t
  show ?case by (auto simp: Let_def split_beta fun_upd_def)
qed simp

subsection \<open>Properties\<close>

text \<open>C1: once a transaction is created with a completion handler, whatever adds, removals,
  acknowledgements, commits and timeouts follow, the handler runs exactly once if the
  transaction has completed and not at all otherwise.\<close>

theorem transaction_handler_runs_once:
  "transaction_create loop mem True = Some t \<Longrightarrow>
   length (snd (t_run t es)) = (if complete (fst (t_run t es)) then 1 else 0)"
  by (subst t_run_reports) (auto simp: transaction_create_def split: if_splits)

theorem transaction_handler_runs_once_witness:
  "snd (t_run (the (transaction_create True True True))
      [Add True (7::nat) 1, Add True 8 2, Commit True 100, Ack 7 1, Timeout, Ack 8 2]) = [True] \<and>
   length (snd (t_run (the (transaction_create True True True))
      [Add True (7::nat) 1, Add True 8 2, Commit True 100, Ack 7 1, Timeout, Ack 8 2])) =
   (if complete (fst (t_run (the (transaction_create True True True))
      [Add True (7::nat) 1, Add True 8 2, Commit True 100, Ack 7 1, Timeout, Ack 8 2])) then 1 else 0)"
proof -
  have c: "transaction_create True True True = Some (the (transaction_create True True True) :: nat transaction)"
    by (simp add: transaction_create_def)
  show ?thesis
    using transaction_handler_runs_once[OF c,
        of "[Add True 7 1, Add True 8 2, Commit True 100, Ack 7 1, Timeout, Ack 8 2]"]
    by code_simp
qed

lemma run_reports_False:
  assumes "\<And>e. e \<in> set es \<Longrightarrow> e \<noteq> Timeout \<and> (\<forall>ms. e \<noteq> Commit False ms)"
  shows "set (snd (t_run t es)) \<subseteq> {False}"
  using assms
proof (induction es arbitrary: t)
  case (Cons e es)
  have "snd (t_step t e) \<noteq> Some True"
    using Cons.prems[of e] t_step_report_False[of t e True] by auto
  with Cons.IH[of "fst (t_step t e)"] Cons.prems show ?case
    by (auto simp: Let_def split_beta split: option.splits)
qed simp

lemma t_step_commit:
  assumes "t_inv t" "\<not> committed t" "outstanding t \<noteq> Map.empty"
  shows "snd (t_step t (Commit True ms)) = None" "committed (fst (t_step t (Commit True ms)))"
    "\<not> complete (fst (t_step t (Commit True ms)))"
    "timer (fst (t_step t (Commit True ms))) = Some ms"
    "outstanding (fst (t_step t (Commit True ms))) = outstanding t"
proof -
  have "t_pending t \<noteq> 0" using assms outstanding_None_pending[of t] by auto
  moreover have "\<not> complete t" using assms by (auto simp: t_inv_def)
  ultimately show "snd (t_step t (Commit True ms)) = None"
    "committed (fst (t_step t (Commit True ms)))"
    "\<not> complete (fst (t_step t (Commit True ms)))"
    "timer (fst (t_step t (Commit True ms))) = Some ms"
    "outstanding (fst (t_step t (Commit True ms))) = outstanding t"
    using assms by (auto simp: t_step.simps transaction_commit_def outstanding_def find_participant_def)
qed

text \<open>C2: a cohort that is enrolled, committed and then acknowledged by every participant,
  each with the serial it was enrolled with, in any order and interspersed with any number of
  stale or repeated acknowledgements, completes, and reports once that it did not time out.\<close>

theorem transaction_cohort_completes:
  assumes "transaction_create loop mem True = Some t" "distinct (map fst ks)" "ks \<noteq> []"
    "set ks \<subseteq> set acks"
  shows "let es = map (\<lambda>(k, s). Add True k s) ks @ [Commit True ms] @ map (\<lambda>(k, s). Ack k s) acks
         in complete (fst (t_run t es)) \<and> snd (t_run t es) = [False]"
proof -
  define es where "es = map (\<lambda>(k, s). Add True k s) ks @ [Commit True ms] @ map (\<lambda>(k, s). Ack k s) acks"
  have t: "t_inv t" "has_handler t" "\<not> committed t" "enrolled t = {}" "outstanding t = Map.empty"
    using assms(1) t_inv_create[OF assms(1)]
    by (auto simp: transaction_create_def enrolled_def outstanding_def find_participant_def
        split: if_splits)
  define t1 where "t1 = fst (t_run t (map (\<lambda>(k, s). Add True k s) ks))"
  define t2 where "t2 = fst (t_step t1 (Commit True ms))"
  have t1: "t_inv t1" "\<not> committed t1" "outstanding t1 = map_of ks"
    using t_run_adds[of t ks] t assms(2) t_inv_run[OF t(1)] by (auto simp: t1_def)
  have h1: "has_handler t1"
    unfolding t1_def using t(2)
    by (induction "map (\<lambda>(k, s). Add True k s) ks" arbitrary: t ks)
       (auto simp: Let_def split_beta frame_simps)
  have "map_of ks \<noteq> Map.empty" using assms(3) by (cases ks) auto
  then have t2: "t_inv t2 \<and> has_handler t2" "committed t2" "outstanding t2 = map_of ks"
    using t_step_commit[of t1 ms] t1 h1 t_inv_step by (auto simp: t2_def frame_simps)
  have "complete (foldl (\<lambda>t (k, s). fst (t_step t (Ack k s))) t2 acks)"
    using tb.acks_release[OF t2(1,2), of acks] t2(3) assms(4) by (auto dest: map_of_SomeD)
  then have fin: "complete (fst (t_run t es))"
    by (simp add: es_def t_run_append Let_def split_beta t1_def[symmetric] t2_def[symmetric]
        t_run_acks)
  moreover have "set (snd (t_run t es)) \<subseteq> {False}"
    by (rule run_reports_False) (auto simp: es_def)
  moreover have "length (snd (t_run t es)) = 1"
    using t_run_reports[OF t(2), of es] fin t by (simp add: t_inv_def)
  ultimately have "complete (fst (t_run t es)) \<and> snd (t_run t es) = [False]"
    by (cases "snd (t_run t es)") auto
  then show ?thesis by (simp add: es_def Let_def)
qed

theorem transaction_cohort_completes_witness:
  "let es = map (\<lambda>(k, s). Add True k s) [(1::nat, 5), (2, 9)] @ [Commit True 100] @
            map (\<lambda>(k, s). Ack k s) [(2, 8), (2, 9), (2, 9), (1, 5)]
   in complete (fst (t_run (the (transaction_create True True True)) es)) \<and>
      snd (t_run (the (transaction_create True True True)) es) = [False]"
proof -
  have c: "transaction_create True True True = Some (the (transaction_create True True True) :: nat transaction)"
    by (simp add: transaction_create_def)
  show ?thesis by (rule transaction_cohort_completes[OF c]) auto
qed

text \<open>an acknowledgement that does not carry the serial its participant is still waiting
  on (a stale configure, a repeated ack, a window that is not enrolled) changes nothing at all
  and never completes the barrier.\<close>

theorem transaction_stale_ack:
  "outstanding t k \<noteq> Some s \<Longrightarrow> transaction_ack (Some t) k s = (Some t, None)"
  by (auto simp: outstanding_def transaction_ack_def split: option.splits)

theorem transaction_stale_ack_witness:
  "let t = fst (t_run (the (transaction_create True True True)) [Add True (1::nat) 5, Commit True 100])
   in transaction_ack (Some t) 1 4 = (Some t, None) \<and> \<not> complete t"
proof -
  let ?t = "fst (t_run (the (transaction_create True True True)) [Add True (1::nat) 5, Commit True 100])"
  have "outstanding ?t 1 \<noteq> Some 4" by code_simp
  from transaction_stale_ack[OF this] show ?thesis unfolding Let_def by (simp, code_simp)
qed

text \<open>withdrawing the one participant that a committed barrier still waits on (a window
  that is destroyed mid-cohort) completes the barrier at once, without a timeout.\<close>

theorem transaction_withdrawal_completes:
  "t_inv t \<Longrightarrow> has_handler t \<Longrightarrow> committed t \<Longrightarrow> \<not> complete t \<Longrightarrow> dom (outstanding t) \<subseteq> {k} \<Longrightarrow>
   complete (the (fst (transaction_remove (Some t) k))) \<and>
   snd (transaction_remove (Some t) k) = Some False"
  using tb.last_withdrawal_releases[of t k] by (simp add: t_step.simps)

theorem transaction_withdrawal_completes_witness:
  "let t = fst (t_run (the (transaction_create True True True))
         [Add True (1::nat) 5, Add True 2 6, Commit True 100, Ack 2 6])
   in complete (the (fst (transaction_remove (Some t) 1))) \<and>
      snd (transaction_remove (Some t) 1) = Some False"
proof -
  let ?c = "the (transaction_create True True True) :: nat transaction"
  let ?t = "fst (t_run ?c [Add True (1::nat) 5, Add True 2 6, Commit True 100, Ack 2 6])"
  have "t_inv ?c" by (rule t_inv_create[of True True True]) (simp add: transaction_create_def)
  then have i: "t_inv ?t" by (rule t_inv_run)
  have t: "?t = \<lparr>has_handler = True,
      participants = [\<lparr>p_key = 2, p_serial = 6, p_acked = True\<rparr>, \<lparr>p_key = 1, p_serial = 5, p_acked = False\<rparr>],
      timer = Some 100, t_size = 2, t_pending = 1, committed = True, complete = False\<rparr>"
    by code_simp
  have "dom (outstanding ?t) \<subseteq> {1}"
    unfolding t by (auto simp: outstanding_def find_participant_def dom_def split: if_splits)
  then show ?thesis
    unfolding Let_def
    by (intro transaction_withdrawal_completes[OF i]) (simp_all only: t transaction.simps simp_thms)
qed

subsection \<open>Abstract barrier and refinement\<close>

text \<open>What the header promises of a barrier, without lists, counters or timers: who is a
  member, which configure each member still owes, whether the clock runs, and the phase.\<close>

datatype barrier_phase = Open | Sealed | Released

record 'k abs_barrier =
  members :: "'k set"
  waiting :: "'k \<rightharpoonup> u32"
  clock :: bool
  phase :: barrier_phase

definition abs_release :: "'k abs_barrier \<Rightarrow> 'k abs_barrier" where
  "abs_release a = a\<lparr>phase := Released, clock := False\<rparr>"

definition abs_settle :: "'k abs_barrier \<Rightarrow> 'k abs_barrier" where
  "abs_settle a = (if phase a = Sealed \<and> waiting a = Map.empty then abs_release a else a)"

fun abs_step :: "'k abs_barrier \<Rightarrow> 'k t_event \<Rightarrow> 'k abs_barrier" where
  "abs_step a (Add mem_ok k s) =
     (if phase a = Open \<and> k \<notin> members a \<and> mem_ok
      then a\<lparr>members := insert k (members a), waiting := (waiting a)(k \<mapsto> s)\<rparr> else a)"
| "abs_step a (Remove k) =
     abs_settle (a\<lparr>members := members a - {k}, waiting := (waiting a)(k := None)\<rparr>)"
| "abs_step a (Ack k s) =
     abs_settle (if waiting a k = Some s then a\<lparr>waiting := (waiting a)(k := None)\<rparr> else a)"
| "abs_step a (Commit timer_ok ms) =
     (if phase a \<noteq> Open then a
      else if waiting a = Map.empty \<or> \<not> timer_ok then abs_release a
      else a\<lparr>phase := Sealed, clock := ms \<noteq> 0\<rparr>)"
| "abs_step a Timeout = (if clock a then abs_release a else a)"

definition t_abs :: "'k transaction \<Rightarrow> 'k abs_barrier" where
  "t_abs t = \<lparr>members = enrolled t, waiting = outstanding t, clock = timer_armed t,
              phase = (if complete t then Released else if committed t then Sealed else Open)\<rparr>"

lemma enrolled_cong: "participants t = participants t' \<Longrightarrow> enrolled t = enrolled t'"
  by (simp add: enrolled_def)

lemma t_abs_finish:
  "\<not> complete t \<Longrightarrow> t_abs (fst (finish t b)) = abs_release (t_abs t)"
  using outstanding_cong[OF finish_frame(1)[of t b]] enrolled_cong[OF finish_frame(1)[of t b]]
  by (simp add: t_abs_def abs_release_def frame_simps timer_finish)

lemma t_abs_settle:
  assumes "t_core t"
  shows "t_abs (fst (settle t)) = abs_settle (t_abs t)"
proof -
  have "t_pending t = 0 \<longleftrightarrow> outstanding t = Map.empty"
    using outstanding_None_core[OF assms] by auto
  note empty = this
  show ?thesis
  proof (cases "committed t \<and> t_pending t = 0 \<and> \<not> complete t")
    case True
    then have "abs_settle (t_abs t) = abs_release (t_abs t)"
      using empty by (simp add: abs_settle_def t_abs_def)
    with True show ?thesis by (simp add: settle_def t_abs_finish)
  next
    case False
    then have "settle t = (t, None)" by (auto simp: settle_def finish_complete)
    moreover have "\<not> (phase (t_abs t) = Sealed \<and> waiting (t_abs t) = Map.empty)"
      using False by (simp add: t_abs_def empty) blast
    then have "abs_settle (t_abs t) = t_abs t" unfolding abs_settle_def by (rule if_not_P)
    ultimately show ?thesis by simp
  qed
qed

lemma t_abs_add: "t_inv t \<Longrightarrow> t_abs (fst (t_step t (Add m k s))) = abs_step (t_abs t) (Add m k s)"
proof (cases "\<not> committed t \<and> k \<notin> enrolled t \<and> m")
  case True
  assume "t_inv t"
  with True have "\<not> complete t" "timer t = None" by (auto simp: t_inv_def)
  moreover have "\<not> complete (fst (t_step t (Add m k s)))" "timer (fst (t_step t (Add m k s))) = None"
    using True calculation
    by (auto simp: t_step.simps transaction_add_def)
  ultimately show ?thesis
    using True t_step_add_fresh[of t k s] by (auto simp: t_abs_def timer_armed_def)
next
  case False
  assume "t_inv t"
  with False show ?thesis
    by (auto simp: t_step.simps transaction_add_def t_abs_def find_participant_None enrolled_def t_inv_def)
qed

lemma t_abs_remove: "t_inv t \<Longrightarrow> t_abs (fst (t_step t (Remove k))) = abs_step (t_abs t) (Remove k)"
proof (cases "find_participant t k")
  case None
  assume i: "t_inv t"
  have "k \<notin> enrolled t" using None by (simp add: find_participant_None enrolled_def)
  moreover have "outstanding t k = None" using None by (simp add: outstanding_def)
  moreover have "abs_settle (t_abs t) = t_abs t"
    using i outstanding_None_pending[OF i] by (auto simp: abs_settle_def t_abs_def t_inv_def)
  ultimately show ?thesis
    using None by (simp add: t_step.simps transaction_remove_def t_abs_def fun_upd_idem)
next
  case (Some p)
  assume i: "t_inv t"
  let ?t = "let t = t\<lparr>participants := remove1 p (participants t), t_size := t_size t - 1\<rparr>
            in if \<not> p_acked p then t\<lparr>t_pending := t_pending t - 1\<rparr> else t"
  note p = find_participant_SomeD[OF Some]
  have d: "distinct (map p_key (participants t))" using i by (simp add: t_inv_def)
  then have "p_key ` set (remove1 p (participants t)) = enrolled t - {k}"
    using p by (auto simp: enrolled_def distinct_map inj_on_def)
  moreover have "outstanding ?t = (outstanding t)(k := None)"
    using p d by (auto simp: Let_def outstanding_def find_participant_def find_remove1)
  ultimately have "t_abs ?t =
      t_abs t\<lparr>members := enrolled t - {k}, waiting := (outstanding t)(k := None)\<rparr>"
    by (auto simp: t_abs_def enrolled_def Let_def timer_armed_def)
  moreover have "t_abs (fst (t_step t (Remove k))) = abs_settle (t_abs ?t)"
    using t_abs_settle[OF t_core_removed[OF i Some]] Some
    by (simp add: t_step.simps transaction_remove_def Let_def)
  ultimately show ?thesis by (simp add: t_abs_def)
qed

lemma t_abs_ack: "t_inv t \<Longrightarrow> t_abs (fst (t_step t (Ack k s))) = abs_step (t_abs t) (Ack k s)"
proof (cases "outstanding t k = Some s")
  case False
  assume i: "t_inv t"
  have "abs_settle (t_abs t) = t_abs t"
    using i outstanding_None_pending[OF i] by (auto simp: abs_settle_def t_abs_def t_inv_def)
  moreover have "transaction_ack (Some t) k s = (Some t, None)"
    using False by (auto simp: outstanding_def transaction_ack_def split: option.splits)
  ultimately show ?thesis
    using False by (simp add: t_step.simps t_abs_def)
next
  case True
  assume i: "t_inv t"
  then obtain p where p: "find_participant t k = Some p" "p_serial p = s" "\<not> p_acked p"
    using True by (auto simp: outstanding_def split: option.splits if_splits)
  let ?t = "t\<lparr>participants := set_acked k (participants t), t_pending := t_pending t - 1\<rparr>"
  have "p_key ` set (set_acked k (participants t)) = p_key ` set (participants t)"
    by (metis keys_set_acked list.set_map)
  moreover have "outstanding ?t = (outstanding t)(k := None)"
    using p by (auto simp: outstanding_def find_set_acked)
  ultimately have "t_abs ?t = t_abs t\<lparr>waiting := (outstanding t)(k := None)\<rparr>"
    by (simp add: t_abs_def enrolled_def timer_armed_def)
  moreover have "t_abs (fst (t_step t (Ack k s))) = abs_settle (t_abs ?t)"
    using t_abs_settle[OF t_core_acked[OF i p]] p
    by (simp add: t_step.simps transaction_ack_def)
  ultimately show ?thesis using True by (simp add: t_abs_def)
qed

lemma t_abs_commit:
  "t_inv t \<Longrightarrow> t_abs (fst (t_step t (Commit ok ms))) = abs_step (t_abs t) (Commit ok ms)"
proof (cases "committed t")
  case True
  then show ?thesis by (simp add: t_step.simps transaction_commit_def t_abs_def)
next
  case False
  assume i: "t_inv t"
  with False have c: "\<not> complete t" "timer t = None" by (auto simp: t_inv_def)
  have o: "outstanding (t\<lparr>committed := True, timer := x\<rparr>) = outstanding t"
    "enrolled (t\<lparr>committed := True, timer := x\<rparr>) = enrolled t" for x
    by (rule outstanding_cong, simp) (rule enrolled_cong, simp)
  have "t\<lparr>committed := True\<rparr> = t\<lparr>committed := True, timer := None\<rparr>" using c by simp
  note same = this
  have empty: "t_pending t = 0 \<longleftrightarrow> outstanding t = Map.empty"
    using outstanding_None_pending[OF i] by auto
  have a: "phase (t_abs t) = Open" "waiting (t_abs t) = outstanding t"
    using c False by (simp_all add: t_abs_def)
  have r: "t_abs (fst (finish (t\<lparr>committed := True, timer := None\<rparr>) b)) = abs_release (t_abs t)" for b
    using c by (subst t_abs_finish) (simp_all add: t_abs_def abs_release_def o)
  have s: "t_abs (t\<lparr>committed := True, timer := Some ms\<rparr>) =
      t_abs t\<lparr>phase := Sealed, clock := ms \<noteq> 0\<rparr>"
    using c by (simp add: t_abs_def o timer_armed_def)
  show ?thesis
    unfolding t_step.simps transaction_commit_def Let_def abs_step.simps a empty[symmetric]
    using False same r s by simp
qed

text \<open>C3: the transaction implements the abstract barrier: for every call and timeout, the
  abstraction of the resulting transaction is the abstract step from the abstraction.\<close>

theorem transaction_refines_barrier:
  "t_inv t \<Longrightarrow> t_abs (fst (t_step t e)) = abs_step (t_abs t) e"
proof (cases e)
  case Timeout
  assume "t_inv t"
  then have "timer_armed t \<Longrightarrow> \<not> complete t" by (auto simp: t_inv_def)
  then show ?thesis
    using Timeout by (simp add: t_step.simps handle_timeout_def t_abs_finish)
                     (simp add: t_abs_def)
qed (simp_all only: t_abs_add t_abs_remove t_abs_ack t_abs_commit)

theorem transaction_refines_barrier_witness:
  "let t = fst (t_run (the (transaction_create True True True)) [Add True (1::nat) 5, Add True 2 6])
   in t_inv t \<and> t_abs (fst (t_step t (Commit True 100))) = abs_step (t_abs t) (Commit True 100)"
proof -
  let ?c = "the (transaction_create True True True) :: nat transaction"
  have "t_inv ?c" by (rule t_inv_create[of True True True]) (simp add: transaction_create_def)
  then have "t_inv (fst (t_run ?c [Add True (1::nat) 5, Add True 2 6]))" by (rule t_inv_run)
  with transaction_refines_barrier[OF this] show ?thesis unfolding Let_def by blast
qed

text \<open>C4: a commit with a timeout of 0 disarms its own timer: with a participant that never
  answers, no number of turns of the event loop completes the transaction, although the header
  says that committing starts the clock.\<close>

theorem transaction_zero_timeout_never_fires:
  "t_inv t \<Longrightarrow> \<not> committed t \<Longrightarrow> outstanding t \<noteq> Map.empty \<Longrightarrow>
   t_run (fst (t_step t (Commit True 0))) (replicate n Timeout) = (fst (t_step t (Commit True 0)), []) \<and>
   \<not> complete (fst (t_step t (Commit True 0)))"
proof -
  assume a: "t_inv t" "\<not> committed t" "outstanding t \<noteq> Map.empty"
  let ?t = "fst (t_step t (Commit True 0))"
  have "\<not> timer_armed ?t" using t_step_commit(4)[OF a] by (simp add: timer_armed_def)
  then have "t_run ?t (replicate n Timeout) = (?t, [])"
    by (induction n) (auto simp: t_step.simps(5))
  with t_step_commit(3)[OF a] show ?thesis by blast
qed

theorem transaction_zero_timeout_never_fires_witness:
  "let t = fst (t_step (the (transaction_create True True True)) (Add True (1::nat) 5))
   in t_run (fst (t_step t (Commit True 0))) (replicate 3 Timeout) = (fst (t_step t (Commit True 0)), []) \<and>
      \<not> complete (fst (t_step t (Commit True 0)))"
proof -
  let ?c = "the (transaction_create True True True) :: nat transaction"
  let ?t = "fst (t_step ?c (Add True (1::nat) 5))"
  have "t_inv ?c" by (rule t_inv_create[of True True True]) (simp add: transaction_create_def)
  then have "t_inv ?t" by (rule t_inv_step)
  moreover have "\<not> committed ?t" by code_simp
  moreover have "outstanding ?t 1 = Some 5" by code_simp
  then have "outstanding ?t \<noteq> Map.empty" by auto
  ultimately show ?thesis
    unfolding Let_def by (rule transaction_zero_timeout_never_fires)
qed

end
