(* ===== verification/Geometry.thy ===== *)
theory Geometry
  imports Prelude
begin

text \<open>
  Integer geometry: the rectangle predicates of \<open>libswc/util.h\<close>, the size clamp and motion
  throttle of \<open>libswc/window.c\<close>, and the box arithmetic of \<open>libswc/compositor.c\<close> (clip boxes,
  content bounds, extents).

  A \<open>swc_rectangle\<close> mixes \<open>int32_t\<close> positions with \<open>uint32_t\<close> sizes, so C computes
  \<open>x + width\<close> as \<open>uint32_t\<close> and compares it unsigned. Positions and sizes are both
  \<^typ>\<open>32 word\<close> here, sums wrap, \<open><\<close> is the unsigned comparison and signed comparisons go
  through \<^term>\<open>sint\<close>. The \<open>int64_t\<close> arithmetic of compositor.c never overflows (its inputs
  have 33 bits) and is done on \<^typ>\<open>int\<close>.
\<close>

subsection \<open>Reading 32-bit words as signed\<close>

lemma sint_if: "sint (w::32 word) = (if uint w < 2147483648 then uint w else uint w - 4294967296)"
proof -
  have "sint w = signed_take_bit 31 (uint w)" by (simp add: sint_uint)
  also have "\<dots> = take_bit 32 (uint w + 2147483648) - 2147483648"
    by (simp add: signed_take_bit_eq_take_bit_shift)
  also have "\<dots> = (uint w + 2147483648) mod 4294967296 - 2147483648"
    by (simp add: take_bit_eq_mod)
  finally have s: "sint w = (uint w + 2147483648) mod 4294967296 - 2147483648" .
  have b: "0 \<le> uint w" "uint w < 4294967296" using uint_lt2p[of w] by auto
  show ?thesis
  proof (cases "uint w < 2147483648")
    case True
    with b have "(uint w + 2147483648) mod 4294967296 = uint w + 2147483648"
      by (intro mod_pos_pos_trivial) auto
    with s True show ?thesis by simp
  next
    case False
    have "(uint w + 2147483648) mod 4294967296 = (uint w - 2147483648 + 4294967296) mod 4294967296"
      by (rule arg_cong[where f = "\<lambda>z. z mod 4294967296"]) linarith
    also have "\<dots> = (uint w - 2147483648) mod 4294967296" by (rule mod_add_self2)
    also have "\<dots> = uint w - 2147483648"
      using False b by (intro mod_pos_pos_trivial) auto
    finally show ?thesis using s False by simp
  qed
qed

lemma uint32_bounds: "0 \<le> uint (w::32 word)" "uint (w::32 word) < 4294967296"
  using uint_lt2p[of w] by auto

lemma sint32_bounds: "-2147483648 \<le> sint (w::32 word)" "sint (w::32 word) < 2147483648"
  unfolding sint_if using uint32_bounds[of w] by (simp_all only: split: if_split) linarith+

lemma uint32_add: "uint (a + b :: 32 word) =
  (if uint a + uint b < 4294967296 then uint a + uint b else uint a + uint b - 4294967296)"
  by (simp add: uint_plus_if')

lemma uint32_sub: "uint (a - b :: 32 word) =
  (if uint b \<le> uint a then uint a - uint b else uint a - uint b + 4294967296)"
  by (simp add: uint_sub_if')

lemma sint_nonneg:
  fixes w :: "32 word" assumes "0 \<le> sint w" shows "sint w = uint w" "uint w < 2147483648"
  using assms uint32_bounds[of w] unfolding sint_if by (simp_all split: if_splits)

lemma sint_neg:
  fixes w :: "32 word" assumes "sint w < 0" shows "sint w = uint w - 4294967296" "2147483648 \<le> uint w"
proof -
  have "\<not> uint w < 2147483648"
  proof
    assume "uint w < 2147483648"
    then have "sint w = uint w" by (simp add: sint_if)
    with assms show False by simp
  qed
  then show "sint w = uint w - 4294967296" "2147483648 \<le> uint w" by (simp_all add: sint_if)
qed

lemmas word32 = sint_if uint32_add uint32_sub word_less_def

subsection \<open>Rectangles\<close>

record rect =
  r_x :: i32
  r_y :: i32
  r_w :: u32
  r_h :: u32

definition max_u :: "u32 \<Rightarrow> u32 \<Rightarrow> u32" where
  "max_u a b = (if b < a then a else b)"

definition min_s :: "i32 \<Rightarrow> i32 \<Rightarrow> i32" where
  "min_s a b = (if sint a < sint b then a else b)"

definition rectangle_contains_point :: "rect \<Rightarrow> i32 \<Rightarrow> i32 \<Rightarrow> bool" where
  "rectangle_contains_point r x y \<longleftrightarrow>
     sint (r_x r) < sint x \<and> x < r_x r + r_w r \<and>
     sint (r_y r) < sint y \<and> y < r_y r + r_h r"

definition rectangle_overlap :: "rect \<Rightarrow> rect \<Rightarrow> bool" where
  "rectangle_overlap r1 r2 \<longleftrightarrow>
     max_u (r_x r1 + r_w r1) (r_x r2 + r_w r2) - min_s (r_x r1) (r_x r2) < r_w r1 + r_w r2 \<and>
     max_u (r_y r1 + r_h r1) (r_y r2 + r_h r2) - min_s (r_y r1) (r_y r2) < r_h r1 + r_h r2"

text \<open>A rectangle that lies in the non-negative quadrant and ends below \<open>2\<^sup>31\<close>.\<close>

definition on_screen :: "rect \<Rightarrow> bool" where
  "on_screen r \<longleftrightarrow>
     0 \<le> sint (r_x r) \<and> sint (r_x r) + uint (r_w r) < 2147483648 \<and>
     0 \<le> sint (r_y r) \<and> sint (r_y r) + uint (r_h r) < 2147483648"

lemma span_contains:
  fixes x w p :: "32 word"
  assumes "0 \<le> sint x" "sint x + uint w < 2147483648"
  shows "sint x < sint p \<and> p < x + w \<longleftrightarrow> sint x < sint p \<and> sint p < sint x + uint w"
  using assms uint32_bounds[of x] uint32_bounds[of w] uint32_bounds[of p]
  by (auto simp: word32 simp del: uint_ge_0 split: if_splits)

lemma span_overlap:
  fixes x1 w1 x2 w2 :: "32 word"
  assumes "0 \<le> sint x1" "sint x1 + uint w1 < 2147483648"
    and "0 \<le> sint x2" "sint x2 + uint w2 < 2147483648"
  shows "max_u (x1 + w1) (x2 + w2) - min_s x1 x2 < w1 + w2 \<longleftrightarrow>
         max (sint x1) (sint x2) < min (sint x1 + uint w1) (sint x2 + uint w2)"
proof -
  note b = uint32_bounds[of x1] uint32_bounds[of w1] uint32_bounds[of x2] uint32_bounds[of w2]
  have x: "sint x1 = uint x1" "sint x2 = uint x2"
    using assms b by (auto simp: sint_if simp del: uint_ge_0 split: if_splits)
  have s: "uint (x1 + w1) = uint x1 + uint w1" "uint (x2 + w2) = uint x2 + uint w2"
    "uint (w1 + w2) = uint w1 + uint w2"
    using assms b x by (simp_all only: uint32_add split: if_split) linarith+
  have m: "uint (max_u (x1 + w1) (x2 + w2)) = max (uint x1 + uint w1) (uint x2 + uint w2)"
    "uint (min_s x1 x2) = min (uint x1) (uint x2)"
    by (simp_all add: max_u_def min_s_def word_less_def s x max_def min_def)
  show ?thesis
    using b by (auto simp: word_less_def uint32_sub m s x simp del: uint_ge_0)
qed

text \<open>C9: for rectangles in the non-negative quadrant whose far edge is below \<open>2\<^sup>31\<close>, the unsigned
  arithmetic of \<open>rectangle_overlap\<close> decides whether the two interiors share a pixel column and
  a pixel row.\<close>

theorem rectangle_overlap_correct:
  assumes "on_screen r1" "on_screen r2"
  shows "rectangle_overlap r1 r2 \<longleftrightarrow>
    max (sint (r_x r1)) (sint (r_x r2)) <
      min (sint (r_x r1) + uint (r_w r1)) (sint (r_x r2) + uint (r_w r2)) \<and>
    max (sint (r_y r1)) (sint (r_y r2)) <
      min (sint (r_y r1) + uint (r_h r1)) (sint (r_y r2) + uint (r_h r2))"
  using assms unfolding on_screen_def rectangle_overlap_def by (simp only: span_overlap)

theorem rectangle_overlap_correct_witness:
  "rectangle_overlap \<lparr>r_x = 0, r_y = 0, r_w = 1920, r_h = 1080\<rparr>
                     \<lparr>r_x = 1900, r_y = 10, r_w = 100, r_h = 100\<rparr>"
proof -
  let ?a = "\<lparr>r_x = 0, r_y = 0, r_w = 1920, r_h = 1080\<rparr>"
  let ?b = "\<lparr>r_x = 1900, r_y = 10, r_w = 100, r_h = 100\<rparr>"
  have o: "on_screen ?a" "on_screen ?b" by (simp_all add: on_screen_def)
  show ?thesis unfolding rectangle_overlap_correct[OF o] by simp
qed

text \<open>in the non-negative quadrant, \<open>rectangle_contains_point\<close> holds exactly of the points
  strictly inside the rectangle: the left column and the top row are outside, so a window at
  the origin does not contain the point (0, 0).\<close>

theorem rectangle_contains_point_correct:
  "on_screen r \<Longrightarrow> rectangle_contains_point r x y \<longleftrightarrow>
     sint (r_x r) < sint x \<and> sint x < sint (r_x r) + uint (r_w r) \<and>
     sint (r_y r) < sint y \<and> sint y < sint (r_y r) + uint (r_h r)"
  using span_contains[of "r_x r" "r_w r" x] span_contains[of "r_y r" "r_h r" y]
  unfolding on_screen_def rectangle_contains_point_def by blast

theorem rectangle_contains_point_correct_witness:
  "\<not> rectangle_contains_point \<lparr>r_x = 0, r_y = 0, r_w = 1920, r_h = 1080\<rparr> 0 0 \<and>
   rectangle_contains_point \<lparr>r_x = 0, r_y = 0, r_w = 1920, r_h = 1080\<rparr> 1 1"
proof -
  have o: "on_screen \<lparr>r_x = 0, r_y = 0, r_w = 1920, r_h = 1080\<rparr>" by (simp add: on_screen_def)
  show ?thesis unfolding rectangle_contains_point_correct[OF o] by simp
qed

text \<open>left of the origin the unsigned comparison goes wrong: of a rectangle that starts at a
  negative \<open>x\<close> and reaches the origin, no point with a negative \<open>x\<close> is ever contained, so the
  part of a window left of the origin cannot take the pointer.\<close>

theorem rectangle_contains_point_negative:
  assumes "sint (r_x r) < 0" "0 \<le> sint (r_x r) + uint (r_w r)"
    "sint (r_x r) + uint (r_w r) < 2147483648" "sint x < 0"
  shows "\<not> rectangle_contains_point r x y"
proof -
  note b = uint32_bounds[of "r_x r"] uint32_bounds[of "r_w r"] uint32_bounds[of x]
  have "\<not> x < r_x r + r_w r"
    using assms b by (auto simp: word32 simp del: uint_ge_0 split: if_splits)
  then show ?thesis by (simp add: rectangle_contains_point_def)
qed

theorem rectangle_contains_point_negative_witness:
  "\<not> rectangle_contains_point \<lparr>r_x = -100, r_y = 0, r_w = 200, r_h = 100\<rparr> (-50) 50"
  by (rule rectangle_contains_point_negative) simp_all

text \<open>a rectangle that lies wholly left of the origin is reported to overlap every
  non-empty rectangle of the non-negative quadrant whose rows it shares.\<close>

theorem rectangle_overlap_left_of_origin:
  assumes "on_screen r1" "0 < uint (r_w r1)"
    "sint (r_x r2) + uint (r_w r2) < 0"
    "0 \<le> sint (r_y r2)" "sint (r_y r2) + uint (r_h r2) < 2147483648"
    "max (sint (r_y r1)) (sint (r_y r2)) <
       min (sint (r_y r1) + uint (r_h r1)) (sint (r_y r2) + uint (r_h r2))"
  shows "rectangle_overlap r1 r2"
proof -
  note b = uint32_bounds[of "r_x r1"] uint32_bounds[of "r_w r1"]
    uint32_bounds[of "r_x r2"] uint32_bounds[of "r_w r2"]
  have on: "0 \<le> sint (r_x r1)" "sint (r_x r1) + uint (r_w r1) < 2147483648"
    using assms(1) by (simp_all add: on_screen_def)
  have "sint (r_x r2) < 0" using assms(3) b by linarith
  note x = sint_nonneg[OF on(1)] sint_neg[OF this]
  have s: "uint (r_x r1 + r_w r1) = uint (r_x r1) + uint (r_w r1)"
    "uint (r_x r2 + r_w r2) = uint (r_x r2) + uint (r_w r2)"
    "uint (r_w r1 + r_w r2) = uint (r_w r1) + uint (r_w r2)"
    using assms(3) on b x by (simp_all only: uint32_add split: if_split) linarith+
  have "uint (r_x r1 + r_w r1) < uint (r_x r2 + r_w r2)"
    unfolding s using x b on by linarith
  then have "max_u (r_x r1 + r_w r1) (r_x r2 + r_w r2) = r_x r2 + r_w r2"
    by (simp add: max_u_def word_less_def)
  moreover have "min_s (r_x r1) (r_x r2) = r_x r2"
    using \<open>sint (r_x r2) < 0\<close> on(1) by (simp add: min_s_def)
  ultimately have "max_u (r_x r1 + r_w r1) (r_x r2 + r_w r2) - min_s (r_x r1) (r_x r2) = r_w r2"
    by simp
  moreover have "r_w r2 < r_w r1 + r_w r2"
    unfolding word_less_def s using assms(2) by simp
  moreover have "max_u (r_y r1 + r_h r1) (r_y r2 + r_h r2) - min_s (r_y r1) (r_y r2) < r_h r1 + r_h r2"
    using assms by (subst span_overlap) (simp_all add: on_screen_def)
  ultimately show ?thesis by (simp add: rectangle_overlap_def)
qed

theorem rectangle_overlap_left_of_origin_witness:
  "rectangle_overlap \<lparr>r_x = 0, r_y = 0, r_w = 1920, r_h = 1080\<rparr>
                     \<lparr>r_x = -200, r_y = 10, r_w = 100, r_h = 100\<rparr>"
  by (rule rectangle_overlap_left_of_origin) (simp_all add: on_screen_def)

subsection \<open>Clamping sizes and throttling motion\<close>

definition clamp_dimension :: "i32 \<Rightarrow> u32 \<Rightarrow> u32 \<Rightarrow> u32" where
  "clamp_dimension value mn mx =
     (let value = (if sint value < 0 then 0 else value);
          value = (if mn \<noteq> 0 \<and> value < mn then mn else value);
          value = (if mx \<noteq> 0
                   then (let mx = (if mn \<noteq> 0 \<and> mx < mn then mn else mx)
                         in if mx < value then mx else value)
                   else value);
          value = (if 0xFFFFFFFF < value then 0xFFFFFFFF else value)
      in value)"

text \<open>The throttle of interactive moves and resizes: the result is whether to drop the motion,
  and the new \<open>last_time\<close>.\<close>

definition should_throttle_motion :: "u32 \<Rightarrow> u32 \<Rightarrow> u32 \<Rightarrow> bool \<times> u32" where
  "should_throttle_motion throttle_ms last_time time =
     (if throttle_ms = 0 then (False, last_time)
      else if last_time \<noteq> 0 \<and> time - last_time < throttle_ms then (True, last_time)
      else (False, time))"

lemma clamp_dimension_eq:
  "clamp_dimension v mn mx =
     (let a = max mn (if sint v < 0 then 0 else v) in if mx = 0 then a else min a (max mn mx))"
proof -
  have m: "\<not> 0xFFFFFFFF < (w :: 32 word)" for w
    unfolding word_less_def using uint32_bounds[of w] by simp
  have m2: "min w 4294967295 = w" for w :: "32 word"
    using m[of w] by (simp add: min_def not_less)
  have a: "(if mn \<noteq> 0 \<and> w < mn then mn else w) = max mn w" for w :: "32 word"
    by (cases "mn = 0") (auto simp: max_def)
  have b: "(if c < w then c else w) = min w c" for c w :: "32 word"
    by (auto simp: min_def)
  show ?thesis
    unfolding clamp_dimension_def Let_def if_not_P[OF m] a b by (simp add: m2)
qed

text \<open>C10: the clamped size obeys the window's constraints: it is at least the minimum, and at
  most the maximum unless the minimum is larger; a size that already obeys them and fits an
  \<open>int\<close> is unchanged.\<close>

theorem clamp_dimension_bounds:
  "mn \<le> clamp_dimension v mn mx \<and>
   (mx \<noteq> 0 \<longrightarrow> clamp_dimension v mn mx \<le> max mn mx) \<and>
   (0 \<le> sint v \<and> mn \<le> v \<and> (mx = 0 \<or> v \<le> mx) \<longrightarrow> clamp_dimension v mn mx = v)"
  unfolding clamp_dimension_eq Let_def
proof (intro conjI impI)
  assume "0 \<le> sint v \<and> mn \<le> v \<and> (mx = 0 \<or> v \<le> mx)"
  then show "(if mx = 0 then max mn (if sint v < 0 then 0 else v)
    else min (max mn (if sint v < 0 then 0 else v)) (max mn mx)) = v"
    by (auto simp: max_absorb2 min_absorb1)
qed simp_all

theorem clamp_dimension_bounds_witness:
  "clamp_dimension 50 100 200 \<le> max 100 200 \<and> clamp_dimension 150 100 200 = 150"
proof -
  have "clamp_dimension 50 100 200 \<le> max 100 200"
    using clamp_dimension_bounds[of 100 50 200] by simp
  moreover have "clamp_dimension 150 100 200 = 150"
    using clamp_dimension_bounds[of 100 150 200] by simp
  ultimately show ?thesis by simp
qed

subsection \<open>Boxes and clip boxes of the compositor\<close>

text \<open>\<open>pixman_box32_t\<close>: half-open in both directions. A \<open>pixman_region32_t\<close> is the union of a
  list of boxes.\<close>

record box =
  b_x1 :: int
  b_y1 :: int
  b_x2 :: int
  b_y2 :: int

type_synonym region = "box list"

definition in_box :: "box \<Rightarrow> int \<Rightarrow> int \<Rightarrow> bool" where
  "in_box b x y \<longleftrightarrow> b_x1 b \<le> x \<and> x < b_x2 b \<and> b_y1 b \<le> y \<and> y < b_y2 b"

definition in_region :: "region \<Rightarrow> int \<Rightarrow> int \<Rightarrow> bool" where
  "in_region r x y = list_ex (\<lambda>b. in_box b x y) r"

definition rect_box :: "rect \<Rightarrow> box" where
  "rect_box r = \<lparr>b_x1 = sint (r_x r), b_y1 = sint (r_y r),
                 b_x2 = sint (r_x r) + uint (r_w r), b_y2 = sint (r_y r) + uint (r_h r)\<rparr>"

record clip_box =
  cb_enabled :: bool
  cb_x :: i32
  cb_y :: i32
  cb_w :: u32
  cb_h :: u32

definition clamp_i32 :: "int \<Rightarrow> int" where
  "clamp_i32 v = (if v > 2147483647 then 2147483647
                  else if v < -2147483648 then -2147483648 else v)"

definition span_u32 :: "int \<Rightarrow> int \<Rightarrow> int" where
  "span_u32 a b = (let d = b - a in if d \<le> 0 then 0 else if d > 4294967295 then 4294967295 else d)"

definition region_init_box :: "int \<Rightarrow> int \<Rightarrow> int \<Rightarrow> int \<Rightarrow> region" where
  "region_init_box x1 y1 x2 y2 =
     (let x1 = (if x1 < -2147483648 then -2147483648 else x1);
          y1 = (if y1 < -2147483648 then -2147483648 else y1);
          x2 = (if x2 > 2147483647 then 2147483647 else x2);
          y2 = (if y2 > 2147483647 then 2147483647 else y2)
      in if x2 \<le> x1 \<or> y2 \<le> y1 then []
         else [\<lparr>b_x1 = x1, b_y1 = y1, b_x2 = x2, b_y2 = y2\<rparr>])"

definition clip_box_region :: "rect \<Rightarrow> clip_box \<Rightarrow> region" where
  "clip_box_region g clip =
     (let x1 = sint (r_x g) + sint (cb_x clip); y1 = sint (r_y g) + sint (cb_y clip)
      in region_init_box x1 y1 (x1 + uint (cb_w clip)) (y1 + uint (cb_h clip)))"

text \<open>The first argument of \<open>content_box_bounds\<close> is \<open>view_clip_boxes_enabled(view)\<close>.\<close>

definition content_box_bounds :: "bool \<Rightarrow> rect \<Rightarrow> clip_box \<Rightarrow> int \<times> int \<times> int \<times> int" where
  "content_box_bounds clip_enabled g clip =
     (let x1 = sint (r_x g); y1 = sint (r_y g);
          x2 = x1 + uint (r_w g); y2 = y1 + uint (r_h g)
      in if clip_enabled \<and> cb_enabled clip then
           (let clip_x1 = sint (r_x g) + sint (cb_x clip);
                clip_y1 = sint (r_y g) + sint (cb_y clip);
                clip_x2 = clip_x1 + uint (cb_w clip);
                clip_y2 = clip_y1 + uint (cb_h clip)
            in (if x1 < clip_x1 then clip_x1 else x1, if y1 < clip_y1 then clip_y1 else y1,
                if x2 > clip_x2 then clip_x2 else x2, if y2 > clip_y2 then clip_y2 else y2))
         else (x1, y1, x2, y2))"

definition init_content_region :: "bool \<Rightarrow> rect \<Rightarrow> clip_box \<Rightarrow> region" where
  "init_content_region clip_enabled g clip =
     (let (x1, y1, x2, y2) = content_box_bounds clip_enabled g clip
      in region_init_box x1 y1 x2 y2)"

definition expanded_region :: "box option \<Rightarrow> int \<Rightarrow> region" where
  "expanded_region extents amount =
     (case extents of None \<Rightarrow> []
      | Some b \<Rightarrow> region_init_box (b_x1 b - amount) (b_y1 b - amount)
                                  (b_x2 b + amount) (b_y2 b + amount))"

record border =
  bd_outwidth :: u32
  bd_outcolor :: u32
  bd_inwidth :: u32
  bd_incolor :: u32

record decor_size =
  dc_top :: u32
  dc_right :: u32
  dc_bottom :: u32
  dc_left :: u32

text \<open>The extents of a view: the smallest box around the window with its borders, the
  decoration and the buffer, clamped to 32 bits. \<open>buf\<close> is the size of the attached buffer.\<close>

definition view_extents ::
  "rect \<Rightarrow> border \<Rightarrow> decor_size \<Rightarrow> i32 \<Rightarrow> i32 \<Rightarrow> (u32 \<times> u32) option \<Rightarrow> box" where
  "view_extents g bd dc offx offy buf =
     (let total = uint (bd_outwidth bd) + uint (bd_inwidth bd);
          gx = sint (r_x g); gy = sint (r_y g); gw = uint (r_w g); gh = uint (r_h g);
          bx1 = gx - sint offx; by1 = gy - sint offy;
          bx2 = bx1 + (case buf of Some (w, h) \<Rightarrow> uint w | None \<Rightarrow> gw);
          by2 = by1 + (case buf of Some (w, h) \<Rightarrow> uint h | None \<Rightarrow> gh);
          x1 = clamp_i32 (min (min (gx - total) (gx - uint (dc_left dc))) bx1);
          y1 = clamp_i32 (min (min (gy - total) (gy - uint (dc_top dc))) by1);
          x2 = clamp_i32 (max (max (gx + gw + total) (gx + gw + uint (dc_right dc))) bx2);
          y2 = clamp_i32 (max (max (gy + gh + total) (gy + gh + uint (dc_bottom dc))) by2)
      in \<lparr>b_x1 = x1, b_y1 = y1,
          b_x2 = (if x2 < x1 then x1 else x2), b_y2 = (if y2 < y1 then y1 else y2)\<rparr>)"

text \<open>Points a \<open>pixman\<close> region can hold.\<close>

definition i32_point :: "int \<Rightarrow> int \<Rightarrow> bool" where
  "i32_point x y \<longleftrightarrow> -2147483648 \<le> x \<and> x < 2147483647 \<and> -2147483648 \<le> y \<and> y < 2147483647"

lemma in_region_init_box:
  "i32_point x y \<Longrightarrow>
   in_region (region_init_box x1 y1 x2 y2) x y \<longleftrightarrow> x1 \<le> x \<and> x < x2 \<and> y1 \<le> y \<and> y < y2"
  by (auto simp: region_init_box_def in_region_def in_box_def i32_point_def Let_def)

text \<open>the content region of a view is exactly the part of the window that lies in the
  content clip box, when one is set and applies, and the whole window otherwise.\<close>

theorem content_region_correct:
  "i32_point x y \<Longrightarrow>
   in_region (init_content_region en g clip) x y \<longleftrightarrow>
     in_box (rect_box g) x y \<and>
     (en \<and> cb_enabled clip \<longrightarrow> in_region (clip_box_region g clip) x y)"
  by (auto simp: init_content_region_def content_box_bounds_def clip_box_region_def Let_def
      in_region_init_box in_box_def rect_box_def)

theorem content_region_correct_witness:
  "let g = \<lparr>r_x = 10, r_y = 10, r_w = 100, r_h = 100\<rparr>;
       c = \<lparr>cb_enabled = True, cb_x = 20, cb_y = 0, cb_w = 50, cb_h = 500\<rparr>
   in in_region (init_content_region True g c) 30 10 \<and>
      \<not> in_region (init_content_region True g c) 29 10"
proof -
  have p: "i32_point 30 10" "i32_point 29 10" by (simp_all add: i32_point_def)
  show ?thesis
    unfolding Let_def content_region_correct[OF p(1)] content_region_correct[OF p(2)]
    by (simp add: in_box_def rect_box_def clip_box_region_def in_region_init_box p)
qed

text \<open>the extents of a view cover its window, its borders on all four sides and its
  decoration, so damaging the extents repaints everything the view can have drawn.\<close>

theorem extents_cover_view:
  assumes "i32_point x y"
    and "sint (r_x g) - max (uint (bd_outwidth bd) + uint (bd_inwidth bd)) (uint (dc_left dc)) \<le> x"
    and "x < sint (r_x g) + uint (r_w g) +
             max (uint (bd_outwidth bd) + uint (bd_inwidth bd)) (uint (dc_right dc))"
    and "sint (r_y g) - max (uint (bd_outwidth bd) + uint (bd_inwidth bd)) (uint (dc_top dc)) \<le> y"
    and "y < sint (r_y g) + uint (r_h g) +
             max (uint (bd_outwidth bd) + uint (bd_inwidth bd)) (uint (dc_bottom dc))"
  shows "in_box (view_extents g bd dc offx offy buf) x y"
proof -
  have lo: "(clamp_i32 a \<le> p) = (a \<le> p)" if "-2147483648 \<le> p" "p < 2147483647" for a p
    using that by (auto simp: clamp_i32_def)
  have hi: "(p < clamp_i32 a) = (p < a)" if "-2147483648 \<le> p" "p < 2147483647" for a p
    using that by (auto simp: clamp_i32_def)
  have keep: "p < (if x2 < x1 then x1 else x2)" if "p < x2" for p x1 x2 :: int
    using that by simp
  have xy: "-2147483648 \<le> x" "x < 2147483647" "-2147483648 \<le> y" "y < 2147483647"
    using assms(1) by (simp_all add: i32_point_def)
  show ?thesis
    unfolding view_extents_def in_box_def Let_def box.simps
  proof (intro conjI keep)
  qed (simp only: lo[OF xy(1,2)] hi[OF xy(1,2)] lo[OF xy(3,4)] hi[OF xy(3,4)], use assms in linarith)+
qed

theorem extents_cover_view_witness:
  "in_box (view_extents \<lparr>r_x = 10, r_y = 10, r_w = 100, r_h = 100\<rparr>
            \<lparr>bd_outwidth = 4, bd_outcolor = 0, bd_inwidth = 2, bd_incolor = 0\<rparr>
            \<lparr>dc_top = 20, dc_right = 0, dc_bottom = 0, dc_left = 0\<rparr> 0 0 None) 5 (-8)"
  by (rule extents_cover_view) (simp_all add: i32_point_def)

end
