(* ===== verification/Bindings.thy ===== *)
theory Bindings
  imports Prelude "HOL-Library.Multiset"
begin

text \<open>
  \<open>libswc/bindings.c\<close>: the arrays of key, button and axis bindings, the lookup of the binding a
  press fires, and the routing of its release.

  \<open>press->data\<close> holds a raw pointer into a \<open>wl_array\<close>. An array is therefore modelled by its
  memory: the slots ever written, how many of them are in use, and a generation that changes when
  \<open>wl_array_add\<close> moves the block. A pointer is a generation and an index; reading it gives
  whatever the slot holds (in use or not), and \<open>None\<close> when the block it points into was freed.
  A handler is an address together with its data pointer. The modifiers of the seat's keyboard
  (0 without a keyboard) and the keysyms xkbcommon computes for a key are arguments.
\<close>

subsection \<open>State\<close>

record binding =
  bi_value :: u32
  bi_modifiers :: u32
  bi_handler :: addr
  bi_data :: addr

record axis_binding =
  ab_axis :: u32
  ab_modifiers :: u32
  ab_handler :: "addr option"
  ab_data :: addr

datatype binding_type = BINDING_KEY | BINDING_BUTTON | BINDING_OTHER nat

record barray =
  ba_mem :: "binding list"
  ba_size :: nat
  ba_gen :: nat

type_synonym bptr = "nat \<times> nat"

definition ba_elems :: "barray \<Rightarrow> binding list" where
  "ba_elems a = take (ba_size a) (ba_mem a)"

definition ba_empty :: barray where
  "ba_empty = \<lparr>ba_mem = [], ba_size = 0, ba_gen = 0\<rparr>"

definition ba_read :: "barray \<Rightarrow> bptr \<Rightarrow> binding option" where
  "ba_read a p = (if fst p = ba_gen a \<and> snd p < length (ba_mem a) then Some (ba_mem a ! snd p) else None)"

definition ba_add :: "bool \<Rightarrow> barray \<Rightarrow> binding \<Rightarrow> barray" where
  "ba_add moved a b =
     a\<lparr>ba_mem := take (ba_size a) (ba_mem a) @ [b] @ drop (Suc (ba_size a)) (ba_mem a),
       ba_size := Suc (ba_size a),
       ba_gen := (if moved then Suc (ba_gen a) else ba_gen a)\<rparr>"

record bindings_state =
  key_bindings :: barray
  button_bindings :: barray
  axis_bindings :: "axis_binding list"

text \<open>A call of a handler: the handler, its data, the value and the state or delta it is
  passed.\<close>

datatype handler_call = Call addr addr u32 u32

definition MOD_ANY :: u32 where "MOD_ANY = -1"

text \<open>Results of the public functions: 0 or a negative \<open>errno\<close>.\<close>

definition EINVAL :: int where "EINVAL = 22"
definition ENOMEM :: int where "ENOMEM = 12"

subsection \<open>Lookup\<close>

fun find_binding :: "binding list \<Rightarrow> u32 \<Rightarrow> u32 \<Rightarrow> nat option" where
  "find_binding [] modifiers value = None"
| "find_binding (b # bs) modifiers value =
     (if bi_value b = value \<and> (bi_modifiers b = modifiers \<or> bi_modifiers b = MOD_ANY)
      then Some 0 else map_option Suc (find_binding bs modifiers value))"

text \<open>\<open>keysym\<close> is \<open>xkb_state_key_get_one_sym\<close> of the key, \<open>level0\<close> the symbols
  \<open>xkb_keymap_key_get_syms_by_level\<close> returns for its layout and shift level 0 (\<open>None\<close> for a
  \<open>NULL\<close> array).\<close>

definition find_key_binding :: "bindings_state \<Rightarrow> u32 \<Rightarrow> u32 option \<Rightarrow> u32 \<Rightarrow> nat option" where
  "find_key_binding s keysym level0 modifiers =
     (case find_binding (ba_elems (key_bindings s)) modifiers keysym of
        Some i \<Rightarrow> Some i
      | None \<Rightarrow> (case level0 of None \<Rightarrow> None
                 | Some k \<Rightarrow> find_binding (ba_elems (key_bindings s)) modifiers k))"

definition find_button_binding :: "bindings_state \<Rightarrow> u32 \<Rightarrow> u32 \<Rightarrow> nat option" where
  "find_button_binding s modifiers value =
     find_binding (ba_elems (button_bindings s)) modifiers value"

definition find_axis_binding :: "bindings_state \<Rightarrow> u32 \<Rightarrow> u32 \<Rightarrow> axis_binding option" where
  "find_axis_binding s modifiers axis =
     List.find (\<lambda>b. ab_axis b = axis \<and> (ab_modifiers b = modifiers \<or> ab_modifiers b = MOD_ANY))
       (axis_bindings s)"

subsection \<open>Dispatch\<close>

text \<open>\<open>handle_binding\<close>: on a press (\<open>state \<noteq> 0\<close>) a pointer to the binding found is stored in the
  press and its handler called; on a release the handler of the binding the press points to is
  called. The result is whether the event is consumed, the press's new \<open>data\<close> and the call made;
  it is \<open>None\<close> when the code reads through \<open>NULL\<close> or into a freed block.\<close>

definition handle_binding ::
  "barray \<Rightarrow> nat option \<Rightarrow> bptr option \<Rightarrow> u32 \<Rightarrow> (bool \<times> bptr option \<times> handler_call list) option"
where
  "handle_binding a found data state =
     (if state \<noteq> 0 \<and> found = None then Some (False, data, [])
      else
        let ptr = (if state \<noteq> 0 then map_option (Pair (ba_gen a)) found else data)
        in case ptr of
             None \<Rightarrow> None
           | Some p \<Rightarrow>
               (case ba_read a p of
                  None \<Rightarrow> None
                | Some b \<Rightarrow>
                    Some (True, Some p, [Call (bi_handler b) (bi_data b) (bi_value b) state])))"

definition handle_key :: "bindings_state \<Rightarrow> u32 \<Rightarrow> u32 \<Rightarrow> u32 option \<Rightarrow> bptr option \<Rightarrow> u32 \<Rightarrow>
    (bool \<times> bptr option \<times> handler_call list) option" where
  "handle_key s modifiers keysym level0 data state =
     handle_binding (key_bindings s) (find_key_binding s keysym level0 modifiers) data state"

definition handle_button :: "bindings_state \<Rightarrow> u32 \<Rightarrow> u32 \<Rightarrow> bptr option \<Rightarrow> u32 \<Rightarrow>
    (bool \<times> bptr option \<times> handler_call list) option" where
  "handle_button s modifiers value data state =
     handle_binding (button_bindings s) (find_button_binding s modifiers value) data state"

text \<open>\<open>value\<close> is a \<open>wl_fixed_t\<close> (24.8 fixed point): \<open>wl_fixed_to_double(value) * 120.0\<close>
  truncated to an integer is the quotient of \<open>value * 120\<close> by 256, rounded towards zero.\<close>

definition axis_delta120 :: "int \<Rightarrow> int \<Rightarrow> int" where
  "axis_delta120 value value120 =
     (if value120 = 0 \<and> value \<noteq> 0 then
        (let d = sgn value * (\<bar>value\<bar> * 120 div 256)
         in if d = 0 then (if 0 < value then 1 else -1) else d)
      else value120)"

definition handle_axis :: "bindings_state \<Rightarrow> u32 \<Rightarrow> u32 \<Rightarrow> int \<Rightarrow> int \<Rightarrow>
    bool \<times> (addr \<times> addr \<times> u32 \<times> int) option" where
  "handle_axis s modifiers axis value value120 =
     (case find_axis_binding s modifiers axis of
        None \<Rightarrow> (False, None)
      | Some b \<Rightarrow>
          (case ab_handler b of
             None \<Rightarrow> (False, None)
           | Some h \<Rightarrow> (True, Some (h, ab_data b, axis, axis_delta120 value value120))))"

subsection \<open>Registration\<close>

definition bindings_initialize :: "bindings_state" where
  "bindings_initialize = \<lparr>key_bindings = ba_empty, button_bindings = ba_empty, axis_bindings = []\<rparr>"

definition bindings_finalize :: "bindings_state \<Rightarrow> bindings_state" where
  "bindings_finalize s = s\<lparr>
     key_bindings := ba_empty\<lparr>ba_gen := Suc (ba_gen (key_bindings s))\<rparr>,
     button_bindings := ba_empty\<lparr>ba_gen := Suc (ba_gen (button_bindings s))\<rparr>,
     axis_bindings := []\<rparr>"

text \<open>\<open>mem_ok\<close> and \<open>moved\<close>: whether \<open>wl_array_add\<close> succeeds, and whether it moves the block.\<close>

definition swc_add_binding ::
  "bool \<Rightarrow> bool \<Rightarrow> bindings_state \<Rightarrow> binding_type \<Rightarrow> u32 \<Rightarrow> u32 \<Rightarrow> addr \<Rightarrow> addr \<Rightarrow> bindings_state \<times> int"
where
  "swc_add_binding mem_ok moved s type modifiers value handler data =
     (let b = \<lparr>bi_value = value, bi_modifiers = modifiers, bi_handler = handler, bi_data = data\<rparr>
      in case type of
          BINDING_KEY \<Rightarrow>
            if \<not> mem_ok then (s, - ENOMEM)
            else (s\<lparr>key_bindings := ba_add moved (key_bindings s) b\<rparr>, 0)
        | BINDING_BUTTON \<Rightarrow>
            if \<not> mem_ok then (s, - ENOMEM)
            else (s\<lparr>button_bindings := ba_add moved (button_bindings s) b\<rparr>, 0)
        | BINDING_OTHER _ \<Rightarrow> (s, - EINVAL))"

text \<open>Removal overwrites the slot found with the last element and shrinks the array by one slot,
  whose memory keeps its contents.\<close>

definition ba_remove :: "barray \<Rightarrow> u32 \<Rightarrow> u32 \<Rightarrow> barray" where
  "ba_remove a modifiers value =
     (case find_binding (ba_elems a) modifiers value of
        None \<Rightarrow> a
      | Some i \<Rightarrow>
          let last = ba_size a - 1;
              a = (if i \<noteq> last then a\<lparr>ba_mem := (ba_mem a)[i := ba_mem a ! last]\<rparr> else a)
          in a\<lparr>ba_size := ba_size a - 1\<rparr>)"

definition swc_remove_binding ::
  "bindings_state \<Rightarrow> binding_type \<Rightarrow> u32 \<Rightarrow> u32 \<Rightarrow> bindings_state" where
  "swc_remove_binding s type modifiers value =
     (case type of
        BINDING_KEY \<Rightarrow> s\<lparr>key_bindings := ba_remove (key_bindings s) modifiers value\<rparr>
      | BINDING_BUTTON \<Rightarrow> s\<lparr>button_bindings := ba_remove (button_bindings s) modifiers value\<rparr>
      | BINDING_OTHER _ \<Rightarrow> s)"

definition swc_add_axis_binding ::
  "bool \<Rightarrow> bindings_state \<Rightarrow> u32 \<Rightarrow> u32 \<Rightarrow> addr option \<Rightarrow> addr \<Rightarrow> bindings_state \<times> int" where
  "swc_add_axis_binding mem_ok s modifiers axis handler data =
     (if \<not> mem_ok then (s, - ENOMEM)
      else (s\<lparr>axis_bindings := axis_bindings s @
              [\<lparr>ab_axis = axis, ab_modifiers = modifiers, ab_handler = handler, ab_data = data\<rparr>]\<rparr>, 0))"

subsection \<open>Lemmas\<close>

definition ba_wf :: "barray \<Rightarrow> bool" where
  "ba_wf a \<longleftrightarrow> ba_size a \<le> length (ba_mem a)"

definition bi_matches :: "u32 \<Rightarrow> u32 \<Rightarrow> binding \<Rightarrow> bool" where
  "bi_matches modifiers value b \<longleftrightarrow>
     bi_value b = value \<and> (bi_modifiers b = modifiers \<or> bi_modifiers b = MOD_ANY)"

lemma find_binding_Some:
  "find_binding bs m v = Some i \<longleftrightarrow>
     i < length bs \<and> bi_matches m v (bs ! i) \<and> (\<forall>j < i. \<not> bi_matches m v (bs ! j))"
proof (induction bs arbitrary: i)
  case (Cons b bs)
  then show ?case
    by (cases i) (auto simp: bi_matches_def less_Suc_eq_0_disj)
qed simp

lemma find_binding_None: "find_binding bs m v = None \<longleftrightarrow> (\<forall>b \<in> set bs. \<not> bi_matches m v b)"
  by (induction bs) (auto simp: bi_matches_def)

lemma ba_add_elems [simp]: "ba_wf a \<Longrightarrow> ba_elems (ba_add moved a b) = ba_elems a @ [b]"
  by (simp add: ba_elems_def ba_add_def ba_wf_def)

lemma ba_wf_add [inv_intros]: "ba_wf a \<Longrightarrow> ba_wf (ba_add moved a b)"
  by (simp add: ba_wf_def ba_add_def)

lemma ba_wf_remove [inv_intros]: "ba_wf a \<Longrightarrow> ba_wf (ba_remove a m v)"
  by (auto simp: ba_wf_def ba_remove_def Let_def split: option.splits)

lemma ba_wf_empty [inv_intros]: "ba_wf ba_empty"
  by (simp add: ba_wf_def ba_empty_def)

lemma ba_read_elem:
  "ba_wf a \<Longrightarrow> i < length (ba_elems a) \<Longrightarrow> ba_read a (ba_gen a, i) = Some (ba_elems a ! i)"
  by (simp add: ba_read_def ba_elems_def ba_wf_def)

text \<open>Swapping the last element into slot \<open>i\<close> and dropping the last slot removes exactly the
  \<open>i\<close>th element.\<close>

lemma mset_swap_last:
  assumes "i < length xs"
  shows "mset (butlast (xs[i := last xs])) = mset xs - {#xs ! i#}"
proof -
  from assms have "xs \<noteq> []" by auto
  then obtain ys y where xs: "xs = ys @ [y]" by (metis rev_exhaust)
  show ?thesis
  proof (cases "i = length ys")
    case False
    with assms xs have i: "i < length ys" by simp
    then have "mset (ys[i := y]) = add_mset y (mset ys - {#ys ! i#})"
      by (simp add: mset_update)
    moreover have "ys ! i \<in># mset ys" using i by simp
    ultimately show ?thesis
      using xs i by (simp add: list_update_append nth_append)
  qed (use xs in simp)
qed

lemma ba_remove_elems:
  assumes "ba_wf a" "find_binding (ba_elems a) m v = Some i"
  shows "ba_elems (ba_remove a m v) = butlast ((ba_elems a)[i := last (ba_elems a)])"
proof -
  let ?n = "ba_size a"
  have i: "i < ?n" using assms by (auto simp: find_binding_Some ba_elems_def)
  have n: "length (ba_elems a) = ?n" using assms by (simp add: ba_elems_def ba_wf_def)
  then have ne: "ba_elems a \<noteq> []" using i by auto
  have last: "last (ba_elems a) = ba_mem a ! (?n - 1)"
    using i n ne assms(1) by (simp add: last_conv_nth ba_elems_def)
  have same: "(ba_elems a)[i := ba_mem a ! i] = ba_elems a"
    using i unfolding ba_elems_def by (metis list_update_id nth_take)
  show ?thesis
    using assms i n
    by (auto simp: ba_remove_def Let_def last same)
       (auto simp: ba_elems_def butlast_conv_take take_update_swap ba_wf_def min_def
             list_update_beyond)
qed

lemma ba_remove_mset:
  assumes "ba_wf a" "find_binding (ba_elems a) m v = Some i"
  shows "mset (ba_elems (ba_remove a m v)) = mset (ba_elems a) - {#ba_elems a ! i#}"
proof -
  have "i < length (ba_elems a)" using assms(2) by (simp add: find_binding_Some)
  then show ?thesis unfolding ba_remove_elems[OF assms] by (rule mset_swap_last)
qed

lemma handle_binding_press:
  assumes "ba_wf a" "st \<noteq> 0"
  shows "handle_binding a (find_binding (ba_elems a) m v) data st =
    (case find_binding (ba_elems a) m v of
       None \<Rightarrow> Some (False, data, [])
     | Some i \<Rightarrow> (let b = ba_elems a ! i
                  in Some (True, Some (ba_gen a, i), [Call (bi_handler b) (bi_data b) (bi_value b) st])))"
proof (cases "find_binding (ba_elems a) m v")
  case (Some i)
  then have "i < length (ba_elems a)" by (simp add: find_binding_Some)
  with assms Some show ?thesis by (simp add: handle_binding_def ba_read_elem Let_def)
qed (simp add: handle_binding_def assms)

subsection \<open>Properties\<close>





text \<open>C13: a release is routed by slot, not by binding. When the binding that a button pressed is
  removed while the button is held and another binding sits last in the array, the release is
  delivered to that other binding, which was never pressed.\<close>

theorem release_after_removal_misrouted:
  assumes "ba_wf (button_bindings s)" "find_button_binding s m v = Some i"
    "i < length (ba_elems (button_bindings s)) - 1"
  shows "let other = last (ba_elems (button_bindings s)) in
         handle_button (swc_remove_binding s BINDING_BUTTON m v) m' v
           (Some (ba_gen (button_bindings s), i)) 0 =
         Some (True, Some (ba_gen (button_bindings s), i),
               [Call (bi_handler other) (bi_data other) (bi_value other) 0])"
proof -
  let ?a = "button_bindings s"
  have n: "length (ba_elems ?a) = ba_size ?a" using assms(1) by (simp add: ba_elems_def ba_wf_def)
  with assms(3) have ne: "ba_elems ?a \<noteq> []" by auto
  have "last (ba_elems ?a) = ba_mem ?a ! (ba_size ?a - 1)"
    using n ne assms(3) by (simp add: last_conv_nth ba_elems_def)
  with assms n show ?thesis
    by (simp add: handle_button_def handle_binding_def swc_remove_binding_def ba_remove_def
        ba_read_def find_button_binding_def ba_wf_def Let_def)
qed

theorem release_after_removal_misrouted_witness:
  "let s0 = fst (swc_add_binding True False bindings_initialize BINDING_BUTTON 4 272 5 2);
       s = fst (swc_add_binding True False s0 BINDING_BUTTON 0 273 5 3)
   in handle_button (swc_remove_binding s BINDING_BUTTON 4 272) 0 272 (Some (0, 0)) 0 =
      Some (True, Some (0, 0), [Call 5 3 273 0])"
proof -
  let ?s0 = "fst (swc_add_binding True False bindings_initialize BINDING_BUTTON 4 272 5 2)"
  let ?s = "fst (swc_add_binding True False ?s0 BINDING_BUTTON 0 273 5 3)"
  have wf: "ba_wf (button_bindings ?s)"
    by (simp add: swc_add_binding_def bindings_initialize_def ba_wf_add ba_wf_empty)
  have f: "find_button_binding ?s 4 272 = Some 0" by code_simp
  have e: "ba_elems (button_bindings ?s) =
      [\<lparr>bi_value = 272, bi_modifiers = 4, bi_handler = 5, bi_data = 2\<rparr>,
       \<lparr>bi_value = 273, bi_modifiers = 0, bi_handler = 5, bi_data = 3\<rparr>]"
    "ba_gen (button_bindings ?s) = 0" by code_simp+
  from release_after_removal_misrouted[OF wf f, of 0] show ?thesis by (simp add: e Let_def)
qed

text \<open>a release after an addition that moved the array reads the freed block.\<close>

theorem release_after_growth_reads_freed:
  "swc_add_binding True True s BINDING_BUTTON m v h d = (s', r) \<Longrightarrow>
   handle_button s' m' v' (Some (ba_gen (button_bindings s), i)) 0 = None"
  by (auto simp: swc_add_binding_def handle_button_def handle_binding_def ba_read_def ba_add_def)

theorem release_after_growth_reads_freed_witness:
  "handle_button (fst (swc_add_binding True True bindings_initialize BINDING_BUTTON 4 272 5 2)) 0 273
     (Some (ba_gen (button_bindings bindings_initialize), 0)) 0 = None"
  by (rule release_after_growth_reads_freed[of _ 4 272 5 2 _ "0"]) (simp add: swc_add_binding_def)

end
