(* ===== verification/Compositor.thy ===== *)
theory Compositor
  imports Geometry Complex_Main
begin

text \<open>
  The state of \<open>libswc/compositor.c\<close> and the operations on one view: \<open>libswc/view.c\<close>,
  damage and scheduling, attaching, moving, borders, clip boxes, the selection overlay, the
  zoom level, frame handling and the update loop.

  Views live in a heap (\<open>c_heap\<close>, from addresses to \<open>compositor_view\<close>s); \<open>c_views\<close> is the
  list \<open>compositor.views\<close>, topmost first. A \<open>pixman\<close> region is a list of boxes standing for their
  union. \<open>HANDLE\<close> of \<open>view.c\<close> calls every handler of a view: the calls are recorded in
  \<open>c_notes\<close>, in order. \<open>c_idle\<close> counts the queued calls of \<open>perform_update\<close>. Pixels are not
  modelled: the renderer, the proxy buffers of \<open>renderer_attach\<close> and the page flip are the
  \<open>wld\<close> and DRM libraries, seen here through their results.
\<close>

subsection \<open>State\<close>

datatype vnote =
    NAttach | NMove | NResize u32 u32 | NScreens u32 u32 | NFrame u32 | NDestroy

datatype window_mode = WINDOW_MODE_STACKED | WINDOW_MODE_TILED | WINDOW_MODE_FULLSCREEN

record cview =
  v_geom :: rect
  v_buffer :: "(u32 \<times> u32) option"
  v_screens :: u32
  v_surface :: "addr option"
  v_window :: "addr option"
  v_parent :: "addr option"
  v_off_x :: i32
  v_off_y :: i32
  v_visible :: bool
  v_always_top :: bool
  v_layer :: u32
  v_extents :: box
  v_clip :: region
  v_clip_box :: clip_box
  v_content_clip_box :: clip_box
  v_border :: border
  v_dmg1 :: bool
  v_dmg2 :: bool
  v_decor :: decor_size
  v_decor_damaged :: bool

text \<open>A \<open>struct surface\<close>: \<open>sf_sub\<close> is \<open>Some added\<close> for a subsurface, a buffer is its size, and
  \<open>sf_children\<close> lists the surfaces of \<open>surface->subsurfaces\<close>. The \<open>sf_p_\<close> fields are
  \<open>surface->pending\<close>, the \<open>sf_hold_\<close> ones with \<open>sf_held\<close> are \<open>surface->render_hold\<close>.\<close>

record csurface =
  sf_view :: "addr option"
  sf_sub :: "bool option"
  sf_children :: "addr list"
  sf_buffer :: "(u32 \<times> u32) option"
  sf_damage :: region
  sf_opaque :: region
  sf_input :: region
  sf_frames :: "addr list"
  sf_has_wg :: bool
  sf_wx :: i32
  sf_wy :: i32
  sf_ww :: i32
  sf_wh :: i32
  sf_held :: bool
  sf_hold_attach :: bool
  sf_hold_update :: bool
  sf_p_commit :: u32
  sf_p_buffer :: "(u32 \<times> u32) option"
  sf_p_damage :: region
  sf_p_opaque :: region
  sf_p_input :: region
  sf_p_frames :: "addr list"

record overlay =
  ov_active :: bool
  ov_rect :: rect
  ov_color :: u32
  ov_border :: u32

record comp =
  c_heap :: "addr \<Rightarrow> cview option"
  c_views :: "addr list"
  c_surf :: "addr \<Rightarrow> csurface"
  c_mode :: "addr \<Rightarrow> window_mode"
  c_damage :: region
  c_opaque :: region
  c_pending :: u32
  c_sched :: u32
  c_updating :: bool
  c_init :: bool
  c_active :: bool
  c_screens :: "(nat \<times> rect) list"
  c_zoom :: rat
  c_overlay :: overlay
  c_idle :: nat
  c_notes :: "(addr \<times> vnote) list"

text \<open>\<open>c_mode w\<close> is \<open>window->mode\<close>, all the compositor reads of a window.\<close>

definition cv :: "'a comp_scheme \<Rightarrow> addr \<Rightarrow> cview" where
  "cv s v = the (c_heap s v)"

definition upd :: "addr \<Rightarrow> (cview \<Rightarrow> cview) \<Rightarrow> 'a comp_scheme \<Rightarrow> 'a comp_scheme" where
  "upd v f s = s\<lparr>c_heap := (c_heap s)(v := map_option f (c_heap s v))\<rparr>"

definition notify :: "addr \<Rightarrow> vnote \<Rightarrow> 'a comp_scheme \<Rightarrow> 'a comp_scheme" where
  "notify v n s = s\<lparr>c_notes := c_notes s @ [(v, n)]\<rparr>"

abbreviation (input) STACK_LAYER_BACKGROUND :: u32 where "STACK_LAYER_BACKGROUND \<equiv> 0"
abbreviation (input) STACK_LAYER_BOTTOM :: u32 where "STACK_LAYER_BOTTOM \<equiv> 1"
abbreviation (input) STACK_LAYER_NORMAL :: u32 where "STACK_LAYER_NORMAL \<equiv> 2"
abbreviation (input) STACK_LAYER_TOP :: u32 where "STACK_LAYER_TOP \<equiv> 3"
abbreviation (input) STACK_LAYER_OVERLAY :: u32 where "STACK_LAYER_OVERLAY \<equiv> 4"

definition screen_mask :: "nat \<Rightarrow> u32" where
  "screen_mask i = push_bit i 1"

subsection \<open>Damage regions\<close>

text \<open>\<open>pixman_region32_init_with_extents\<close> of a box without area is the empty region, and
  \<open>pixman_region32_union_rect\<close> of a rectangle whose far corner wraps around is ignored.\<close>

definition extents_region :: "box \<Rightarrow> region" where
  "extents_region b = (if b_x1 b < b_x2 b \<and> b_y1 b < b_y2 b then [b] else [])"

definition wrap32 :: "int \<Rightarrow> int" where
  "wrap32 i = sint (word_of_int i :: i32)"

definition union_rect :: "region \<Rightarrow> int \<Rightarrow> int \<Rightarrow> int \<Rightarrow> int \<Rightarrow> region" where
  "union_rect r x y w h =
     r @ extents_region \<lparr>b_x1 = x, b_y1 = y, b_x2 = wrap32 (x + w), b_y2 = wrap32 (y + h)\<rparr>"

definition add_damage :: "region \<Rightarrow> 'a comp_scheme \<Rightarrow> 'a comp_scheme" where
  "add_damage r s = s\<lparr>c_damage := c_damage s @ r\<rparr>"

definition damage_rect :: "rect \<Rightarrow> 'a comp_scheme \<Rightarrow> 'a comp_scheme" where
  "damage_rect g s =
     s\<lparr>c_damage := union_rect (c_damage s) (sint (r_x g)) (sint (r_y g)) (uint (r_w g)) (uint (r_h g))\<rparr>"

text \<open>The difference of two regions, and their intersection, box by box.\<close>

definition box_sub :: "box \<Rightarrow> box \<Rightarrow> region" where
  "box_sub a b =
     (let x1 = max (b_x1 a) (b_x1 b); x2 = min (b_x2 a) (b_x2 b);
          y1 = max (b_y1 a) (b_y1 b); y2 = min (b_y2 a) (b_y2 b)
      in if x2 \<le> x1 \<or> y2 \<le> y1 then [a]
         else [a\<lparr>b_y2 := y1\<rparr>, a\<lparr>b_y1 := y2\<rparr>,
               a\<lparr>b_y1 := y1, b_y2 := y2, b_x2 := x1\<rparr>,
               a\<lparr>b_y1 := y1, b_y2 := y2, b_x1 := x2\<rparr>])"

definition box_inter :: "box \<Rightarrow> box \<Rightarrow> box" where
  "box_inter a b = \<lparr>b_x1 = max (b_x1 a) (b_x1 b), b_y1 = max (b_y1 a) (b_y1 b),
                    b_x2 = min (b_x2 a) (b_x2 b), b_y2 = min (b_y2 a) (b_y2 b)\<rparr>"

definition region_sub :: "region \<Rightarrow> region \<Rightarrow> region" where
  "region_sub r1 r2 = fold (\<lambda>b r. concat (map (\<lambda>a. box_sub a b) r)) r2 r1"

definition region_inter :: "region \<Rightarrow> region \<Rightarrow> region" where
  "region_inter r1 r2 = concat (map (\<lambda>a. map (box_inter a) r2) r1)"

definition region_translate :: "region \<Rightarrow> int \<Rightarrow> int \<Rightarrow> region" where
  "region_translate r dx dy =
     map (\<lambda>b. \<lparr>b_x1 = b_x1 b + dx, b_y1 = b_y1 b + dy, b_x2 = b_x2 b + dx, b_y2 = b_y2 b + dy\<rparr>) r"

lemma in_region_Nil [simp]: "\<not> in_region [] x y"
  by (simp add: in_region_def)

lemma in_region_append [simp]:
  "in_region (r1 @ r2) x y \<longleftrightarrow> in_region r1 x y \<or> in_region r2 x y"
  by (simp add: in_region_def)

lemma in_region_Cons [simp]:
  "in_region (b # r) x y \<longleftrightarrow> in_box b x y \<or> in_region r x y"
  by (simp add: in_region_def)

lemma in_extents_region [simp]: "in_region (extents_region b) x y \<longleftrightarrow> in_box b x y"
  by (auto simp: extents_region_def in_box_def)

lemma in_box_sub: "in_region (box_sub a b) x y \<longleftrightarrow> in_box a x y \<and> \<not> in_box b x y"
  by (auto simp: box_sub_def in_box_def Let_def)

lemma in_concat_sub:
  "in_region (concat (map (\<lambda>a. box_sub a b) r)) x y \<longleftrightarrow> in_region r x y \<and> \<not> in_box b x y"
  by (induction r) (auto simp: in_box_sub)

lemma in_region_sub [simp]:
  "in_region (region_sub r1 r2) x y \<longleftrightarrow> in_region r1 x y \<and> \<not> in_region r2 x y"
  unfolding region_sub_def
  by (induction r2 arbitrary: r1) (auto simp: in_concat_sub)

lemma in_box_inter: "in_box (box_inter a b) x y \<longleftrightarrow> in_box a x y \<and> in_box b x y"
  by (auto simp: box_inter_def in_box_def)

lemma in_region_inter [simp]:
  "in_region (region_inter r1 r2) x y \<longleftrightarrow> in_region r1 x y \<and> in_region r2 x y"
proof (induction r1)
  case (Cons a r1)
  have "in_region (map (box_inter a) r2) x y \<longleftrightarrow> in_box a x y \<and> in_region r2 x y"
    by (induction r2) (auto simp: in_box_inter)
  with Cons show ?case by (auto simp: region_inter_def)
qed (simp add: region_inter_def)

lemma in_region_translate [simp]:
  "in_region (region_translate r dx dy) x y \<longleftrightarrow> in_region r (x - dx) (y - dy)"
  unfolding region_translate_def by (induction r) (auto simp: in_box_def)

subsection \<open>Scheduling updates\<close>

definition all_screens :: "'a comp_scheme \<Rightarrow> u32" where
  "all_screens s = fold (\<lambda>(i, g) m. m OR screen_mask i) (c_screens s) 0"

definition schedule_updates :: "u32 \<Rightarrow> 'a comp_scheme \<Rightarrow> 'a comp_scheme" where
  "schedule_updates screens s =
     (let s = (if c_sched s = 0 then s\<lparr>c_idle := Suc (c_idle s)\<rparr> else s);
          screens = (if screens = -1 then all_screens s else screens);
          (s, screens) =
            (if c_zoom s \<noteq> 1
             then fold (\<lambda>(i, g) (s, m). (damage_rect g s, m OR screen_mask i)) (c_screens s) (s, screens)
             else (s, screens))
      in s\<lparr>c_sched := c_sched s OR screens\<rparr>)"

definition damage_below_view :: "addr \<Rightarrow> 'a comp_scheme \<Rightarrow> 'a comp_scheme" where
  "damage_below_view v s = add_damage (extents_region (v_extents (cv s v))) s"

definition damage_view :: "addr \<Rightarrow> 'a comp_scheme \<Rightarrow> 'a comp_scheme" where
  "damage_view v s = upd v (\<lambda>x. x\<lparr>v_dmg1 := True, v_dmg2 := True\<rparr>) (damage_below_view v s)"

definition compositor_damage_all :: "'a comp_scheme \<Rightarrow> 'a comp_scheme" where
  "compositor_damage_all s =
     (if \<not> c_init s then s
      else schedule_updates (-1) (fold (\<lambda>(i, g). damage_rect g) (c_screens s) s))"

text \<open>\<open>update\<close>, the \<open>view_impl.update\<close> of a compositor view.\<close>

definition update_view :: "addr \<Rightarrow> 'a comp_scheme \<Rightarrow> bool \<times> 'a comp_scheme" where
  "update_view v s =
     (if \<not> c_active s \<or> \<not> v_visible (cv s v) then (False, s)
      else (True, schedule_updates (v_screens (cv s v)) s))"

abbreviation update_only :: "addr \<Rightarrow> 'a comp_scheme \<Rightarrow> 'a comp_scheme" where
  "update_only v s \<equiv> snd (update_view v s)"

subsection \<open>view.c\<close>

definition view_set_position :: "addr \<Rightarrow> i32 \<Rightarrow> i32 \<Rightarrow> 'a comp_scheme \<Rightarrow> bool \<times> 'a comp_scheme" where
  "view_set_position v x y s =
     (if x = r_x (v_geom (cv s v)) \<and> y = r_y (v_geom (cv s v)) then (False, s)
      else (True, notify v NMove (upd v (\<lambda>w. w\<lparr>v_geom := (v_geom w)\<lparr>r_x := x, r_y := y\<rparr>\<rparr>) s)))"

definition view_set_size :: "addr \<Rightarrow> u32 \<Rightarrow> u32 \<Rightarrow> 'a comp_scheme \<Rightarrow> bool \<times> 'a comp_scheme" where
  "view_set_size v width height s =
     (let g = v_geom (cv s v)
      in if r_w g = width \<and> r_h g = height then (False, s)
         else (True, notify v (NResize (r_w g) (r_h g))
                 (upd v (\<lambda>w. w\<lparr>v_geom := (v_geom w)\<lparr>r_w := width, r_h := height\<rparr>\<rparr>) s)))"

definition view_set_screens :: "addr \<Rightarrow> u32 \<Rightarrow> 'a comp_scheme \<Rightarrow> 'a comp_scheme" where
  "view_set_screens v screens s =
     (let old = v_screens (cv s v)
      in if old = screens then s
         else (let entered = screens AND NOT old; left = old AND NOT screens
               in notify v (NScreens entered left) (upd v (\<lambda>w. w\<lparr>v_screens := screens\<rparr>) s)))"

definition view_update_screens :: "addr \<Rightarrow> 'a comp_scheme \<Rightarrow> 'a comp_scheme" where
  "view_update_screens v s =
     (let screens = fold (\<lambda>(i, g) m. if rectangle_overlap g (v_geom (cv s v))
                                    then m OR screen_mask i else m) (c_screens s) 0
      in view_set_screens v screens s)"

definition compositor_update_screens :: "'a comp_scheme \<Rightarrow> 'a comp_scheme" where
  "compositor_update_screens s =
     (if \<not> c_init s then s
      else compositor_damage_all
             (fold (\<lambda>v s. if v_visible (cv s v) then view_update_screens v s else s) (c_views s) s))"

subsection \<open>Extents, attaching and moving\<close>

definition update_extents :: "addr \<Rightarrow> 'a comp_scheme \<Rightarrow> 'a comp_scheme" where
  "update_extents v s =
     upd v (\<lambda>x. x\<lparr>v_extents := view_extents (v_geom x) (v_border x) (v_decor x)
                                 (v_off_x x) (v_off_y x) (v_buffer x),
                  v_dmg1 := True, v_dmg2 := True, v_decor_damaged := True\<rparr>) s"

text \<open>\<open>attach\<close>: \<open>r\<close> is the result of \<open>renderer_attach\<close>, negative when a proxy buffer could not
  be created. The damage is the symmetric difference of the old and the new extents.\<close>

definition attach :: "int \<Rightarrow> addr \<Rightarrow> (u32 \<times> u32) option \<Rightarrow> 'a comp_scheme \<Rightarrow> int \<times> 'a comp_scheme"
where
  "attach r v buffer s =
     (if r < 0 then (r, s)
      else
        let (w, h) = (case buffer of Some (w, h) \<Rightarrow> (w, h) | None \<Rightarrow> (0, 0));
            s = update_only v s;
            wg = (case v_surface (cv s v) of
                    None \<Rightarrow> None
                  | Some f \<Rightarrow>
                      (let sf = c_surf s f
                       in if sf_has_wg sf \<and> buffer \<noteq> None \<and> 0 < sint (sf_ww sf) \<and> 0 < sint (sf_wh sf)
                          then Some sf else None));
            (w, h, ox, oy) = (case wg of Some sf \<Rightarrow> (sf_ww sf, sf_wh sf, sf_wx sf, sf_wy sf)
                                       | None \<Rightarrow> (w, h, 0, 0));
            s = upd v (\<lambda>x. x\<lparr>v_off_x := ox, v_off_y := oy\<rparr>) s;
            (resized, s) = view_set_size v w h s
        in if \<not> resized then (0, s)
           else
             let old = extents_region (v_extents (cv s v));
                 s = update_extents v s
             in if \<not> v_visible (cv s v) then (0, s)
                else
                  let new = extents_region (v_extents (cv s v));
                      both = region_inter old new;
                      s = add_damage (region_sub (old @ new) both) s;
                      s = view_update_screens v s
                  in (0, update_only v s))"

definition view_attach :: "int \<Rightarrow> addr \<Rightarrow> (u32 \<times> u32) option \<Rightarrow> 'a comp_scheme \<Rightarrow> int \<times> 'a comp_scheme"
where
  "view_attach r v buffer s =
     (let (ret, s) = attach r v buffer s
      in if ret < 0 then (ret, s)
         else (0, notify v NAttach (upd v (\<lambda>x. x\<lparr>v_buffer := buffer\<rparr>) s)))"

definition view_move :: "addr \<Rightarrow> i32 \<Rightarrow> i32 \<Rightarrow> 'a comp_scheme \<Rightarrow> 'a comp_scheme" where
  "view_move v x y s =
     (let s = (if v_visible (cv s v) then update_only v (damage_below_view v s) else s);
          (moved, s) = view_set_position v x y s
      in if \<not> moved then s
         else
           let s = update_extents v s
           in if v_visible (cv s v)
              then update_only v (damage_below_view v (view_update_screens v
                     (upd v (\<lambda>w. w\<lparr>v_clip := []\<rparr>) s)))
              else s)"

subsection \<open>Borders, decoration sizes and clip boxes\<close>

definition compositor_view_set_border_width ::
  "addr \<Rightarrow> u32 \<Rightarrow> u32 \<Rightarrow> 'a comp_scheme \<Rightarrow> 'a comp_scheme" where
  "compositor_view_set_border_width v outwidth inwidth s =
     (let b = v_border (cv s v)
      in if bd_outwidth b = outwidth \<and> bd_inwidth b = inwidth then s
         else update_only v (update_extents v
                (upd v (\<lambda>x. x\<lparr>v_border := (v_border x)\<lparr>bd_outwidth := outwidth, bd_inwidth := inwidth\<rparr>,
                             v_dmg1 := True, v_dmg2 := True\<rparr>) s)))"

definition compositor_view_set_border_color ::
  "addr \<Rightarrow> u32 \<Rightarrow> u32 \<Rightarrow> 'a comp_scheme \<Rightarrow> 'a comp_scheme" where
  "compositor_view_set_border_color v outcolor incolor s =
     (let b = v_border (cv s v)
      in if bd_outcolor b = outcolor \<and> bd_incolor b = incolor then s
         else update_only v
                (upd v (\<lambda>x. x\<lparr>v_border := (v_border x)\<lparr>bd_outcolor := outcolor, bd_incolor := incolor\<rparr>,
                             v_dmg1 := True, v_dmg2 := True\<rparr>) s))"

text \<open>\<open>set_clip_box\<close> takes a pointer to one of the view's two clip boxes; here it is a flag,
  true for \<open>view->content_clip_box\<close>.\<close>

definition set_clip_box :: "bool \<Rightarrow> addr \<Rightarrow> i32 \<Rightarrow> i32 \<Rightarrow> u32 \<Rightarrow> u32 \<Rightarrow> 'a comp_scheme \<Rightarrow> 'a comp_scheme"
where
  "set_clip_box content v x y width height s =
     (let enabled = (width \<noteq> 0 \<and> height \<noteq> 0);
          box = (if content then v_content_clip_box (cv s v) else v_clip_box (cv s v));
          box' = \<lparr>cb_enabled = enabled, cb_x = x, cb_y = y, cb_w = width, cb_h = height\<rparr>
      in if cb_enabled box = enabled \<and>
            (\<not> enabled \<or> (cb_x box = x \<and> cb_y box = y \<and> cb_w box = width \<and> cb_h box = height))
         then s
         else
           let s = upd v (if content then v_content_clip_box_update (\<lambda>_. box')
                          else v_clip_box_update (\<lambda>_. box')) s
           in if v_visible (cv s v) then update_only v (damage_view v s) else s)"

definition compositor_view_set_clip_box ::
  "addr \<Rightarrow> i32 \<Rightarrow> i32 \<Rightarrow> u32 \<Rightarrow> u32 \<Rightarrow> 'a comp_scheme \<Rightarrow> 'a comp_scheme" where
  "compositor_view_set_clip_box = set_clip_box False"

definition compositor_view_set_content_clip_box ::
  "addr \<Rightarrow> i32 \<Rightarrow> i32 \<Rightarrow> u32 \<Rightarrow> u32 \<Rightarrow> 'a comp_scheme \<Rightarrow> 'a comp_scheme" where
  "compositor_view_set_content_clip_box = set_clip_box True"

text \<open>\<open>compositor_view_damage_decor\<close>, with \<open>decor_view_damage\<close>.\<close>

definition compositor_view_damage_decor :: "addr \<Rightarrow> 'a comp_scheme \<Rightarrow> 'a comp_scheme" where
  "compositor_view_damage_decor v s =
     (let d = v_decor (cv s v)
      in if dc_top d = 0 \<and> dc_right d = 0 \<and> dc_bottom d = 0 \<and> dc_left d = 0 then s
         else update_only v (upd v (\<lambda>x. x\<lparr>v_decor_damaged := True\<rparr>) s))"

subsection \<open>Selection overlay and zoom\<close>

text \<open>\<open>overlay_damage_region\<close> ignores its border width.\<close>

definition overlay_damage_region :: "rect \<Rightarrow> u32 \<Rightarrow> 'a comp_scheme \<Rightarrow> 'a comp_scheme" where
  "overlay_damage_region g border_width s = damage_rect g s"

definition swc_overlay_set_box ::
  "i32 \<Rightarrow> i32 \<Rightarrow> i32 \<Rightarrow> i32 \<Rightarrow> u32 \<Rightarrow> u32 \<Rightarrow> 'a comp_scheme \<Rightarrow> 'a comp_scheme" where
  "swc_overlay_set_box x1 y1 x2 y2 color border_width s =
     (let g = \<lparr>r_x = (if sint x1 < sint x2 then x1 else x2), r_y = (if sint y1 < sint y2 then y1 else y2),
               r_w = word_of_int \<bar>sint x2 - sint x1\<bar>, r_h = word_of_int \<bar>sint y2 - sint y1\<bar>\<rparr>;
          border_width = (if border_width = 0 then 1 else border_width);
          o0 = c_overlay s;
          s = (if ov_active o0 then overlay_damage_region (ov_rect o0) (ov_border o0) s else s);
          s = s\<lparr>c_overlay := \<lparr>ov_active = True, ov_rect = g, ov_color = color, ov_border = border_width\<rparr>\<rparr>
      in schedule_updates (-1) (overlay_damage_region g border_width s))"

definition swc_overlay_clear :: "'a comp_scheme \<Rightarrow> 'a comp_scheme" where
  "swc_overlay_clear s =
     (if \<not> ov_active (c_overlay s) then s
      else
        let s = overlay_damage_region (ov_rect (c_overlay s)) (ov_border (c_overlay s)) s
        in schedule_updates (-1) (s\<lparr>c_overlay := (c_overlay s)\<lparr>ov_active := False\<rparr>\<rparr>))"

text \<open>A \<open>float\<close> is the rational it stands for; \<open>0.1f\<close> is \<open>13421773 / 2^27\<close>.\<close>

definition swc_set_zoom :: "rat \<Rightarrow> 'a comp_scheme \<Rightarrow> 'a comp_scheme" where
  "swc_set_zoom level s =
     (let level = (if level < 13421773 / 134217728 then 13421773 / 134217728 else level);
          level = (if level > 10 then 10 else level)
      in if c_zoom s \<noteq> level then schedule_updates (-1) (s\<lparr>c_zoom := level\<rparr>) else s)"

subsection \<open>Damage and occlusion\<close>

definition view_clip_boxes_enabled :: "'a comp_scheme \<Rightarrow> addr \<Rightarrow> bool" where
  "view_clip_boxes_enabled s v \<longleftrightarrow>
     (case v_window (cv s v) of None \<Rightarrow> True | Some w \<Rightarrow> c_mode s w \<noteq> WINDOW_MODE_FULLSCREEN)"

definition is_subsurface :: "'a comp_scheme \<Rightarrow> addr \<Rightarrow> bool" where
  "is_subsurface s v \<longleftrightarrow>
     (case v_surface (cv s v) of None \<Rightarrow> False | Some f \<Rightarrow> sf_sub (c_surf s f) \<noteq> None)"

text \<open>The loop of \<open>init_inherited_clip\<close>, from \<open>v\<close> up; \<open>n\<close> bounds the number of parents, which
  form no cycle. The result is whether anything constrains the view, and the region allowed.\<close>

fun inherited_clip :: "nat \<Rightarrow> 'a comp_scheme \<Rightarrow> addr \<Rightarrow> bool \<times> region \<Rightarrow> bool \<times> region" where
  "inherited_clip 0 s v acc = acc"
| "inherited_clip (Suc n) s v (constrained, allowed) =
     (case v_parent (cv s v) of
        None \<Rightarrow> (constrained, allowed)
      | Some p \<Rightarrow>
          if \<not> is_subsurface s v then (constrained, allowed)
          else if \<not> view_clip_boxes_enabled s p then inherited_clip n s p (constrained, allowed)
          else
            let pv = cv s p;
                (constrained, allowed) =
                  (if cb_enabled (v_clip_box pv)
                   then (True, region_inter allowed (clip_box_region (v_geom pv) (v_clip_box pv)))
                   else (constrained, allowed));
                (constrained, allowed) =
                  (if cb_enabled (v_content_clip_box pv)
                   then (True, region_inter allowed
                           (init_content_region (view_clip_boxes_enabled s p) (v_geom pv)
                              (v_content_clip_box pv)))
                   else (constrained, allowed))
            in inherited_clip n s p (constrained, allowed))"

definition init_inherited_clip :: "'a comp_scheme \<Rightarrow> addr \<Rightarrow> bool \<times> region" where
  "init_inherited_clip s v =
     inherited_clip (length (c_views s)) s v (False, extents_region (v_extents (cv s v)))"

text \<open>The part of \<open>view->clip\<close> that comes from clip boxes, and the part of a view that covers
  what is below it.\<close>

definition clipped_away :: "'a comp_scheme \<Rightarrow> addr \<Rightarrow> region" where
  "clipped_away s v =
     (let x = cv s v; ext = extents_region (v_extents x)
      in (if view_clip_boxes_enabled s v \<and> cb_enabled (v_clip_box x)
          then region_sub ext (clip_box_region (v_geom x) (v_clip_box x)) else []) @
         (case init_inherited_clip s v of
            (True, allowed) \<Rightarrow> region_sub ext allowed
          | (False, _) \<Rightarrow> []))"

definition view_region :: "cview \<Rightarrow> region" where
  "view_region x = (let g = v_geom x
     in union_rect [] (sint (r_x g)) (sint (r_y g)) (uint (r_w g)) (uint (r_h g)))"

definition surface_opaque :: "'a comp_scheme \<Rightarrow> addr \<Rightarrow> region" where
  "surface_opaque s v =
     (let x = cv s v; g = v_geom x;
          r = region_translate (sf_opaque (c_surf s (the (v_surface x))))
                (sint (r_x g - v_off_x x)) (sint (r_y g - v_off_y x));
          r = region_inter r (view_region x);
          r = (if view_clip_boxes_enabled s v \<and> cb_enabled (v_clip_box x)
               then region_inter r (clip_box_region g (v_clip_box x)) else r);
          r = (if view_clip_boxes_enabled s v \<and> cb_enabled (v_content_clip_box x)
               then region_inter r (init_content_region (view_clip_boxes_enabled s v) g
                      (v_content_clip_box x)) else r)
      in case init_inherited_clip s v of
           (True, allowed) \<Rightarrow> region_inter r allowed
         | (False, _) \<Rightarrow> r)"

text \<open>One round of the loop of \<open>calculate_damage\<close>.\<close>

definition calculate_view :: "addr \<Rightarrow> 'a comp_scheme \<Rightarrow> 'a comp_scheme" where
  "calculate_view v s =
     (if \<not> v_visible (cv s v) then s
      else
        let s = upd v (\<lambda>x. x\<lparr>v_clip := c_opaque s @ clipped_away s v\<rparr>) s;
            s = s\<lparr>c_opaque := c_opaque s @ surface_opaque s v\<rparr>;
            x = cv s v; f = the (v_surface x); sf = c_surf s f;
            s = add_damage (region_translate (sf_damage sf)
                  (sint (r_x (v_geom x) - v_off_x x)) (sint (r_y (v_geom x) - v_off_y x))) s;
            s = s\<lparr>c_surf := (c_surf s)(f := sf\<lparr>sf_damage := []\<rparr>)\<rparr>
        in if v_dmg1 x \<or> v_dmg2 x \<or> v_decor_damaged x
           then upd v (\<lambda>x. x\<lparr>v_dmg1 := False, v_dmg2 := False, v_decor_damaged := False\<rparr>)
                  (add_damage (region_sub (extents_region (v_extents x)) (view_region x)) s)
           else s)"

definition calculate_damage :: "'a comp_scheme \<Rightarrow> 'a comp_scheme" where
  "calculate_damage s = fold calculate_view (c_views s) (s\<lparr>c_opaque := []\<rparr>)"

subsection \<open>The update loop\<close>

text \<open>\<open>swc_deactivate\<close> with the compositor's \<open>handle_swc_event\<close>.\<close>

definition swc_event_activated :: "'a comp_scheme \<Rightarrow> 'a comp_scheme" where
  "swc_event_activated s = schedule_updates (-1) (s\<lparr>c_active := True\<rparr>)"

definition swc_event_deactivated :: "'a comp_scheme \<Rightarrow> 'a comp_scheme" where
  "swc_event_deactivated s = s\<lparr>c_active := False, c_sched := 0\<rparr>"

text \<open>\<open>flip i\<close> is what drawing and swapping buffers on screen \<open>i\<close> comes to: \<open>None\<close> when the
  screen has no target or the zoomed image cannot be made, else the result of
  \<open>target_swap_buffers\<close>; \<open>- 13\<close> is \<open>-EACCES\<close>.\<close>

definition update_screen :: "(nat \<Rightarrow> int option) \<Rightarrow> nat \<Rightarrow> 'a comp_scheme \<Rightarrow> 'a comp_scheme" where
  "update_screen flip i s =
     (if c_sched s AND screen_mask i = 0 then s
      else case flip i of
             None \<Rightarrow> s
           | Some r \<Rightarrow>
               if c_pending s AND screen_mask i \<noteq> 0 then s
               else if r = -13 then swc_event_deactivated s
               else if r = 0 then s\<lparr>c_pending := c_pending s OR screen_mask i\<rparr>
               else s)"

definition perform_update :: "(nat \<Rightarrow> int option) \<Rightarrow> 'a comp_scheme \<Rightarrow> 'a comp_scheme" where
  "perform_update flip s =
     (let updates = c_sched s AND NOT (c_pending s)
      in if \<not> c_active s \<or> updates = 0 then s
         else
           let s = calculate_damage (s\<lparr>c_updating := True\<rparr>);
               s = fold (\<lambda>(i, g). update_screen flip i) (c_screens s) s
           in s\<lparr>c_damage := [], c_sched := c_sched s AND NOT updates, c_updating := False\<rparr>)"

text \<open>An idle callback runs once.\<close>

definition idle_update :: "(nat \<Rightarrow> int option) \<Rightarrow> 'a comp_scheme \<Rightarrow> 'a comp_scheme" where
  "idle_update flip s =
     (if c_idle s = 0 then s else perform_update flip (s\<lparr>c_idle := c_idle s - 1\<rparr>))"

definition view_frame :: "addr \<Rightarrow> u32 \<Rightarrow> 'a comp_scheme \<Rightarrow> 'a comp_scheme" where
  "view_frame v time s = notify v (NFrame time) s"

definition handle_screen_frame :: "(nat \<Rightarrow> int option) \<Rightarrow> nat \<Rightarrow> u32 \<Rightarrow> 'a comp_scheme \<Rightarrow> 'a comp_scheme"
where
  "handle_screen_frame flip i time s =
     (let s = s\<lparr>c_pending := c_pending s AND NOT (screen_mask i)\<rparr>;
          s = fold (\<lambda>v s. if v_visible (cv s v) \<and> v_screens (cv s v) AND screen_mask i \<noteq> 0
                          then view_frame v time s else s) (c_views s) s
      in if c_sched s \<noteq> 0 \<and> \<not> c_updating s then perform_update flip s else s)"

subsection \<open>What the operations leave alone\<close>

lemma cv_upd_same [simp]: "c_heap s v \<noteq> None \<Longrightarrow> cv (upd v f s) v = f (cv s v)"
  by (auto simp: cv_def upd_def)

lemma cv_upd_other [simp]: "w \<noteq> v \<Longrightarrow> cv (upd v f s) w = cv s w"
  by (simp add: cv_def upd_def)

lemma heap_upd [simp]: "c_heap (upd v f s) w = None \<longleftrightarrow> c_heap s w = None"
  by (simp add: upd_def)

lemma cv_cong: "c_heap s' = c_heap s \<Longrightarrow> cv s' = cv s"
  by (simp add: cv_def fun_eq_iff)

lemma upd_frame [simp]:
  "c_views (upd v f s) = c_views s" "c_surf (upd v f s) = c_surf s" "c_mode (upd v f s) = c_mode s"
  "c_damage (upd v f s) = c_damage s" "c_opaque (upd v f s) = c_opaque s"
  "c_pending (upd v f s) = c_pending s" "c_sched (upd v f s) = c_sched s"
  "c_updating (upd v f s) = c_updating s" "c_init (upd v f s) = c_init s" "comp.more (upd v f s) = comp.more s"
  "c_active (upd v f s) = c_active s" "c_screens (upd v f s) = c_screens s"
  "c_zoom (upd v f s) = c_zoom s" "c_overlay (upd v f s) = c_overlay s"
  "c_idle (upd v f s) = c_idle s" "c_notes (upd v f s) = c_notes s"
  by (simp_all add: upd_def)

lemma notify_frame [simp]:
  "c_heap (notify v n s) = c_heap s" "c_views (notify v n s) = c_views s"
  "c_surf (notify v n s) = c_surf s" "c_mode (notify v n s) = c_mode s"
  "c_damage (notify v n s) = c_damage s" "c_pending (notify v n s) = c_pending s"
  "c_sched (notify v n s) = c_sched s" "c_updating (notify v n s) = c_updating s" "comp.more (notify v n s) = comp.more s"
  "c_active (notify v n s) = c_active s" "c_screens (notify v n s) = c_screens s"
  "c_zoom (notify v n s) = c_zoom s" "c_idle (notify v n s) = c_idle s"
  "cv (notify v n s) = cv s"
  by (simp_all add: notify_def cv_def fun_eq_iff)

lemma damage_frame [simp]:
  "c_heap (add_damage r s) = c_heap s" "c_views (add_damage r s) = c_views s"
  "c_surf (add_damage r s) = c_surf s" "c_mode (add_damage r s) = c_mode s"
  "c_damage (add_damage r s) = c_damage s @ r"
  "c_pending (add_damage r s) = c_pending s" "c_opaque (add_damage r s) = c_opaque s"
  "c_sched (add_damage r s) = c_sched s" "c_updating (add_damage r s) = c_updating s" "comp.more (add_damage r s) = comp.more s"
  "c_active (add_damage r s) = c_active s" "c_screens (add_damage r s) = c_screens s"
  "c_zoom (add_damage r s) = c_zoom s" "c_idle (add_damage r s) = c_idle s"
  "cv (add_damage r s) = cv s"
  by (simp_all add: add_damage_def cv_def fun_eq_iff)

lemma damage_rect_eq: "damage_rect g s = add_damage (drop (length (c_damage s))
    (union_rect (c_damage s) (sint (r_x g)) (sint (r_y g)) (uint (r_w g)) (uint (r_h g)))) s"
  by (simp add: damage_rect_def add_damage_def union_rect_def)

lemma fold_damage_rect:
  "\<exists>r. fold (\<lambda>(i, g) (s, m). (damage_rect g s, m OR screen_mask i)) xs (s, m) =
       (add_damage r s, fold (\<lambda>(i, g) m. m OR screen_mask i) xs m)"
proof (induction xs arbitrary: s m)
  case (Cons a xs)
  obtain i g where a: "a = (i, g)" by force
  obtain r where "damage_rect g s = add_damage r s" using damage_rect_eq by blast
  moreover obtain r' where "fold (\<lambda>(i, g) (s, m). (damage_rect g s, m OR screen_mask i)) xs
      (add_damage r s, m OR screen_mask i) =
      (add_damage r' (add_damage r s), fold (\<lambda>(i, g) m. m OR screen_mask i) xs (m OR screen_mask i))"
    using Cons by blast
  ultimately show ?case
    by (intro exI[of _ "r @ r'"]) (simp add: a add_damage_def)
qed (auto intro: exI[of _ "[]"] simp: add_damage_def)

lemma fold_damage_rect':
  "\<exists>r. fold (\<lambda>(i, g). damage_rect g) xs s = add_damage r s"
proof (induction xs arbitrary: s)
  case (Cons a xs)
  obtain i g where a: "a = (i, g)" by force
  obtain r where "damage_rect g s = add_damage r s" using damage_rect_eq by blast
  moreover obtain r' where
    "fold (\<lambda>(i, g). damage_rect g) xs (add_damage r s) = add_damage r' (add_damage r s)"
    using Cons by blast
  ultimately show ?case by (intro exI[of _ "r @ r'"]) (simp add: a add_damage_def)
qed (auto intro: exI[of _ "[]"] simp: add_damage_def)

text \<open>\<open>schedule_updates\<close> adds damage (when zoomed), wakes the loop and extends the mask.\<close>

lemma schedule_updates_form:
  "\<exists>r m. schedule_updates screens s =
     (add_damage r s)\<lparr>c_idle := (if c_sched s = 0 then Suc (c_idle s) else c_idle s),
                      c_sched := c_sched s OR m\<rparr>"
proof -
  define s1 where "s1 = (if c_sched s = 0 then s\<lparr>c_idle := Suc (c_idle s)\<rparr> else s)"
  define m1 where "m1 = (if screens = -1 then all_screens s1 else screens)"
  obtain r where r: "fold (\<lambda>(i, g) (s, m). (damage_rect g s, m OR screen_mask i)) (c_screens s1) (s1, m1) =
       (add_damage r s1, fold (\<lambda>(i, g) m. m OR screen_mask i) (c_screens s1) m1)"
    using fold_damage_rect by blast
  show ?thesis
  proof (cases "c_zoom s1 = 1")
    case True
    then have "schedule_updates screens s = s1\<lparr>c_sched := c_sched s1 OR m1\<rparr>"
      by (simp add: schedule_updates_def s1_def m1_def Let_def)
    then show ?thesis
      by (intro exI[of _ "[]"] exI[of _ m1]) (simp add: s1_def add_damage_def)
  next
    case False
    let ?m = "fold (\<lambda>(i, g) m. m OR screen_mask i) (c_screens s1) m1"
    have "schedule_updates screens s = (add_damage r s1)\<lparr>c_sched := c_sched s1 OR ?m\<rparr>"
      using False r unfolding schedule_updates_def Let_def s1_def[symmetric] m1_def[symmetric]
      by simp
    then show ?thesis
      by (intro exI[of _ r] exI[of _ ?m]) (simp add: s1_def add_damage_def)
  qed
qed

lemma schedule_frame [simp]:
  "c_heap (schedule_updates m s) = c_heap s" "c_views (schedule_updates m s) = c_views s"
  "c_surf (schedule_updates m s) = c_surf s" "c_mode (schedule_updates m s) = c_mode s"
  "c_pending (schedule_updates m s) = c_pending s" "c_updating (schedule_updates m s) = c_updating s"
  "c_active (schedule_updates m s) = c_active s" "c_screens (schedule_updates m s) = c_screens s"
  "c_zoom (schedule_updates m s) = c_zoom s" "c_notes (schedule_updates m s) = c_notes s"
  "c_opaque (schedule_updates m s) = c_opaque s"
  "cv (schedule_updates m s) = cv s"
  using schedule_updates_form[of m s] by (auto simp: cv_def fun_eq_iff add_damage_def)

lemma schedule_damage_mono:
  "in_region (c_damage s) x y \<Longrightarrow> in_region (c_damage (schedule_updates m s)) x y"
  using schedule_updates_form[of m s] by auto

lemma update_only_frame [simp]:
  "c_heap (update_only v s) = c_heap s" "c_views (update_only v s) = c_views s"
  "c_surf (update_only v s) = c_surf s" "c_mode (update_only v s) = c_mode s"
  "c_pending (update_only v s) = c_pending s" "c_updating (update_only v s) = c_updating s"
  "c_active (update_only v s) = c_active s" "c_screens (update_only v s) = c_screens s"
  "c_zoom (update_only v s) = c_zoom s" "c_notes (update_only v s) = c_notes s"
  "cv (update_only v s) = cv s"
  by (simp_all add: update_view_def)

lemma update_damage_mono:
  "in_region (c_damage s) x y \<Longrightarrow> in_region (c_damage (update_only v s)) x y"
  by (simp add: update_view_def schedule_damage_mono)

subsection \<open>Requests for a repaint\<close>

text \<open>What every operation that may ask for a repaint does to the scheduling state: nothing is
  unscheduled, and going from nothing scheduled to something queues \<open>perform_update\<close>. What a
  larger state adds to the compositor's is left alone.\<close>

definition requests :: "'a comp_scheme \<Rightarrow> 'a comp_scheme \<Rightarrow> bool" where
  "requests s s' \<longleftrightarrow>
     c_pending s' = c_pending s \<and> c_active s' = c_active s \<and> c_updating s' = c_updating s \<and>
     c_sched s' AND c_sched s = c_sched s \<and> c_idle s \<le> c_idle s' \<and>
     comp.more s' = comp.more s \<and>
     (c_sched s = 0 \<and> c_sched s' \<noteq> 0 \<longrightarrow> c_idle s < c_idle s')"

named_theorems request_intros \<open>operations that only request repaints\<close>

lemma and_super_trans: "b AND a = a \<Longrightarrow> c AND b = b \<Longrightarrow> c AND a = (a :: u32)"
  by (metis and.assoc)

lemma requests_refl [intro, simp]: "requests s s"
  by (simp add: requests_def)

lemma requests_trans: "requests s t \<Longrightarrow> requests t u \<Longrightarrow> requests s u"
  unfolding requests_def
  by (elim conjE, intro conjI impI) (auto intro: and_super_trans dest: and_super_trans)

lemma requests_same:
  assumes "c_pending s' = c_pending s" "c_active s' = c_active s" "c_updating s' = c_updating s"
    "c_sched s' = c_sched s" "c_idle s' = c_idle s" "comp.more s' = comp.more s"
  shows "requests s s'"
  using assms by (simp add: requests_def)

lemma requests_upd [request_intros]: "requests s t \<Longrightarrow> requests s (upd v f t)"
  by (erule requests_trans) (simp add: requests_same)

lemma requests_notify [request_intros]: "requests s t \<Longrightarrow> requests s (notify v n t)"
  by (erule requests_trans) (simp add: requests_same)

lemma requests_add_damage [request_intros]: "requests s t \<Longrightarrow> requests s (add_damage r t)"
  by (erule requests_trans) (simp add: requests_same)

lemma requests_damage_rect [request_intros]: "requests s t \<Longrightarrow> requests s (damage_rect g t)"
  by (simp add: damage_rect_eq requests_add_damage)

lemma requests_schedule [request_intros]:
  assumes "requests s t" shows "requests s (schedule_updates m t)"
proof (rule requests_trans[OF assms])
  obtain r m' where f: "schedule_updates m t =
     (add_damage r t)\<lparr>c_idle := (if c_sched t = 0 then Suc (c_idle t) else c_idle t),
                      c_sched := c_sched t OR m'\<rparr>" using schedule_updates_form by blast
  show "requests t (schedule_updates m t)"
    unfolding requests_def f
    by (auto simp: bit_eq_iff bit_and_iff bit_or_iff)
qed

lemma requests_update [request_intros]: "requests s t \<Longrightarrow> requests s (update_only v t)"
  by (simp add: update_view_def requests_schedule)

lemma requests_fold:
  assumes "\<And>x t. requests s t \<Longrightarrow> requests s (f x t)" "requests s t"
  shows "requests s (fold f xs t)"
  using assms(2) by (induction xs arbitrary: t) (simp_all add: assms(1))

lemma requests_damage_below [request_intros]: "requests s t \<Longrightarrow> requests s (damage_below_view v t)"
  by (simp add: damage_below_view_def request_intros)

lemma requests_damage_view [request_intros]: "requests s t \<Longrightarrow> requests s (damage_view v t)"
  by (simp add: damage_view_def request_intros)

lemma requests_damage_all [request_intros]: "requests s t \<Longrightarrow> requests s (compositor_damage_all t)"
  by (auto simp: compositor_damage_all_def intro!: request_intros requests_fold)

lemma requests_set_position [request_intros]:
  "requests s t \<Longrightarrow> requests s (snd (view_set_position v x y t))"
  by (simp add: view_set_position_def request_intros)

lemma requests_set_size [request_intros]:
  "requests s t \<Longrightarrow> requests s (snd (view_set_size v w h t))"
  by (simp add: view_set_size_def Let_def request_intros)

lemma requests_set_screens [request_intros]:
  "requests s t \<Longrightarrow> requests s (view_set_screens v m t)"
  by (simp add: view_set_screens_def Let_def request_intros)

lemma requests_update_screens [request_intros]:
  "requests s t \<Longrightarrow> requests s (view_update_screens v t)"
  by (simp add: view_update_screens_def Let_def request_intros)

lemma requests_compositor_update_screens [request_intros]:
  "requests s t \<Longrightarrow> requests s (compositor_update_screens t)"
  by (auto simp: compositor_update_screens_def intro!: request_intros requests_fold)

lemma requests_extents [request_intros]: "requests s t \<Longrightarrow> requests s (update_extents v t)"
  by (simp add: update_extents_def request_intros)

lemma requests_attach [request_intros]:
  "requests s t \<Longrightarrow> requests s (snd (attach r v b t))"
  unfolding attach_def Let_def
  by (simp only: case_prod_beta) (auto intro!: request_intros)

lemma requests_view_attach [request_intros]:
  "requests s t \<Longrightarrow> requests s (snd (view_attach r v b t))"
  unfolding view_attach_def Let_def
  by (simp only: case_prod_beta) (auto intro!: request_intros)

lemma requests_move [request_intros]: "requests s t \<Longrightarrow> requests s (view_move v x y t)"
  unfolding view_move_def Let_def
  by (simp only: case_prod_beta) (auto intro!: request_intros)

lemma requests_border_width [request_intros]:
  "requests s t \<Longrightarrow> requests s (compositor_view_set_border_width v a b t)"
  by (simp add: compositor_view_set_border_width_def Let_def request_intros)

lemma requests_border_color [request_intros]:
  "requests s t \<Longrightarrow> requests s (compositor_view_set_border_color v a b t)"
  by (simp add: compositor_view_set_border_color_def Let_def request_intros)

lemma requests_set_clip_box [request_intros]:
  "requests s t \<Longrightarrow> requests s (set_clip_box c v x y w h t)"
  by (auto simp: set_clip_box_def Let_def intro!: request_intros)

lemma requests_damage_decor [request_intros]:
  "requests s t \<Longrightarrow> requests s (compositor_view_damage_decor v t)"
  by (simp add: compositor_view_damage_decor_def Let_def request_intros)

lemma requests_overlay [request_intros]:
  "requests s t \<Longrightarrow> requests s (swc_overlay_set_box x1 y1 x2 y2 c b t)"
  "requests s t \<Longrightarrow> requests s (swc_overlay_clear t)"
proof -
  have o: "requests s (u\<lparr>c_overlay := o'\<rparr>)" if "requests s u" for u :: "'a comp_scheme" and o'
    using requests_trans[OF that] by (simp add: requests_same)
  show "requests s t \<Longrightarrow> requests s (swc_overlay_set_box x1 y1 x2 y2 c b t)"
    unfolding swc_overlay_set_box_def Let_def overlay_damage_region_def
    by (intro request_intros o) (auto intro: request_intros)
  show "requests s t \<Longrightarrow> requests s (swc_overlay_clear t)"
    by (auto simp: swc_overlay_clear_def Let_def overlay_damage_region_def intro!: request_intros o)
qed

lemma requests_set_zoom [request_intros]:
  assumes "requests s t" shows "requests s (swc_set_zoom z t)"
proof -
  have z: "requests s (t\<lparr>c_zoom := z'\<rparr>)" for z'
    using requests_trans[OF assms] by (simp add: requests_same)
  show ?thesis using assms by (auto simp: swc_set_zoom_def Let_def intro!: request_intros z)
qed

subsection \<open>No repaint is lost\<close>

text \<open>Something scheduled is always on its way: \<open>perform_update\<close> is queued, or the screens wait
  for a page flip whose frame will run it.\<close>

definition repaint_pending :: "'a comp_scheme \<Rightarrow> bool" where
  "repaint_pending s \<longleftrightarrow> (c_sched s \<noteq> 0 \<longrightarrow> 0 < c_idle s \<or> c_sched s AND c_pending s \<noteq> 0)"

lemma requests_repaint_pending:
  assumes "requests s s'" "repaint_pending s" shows "repaint_pending s'"
proof (cases "c_sched s = 0")
  case False
  show ?thesis
  proof (cases "0 < c_idle s")
    case False2: False
    with False assms have "c_sched s AND c_pending s \<noteq> 0" by (simp add: repaint_pending_def)
    moreover have "c_sched s AND c_pending s = 0" if "c_sched s' AND c_pending s = 0"
    proof -
      have "c_sched s AND c_pending s = (c_sched s' AND c_sched s) AND c_pending s"
        using assms(1) by (simp add: requests_def)
      also have "\<dots> = (c_sched s' AND c_pending s) AND c_sched s" by (simp add: ac_simps)
      finally show ?thesis using that by simp
    qed
    ultimately show ?thesis using assms(1) by (auto simp: repaint_pending_def requests_def)
  qed (use assms in \<open>auto simp: repaint_pending_def requests_def\<close>)
qed (use assms in \<open>auto simp: repaint_pending_def requests_def\<close>)

lemma calculate_view_sched [simp]:
  "c_sched (calculate_view v s) = c_sched s" "c_pending (calculate_view v s) = c_pending s"
  "c_idle (calculate_view v s) = c_idle s" "c_active (calculate_view v s) = c_active s"
  "c_updating (calculate_view v s) = c_updating s" "c_screens (calculate_view v s) = c_screens s"
  "c_views (calculate_view v s) = c_views s" "c_mode (calculate_view v s) = c_mode s"
  by (simp_all add: calculate_view_def Let_def)

lemma calculate_damage_sched [simp]:
  "c_sched (calculate_damage s) = c_sched s" "c_pending (calculate_damage s) = c_pending s"
  "c_idle (calculate_damage s) = c_idle s" "c_active (calculate_damage s) = c_active s"
  "c_updating (calculate_damage s) = c_updating s" "c_screens (calculate_damage s) = c_screens s"
proof -
  have "c_sched (fold calculate_view xs t) = c_sched t \<and>
    c_pending (fold calculate_view xs t) = c_pending t \<and>
    c_idle (fold calculate_view xs t) = c_idle t \<and> c_active (fold calculate_view xs t) = c_active t \<and>
    c_updating (fold calculate_view xs t) = c_updating t \<and>
    c_screens (fold calculate_view xs t) = c_screens t" for xs and t :: "'a comp_scheme"
    by (induction xs arbitrary: t) simp_all
  from this[of "c_views s" "s\<lparr>c_opaque := []\<rparr>"]
  show "c_sched (calculate_damage s) = c_sched s" "c_pending (calculate_damage s) = c_pending s"
    "c_idle (calculate_damage s) = c_idle s" "c_active (calculate_damage s) = c_active s"
    "c_updating (calculate_damage s) = c_updating s" "c_screens (calculate_damage s) = c_screens s"
    by (simp_all add: calculate_damage_def)
qed

lemma update_screen_sched:
  "\<exists>a m s0. update_screen flip i s = s\<lparr>c_active := a, c_sched := s0, c_pending := c_pending s OR m\<rparr> \<and>
     (s0 = c_sched s \<and> a = c_active s \<or> s0 = 0 \<and> \<not> a)"
proof -
  consider "update_screen flip i s = s" | "update_screen flip i s = swc_event_deactivated s"
    | "update_screen flip i s = s\<lparr>c_pending := c_pending s OR screen_mask i\<rparr>"
  proof -
    have "update_screen flip i s = s \<or> update_screen flip i s = swc_event_deactivated s \<or>
          update_screen flip i s = s\<lparr>c_pending := c_pending s OR screen_mask i\<rparr>"
      by (simp add: update_screen_def split: option.split)
    then show thesis using that by blast
  qed
  then show ?thesis
  proof cases
    case 1
    then show ?thesis by (intro exI[of _ "c_active s"] exI[of _ 0] exI[of _ "c_sched s"]) simp
  next
    case 2
    then show ?thesis
      by (intro exI[of _ False] exI[of _ 0] exI[of _ 0]) (simp add: swc_event_deactivated_def)
  next
    case 3
    then show ?thesis
      by (intro exI[of _ "c_active s"] exI[of _ "screen_mask i"] exI[of _ "c_sched s"]) simp
  qed
qed

lemma update_screens_sched:
  "\<exists>a m s0. fold (\<lambda>(i, g). update_screen flip i) xs s =
     s\<lparr>c_active := a, c_sched := s0, c_pending := c_pending s OR m\<rparr> \<and>
     (s0 = c_sched s \<and> a = c_active s \<or> s0 = 0 \<and> \<not> a)"
proof (induction xs arbitrary: s)
  case Nil
  show ?case by (rule exI[of _ "c_active s"], rule exI[of _ 0], rule exI[of _ "c_sched s"]) simp
next
  case (Cons p xs)
  obtain i g where p: "p = (i, g)" by force
  obtain a m s0 where 1: "update_screen flip i s =
      s\<lparr>c_active := a, c_sched := s0, c_pending := c_pending s OR m\<rparr>"
    "s0 = c_sched s \<and> a = c_active s \<or> s0 = 0 \<and> \<not> a"
    using update_screen_sched by blast
  obtain a' m' s0' where 2: "fold (\<lambda>(i, g). update_screen flip i) xs (update_screen flip i s) =
      (update_screen flip i s)\<lparr>c_active := a', c_sched := s0',
         c_pending := c_pending (update_screen flip i s) OR m'\<rparr>"
    "s0' = c_sched (update_screen flip i s) \<and> a' = c_active (update_screen flip i s) \<or> s0' = 0 \<and> \<not> a'"
    using Cons by blast
  have "fold (\<lambda>(i, g). update_screen flip i) (p # xs) s =
      s\<lparr>c_active := a', c_sched := s0', c_pending := c_pending s OR (m OR m')\<rparr>"
    using 2(1) by (simp add: p 1(1) or.assoc)
  moreover have "s0' = c_sched s \<and> a' = c_active s \<or> s0' = 0 \<and> \<not> a'"
    using 1(2) 2(2) unfolding 1(1) by auto
  ultimately show ?case by blast
qed

lemma perform_update_pending:
  assumes "c_active s"
  shows "repaint_pending (perform_update flip s) \<and> \<not> (c_updating (perform_update flip s) \<and> \<not> c_updating s) \<and>
         (\<not> c_active (perform_update flip s) \<longrightarrow> c_sched (perform_update flip s) = 0)"
proof -
  let ?up = "c_sched s AND NOT (c_pending s)"
  show ?thesis
  proof (cases "?up = 0")
    case True
    then have "c_sched s AND c_pending s = c_sched s"
      by (metis (no_types) bit.conj_cancel_right bit.conj_disj_distrib bit.disj_cancel_right
          bit.disj_zero_right bit.conj_one_right)
    with True assms show ?thesis by (auto simp: perform_update_def repaint_pending_def)
  next
    case False
    let ?t = "calculate_damage (s\<lparr>c_updating := True\<rparr>)"
    obtain a m s0 where u: "fold (\<lambda>(i, g). update_screen flip i) (c_screens ?t) ?t =
        ?t\<lparr>c_active := a, c_sched := s0, c_pending := c_pending ?t OR m\<rparr>"
      "s0 = c_sched ?t \<and> a = c_active ?t \<or> s0 = 0 \<and> \<not> a"
      using update_screens_sched by blast
    have p: "perform_update flip s = ?t\<lparr>c_active := a, c_pending := c_pending s OR m,
        c_damage := [], c_sched := s0 AND NOT ?up, c_updating := False\<rparr>"
      using False assms u(1) by (simp add: perform_update_def Let_def)
    have "c_sched s AND NOT ?up = c_sched s AND c_pending s"
      by (auto simp: bit_eq_iff bit_and_iff bit_not_iff bit_or_iff)
    moreover have "(c_sched s AND c_pending s) AND (c_pending s OR m) = c_sched s AND c_pending s"
      by (auto simp: bit_eq_iff bit_and_iff bit_or_iff)
    ultimately show ?thesis
      using u(2) assms unfolding p by (auto simp: repaint_pending_def)
  qed
qed

subsection \<open>Occlusion\<close>

text \<open>The fields \<open>calculate_damage\<close> may change, blanked out.\<close>

definition layout :: "cview \<Rightarrow> cview" where
  "layout x = x\<lparr>v_clip := [], v_dmg1 := False, v_dmg2 := False, v_decor_damaged := False\<rparr>"

definition same_layout :: "'a comp_scheme \<Rightarrow> 'a comp_scheme \<Rightarrow> bool" where
  "same_layout s s' \<longleftrightarrow> c_views s' = c_views s \<and> c_mode s' = c_mode s \<and>
     (\<forall>w. map_option layout (c_heap s' w) = map_option layout (c_heap s w)) \<and>
     (\<forall>f. (c_surf s' f)\<lparr>sf_damage := []\<rparr> = (c_surf s f)\<lparr>sf_damage := []\<rparr>)"

lemma layout_fields:
  assumes "layout x = layout y"
  shows "v_geom x = v_geom y" "v_surface x = v_surface y" "v_window x = v_window y"
    "v_parent x = v_parent y" "v_off_x x = v_off_x y" "v_off_y x = v_off_y y"
    "v_visible x = v_visible y" "v_extents x = v_extents y" "v_clip_box x = v_clip_box y"
    "v_content_clip_box x = v_content_clip_box y"
  using arg_cong[OF assms, of v_geom] arg_cong[OF assms, of v_surface]
    arg_cong[OF assms, of v_window] arg_cong[OF assms, of v_parent]
    arg_cong[OF assms, of v_off_x] arg_cong[OF assms, of v_off_y]
    arg_cong[OF assms, of v_visible] arg_cong[OF assms, of v_extents]
    arg_cong[OF assms, of v_clip_box] arg_cong[OF assms, of v_content_clip_box]
  by (simp_all add: layout_def)

lemma same_layout_refl [simp]: "same_layout s s"
  by (simp add: same_layout_def)

lemma same_layout_trans: "same_layout s t \<Longrightarrow> same_layout t u \<Longrightarrow> same_layout s u"
  by (simp add: same_layout_def)

lemma same_layout_cv: "same_layout s s' \<Longrightarrow> layout (cv s' w) = layout (cv s w)"
  unfolding same_layout_def cv_def
  by (metis map_option_is_None option.map_sel option.exhaust_sel)

lemma same_layout_surf:
  assumes "same_layout s s'"
  shows "sf_opaque (c_surf s' f) = sf_opaque (c_surf s f)" "sf_sub (c_surf s' f) = sf_sub (c_surf s f)"
proof -
  have e: "(c_surf s' f)\<lparr>sf_damage := []\<rparr> = (c_surf s f)\<lparr>sf_damage := []\<rparr>"
    using assms by (simp add: same_layout_def)
  show "sf_opaque (c_surf s' f) = sf_opaque (c_surf s f)" "sf_sub (c_surf s' f) = sf_sub (c_surf s f)"
    using arg_cong[OF e, of sf_opaque] arg_cong[OF e, of sf_sub] by simp_all
qed

lemma same_layout_inherited:
  assumes "same_layout s s'"
  shows "inherited_clip n s' v acc = inherited_clip n s v acc"
proof (induction n arbitrary: v acc)
  case (Suc n)
  note l = layout_fields[OF same_layout_cv[OF assms]]
  have e: "view_clip_boxes_enabled s' w = view_clip_boxes_enabled s w" for w
    using assms by (simp add: view_clip_boxes_enabled_def l same_layout_def split: option.split)
  have i: "is_subsurface s' w = is_subsurface s w" for w
    by (simp add: is_subsurface_def l same_layout_surf[OF assms] split: option.split)
  obtain c a where acc: "acc = (c, a)" by force
  show ?case by (simp only: acc inherited_clip.simps Let_def l e i Suc)
qed simp

lemma same_layout_regions:
  assumes "same_layout s s'"
  shows "surface_opaque s' v = surface_opaque s v" "clipped_away s' v = clipped_away s v"
proof -
  note l = layout_fields[OF same_layout_cv[OF assms]]
  have e: "view_clip_boxes_enabled s' v = view_clip_boxes_enabled s v"
    using assms by (simp add: view_clip_boxes_enabled_def l same_layout_def split: option.split)
  have i: "init_inherited_clip s' v = init_inherited_clip s v"
    using assms by (simp add: init_inherited_clip_def same_layout_inherited l same_layout_def)
  show "surface_opaque s' v = surface_opaque s v"
    by (simp only: surface_opaque_def view_region_def Let_def l e i same_layout_surf[OF assms])
  show "clipped_away s' v = clipped_away s v"
    by (simp only: clipped_away_def Let_def l e i)
qed

lemma same_layout_upd:
  "(\<And>x. layout (f x) = layout x) \<Longrightarrow> same_layout s t \<Longrightarrow> same_layout s (upd v f t)"
  by (simp add: same_layout_def upd_def option.map_comp comp_def)

lemma calculate_view_form:
  assumes "v_visible (cv s v)"
  shows "\<exists>g r f. calculate_view v s = upd v g (add_damage r
      ((upd v (\<lambda>x. x\<lparr>v_clip := c_opaque s @ clipped_away s v\<rparr>) s)
         \<lparr>c_opaque := c_opaque s @ surface_opaque s v,
          c_surf := (c_surf s)(f := (c_surf s f)\<lparr>sf_damage := []\<rparr>)\<rparr>)) \<and>
    (\<forall>x. layout (g x) = layout x) \<and> (\<forall>x. v_clip (g x) = v_clip x)"
proof -
  let ?s1 = "upd v (\<lambda>x. x\<lparr>v_clip := c_opaque s @ clipped_away s v\<rparr>) s"
  have "same_layout s ?s1" by (intro same_layout_upd) (simp_all add: layout_def)
  note so = same_layout_regions(1)[OF this]
  let ?s2 = "?s1\<lparr>c_opaque := c_opaque s @ surface_opaque s v\<rparr>"
  let ?x = "cv ?s2 v"
  let ?f = "the (v_surface ?x)"
  let ?r = "region_translate (sf_damage (c_surf s ?f))
              (sint (r_x (v_geom ?x) - v_off_x ?x)) (sint (r_y (v_geom ?x) - v_off_y ?x))"
  let ?r2 = "region_sub (extents_region (v_extents ?x)) (view_region ?x)"
  let ?clr = "\<lambda>x. x\<lparr>v_dmg1 := False, v_dmg2 := False, v_decor_damaged := False\<rparr>"
  let ?s4 = "\<lambda>r. add_damage r (?s2\<lparr>c_surf := (c_surf s)(?f := (c_surf s ?f)\<lparr>sf_damage := []\<rparr>)\<rparr>)"
  have id: "upd v (\<lambda>x. x) t = t" for t :: "'a comp_scheme"
    by (simp add: upd_def option.map_ident)
  have "calculate_view v s = (if v_dmg1 ?x \<or> v_dmg2 ?x \<or> v_decor_damaged ?x
      then upd v ?clr (?s4 (?r @ ?r2)) else ?s4 ?r)"
    using assms by (simp add: calculate_view_def Let_def so add_damage_def)
  note eq = this
  show ?thesis
  proof (cases "v_dmg1 ?x \<or> v_dmg2 ?x \<or> v_decor_damaged ?x")
    case True
    show ?thesis
      by (rule exI[of _ ?clr], rule exI[of _ "?r @ ?r2"], rule exI[of _ ?f])
         (simp only: eq True if_True, simp add: layout_def)
  next
    case False
    show ?thesis
      by (rule exI[of _ "\<lambda>x. x"], rule exI[of _ ?r], rule exI[of _ ?f])
         (simp only: eq False if_False id, simp)
  qed
qed

lemma calculate_view_layout: "same_layout s (calculate_view v s)"
proof (cases "v_visible (cv s v)")
  case True
  obtain g r f where 1: "calculate_view v s = upd v g (add_damage r
      ((upd v (\<lambda>x. x\<lparr>v_clip := c_opaque s @ clipped_away s v\<rparr>) s)
         \<lparr>c_opaque := c_opaque s @ surface_opaque s v,
          c_surf := (c_surf s)(f := (c_surf s f)\<lparr>sf_damage := []\<rparr>)\<rparr>))"
    "\<And>x. layout (g x) = layout x" "\<And>x. v_clip (g x) = v_clip x"
    using calculate_view_form[OF True] by (elim exE conjE) (rule that, assumption, blast, blast)
  have "same_layout s (upd v (\<lambda>x. x\<lparr>v_clip := c_opaque s @ clipped_away s v\<rparr>) s)"
    by (intro same_layout_upd) (simp_all add: layout_def)
  then show ?thesis
    unfolding 1(1) by (intro same_layout_upd 1(2)) (simp add: same_layout_def)
qed (simp add: calculate_view_def)

lemma calculate_view_effect:
  assumes "c_heap s v \<noteq> None"
  shows "c_opaque (calculate_view v s) =
           c_opaque s @ (if v_visible (cv s v) then surface_opaque s v else [])"
    and "v_visible (cv s v) \<Longrightarrow> v_clip (cv (calculate_view v s) v) = c_opaque s @ clipped_away s v"
    and "w \<noteq> v \<Longrightarrow> cv (calculate_view v s) w = cv s w"
proof -
  have "c_opaque (calculate_view v s) =
           c_opaque s @ (if v_visible (cv s v) then surface_opaque s v else []) \<and>
        (v_visible (cv s v) \<longrightarrow> v_clip (cv (calculate_view v s) v) = c_opaque s @ clipped_away s v) \<and>
        (w \<noteq> v \<longrightarrow> cv (calculate_view v s) w = cv s w)"
  proof (cases "v_visible (cv s v)")
    case True
    obtain g r f where 1: "calculate_view v s = upd v g (add_damage r
        ((upd v (\<lambda>x. x\<lparr>v_clip := c_opaque s @ clipped_away s v\<rparr>) s)
           \<lparr>c_opaque := c_opaque s @ surface_opaque s v,
            c_surf := (c_surf s)(f := (c_surf s f)\<lparr>sf_damage := []\<rparr>)\<rparr>))"
      "\<And>x. layout (g x) = layout x" "\<And>x. v_clip (g x) = v_clip x"
      using calculate_view_form[OF True] by (elim exE conjE) (rule that, assumption, blast, blast)
    show ?thesis
      using assms True unfolding 1(1)
      by (simp add: cv_def upd_def add_damage_def 1(3) option.map_sel)
  qed (simp add: calculate_view_def)
  then show "c_opaque (calculate_view v s) =
           c_opaque s @ (if v_visible (cv s v) then surface_opaque s v else [])"
    and "v_visible (cv s v) \<Longrightarrow> v_clip (cv (calculate_view v s) v) = c_opaque s @ clipped_away s v"
    and "w \<noteq> v \<Longrightarrow> cv (calculate_view v s) w = cv s w" by blast+
qed

lemma same_layout_live: "same_layout s s' \<Longrightarrow> (c_heap s' w = None) = (c_heap s w = None)"
  unfolding same_layout_def by (metis map_option_is_None)

lemma calculate_fold:
  assumes "distinct (as @ v # bs)" "\<forall>w\<in>set (as @ v # bs). c_heap s w \<noteq> None" "v_visible (cv s v)"
  shows "v_clip (cv (fold calculate_view (as @ v # bs) s) v) =
    c_opaque s @ concat (map (surface_opaque s) (filter (\<lambda>w. v_visible (cv s w)) as)) @ clipped_away s v"
  using assms
proof (induction as arbitrary: s)
  case Nil
  have keep: "cv (fold calculate_view xs t) v = cv t v"
    if "v \<notin> set xs" "\<forall>w\<in>set xs. c_heap t w \<noteq> None" for xs and t :: "'a comp_scheme"
    using that
  proof (induction xs arbitrary: t)
    case (Cons x xs)
    have "\<forall>w\<in>set xs. c_heap (calculate_view x t) w \<noteq> None"
      using Cons.prems by (simp add: same_layout_live[OF calculate_view_layout])
    with Cons show ?case by (simp add: calculate_view_effect(3))
  qed simp
  have "\<forall>w\<in>set bs. c_heap (calculate_view v s) w \<noteq> None"
    using Nil by (simp add: same_layout_live[OF calculate_view_layout])
  with Nil show ?case by (simp add: keep calculate_view_effect(2))
next
  case (Cons a as)
  let ?t = "calculate_view a s"
  have sl: "same_layout s ?t" by (rule calculate_view_layout)
  have "\<forall>w\<in>set (as @ v # bs). c_heap ?t w \<noteq> None"
    using Cons.prems(2) by (simp add: same_layout_live[OF sl])
  moreover have vis: "v_visible (cv ?t w) = v_visible (cv s w)" for w
    using layout_fields(7)[OF same_layout_cv[OF sl]] .
  ultimately have "v_clip (cv (fold calculate_view (as @ v # bs) ?t) v) =
      c_opaque ?t @ concat (map (surface_opaque ?t) (filter (\<lambda>w. v_visible (cv ?t w)) as)) @ clipped_away ?t v"
    using Cons.prems by (intro Cons.IH) simp_all
  also have "surface_opaque ?t = surface_opaque s" using same_layout_regions(1)[OF sl] by blast
  finally show ?case
    using Cons.prems by (simp add: vis same_layout_regions(2)[OF sl] calculate_view_effect(1))
qed

text \<open>C5: \<open>calculate_damage\<close> clips every visible view by exactly the opaque parts of the
  visible views stacked above it, and by what its own clip box and the boxes of the windows it
  is a subsurface of cut off.\<close>

theorem calculate_damage_occlusion:
  assumes "distinct (c_views s)" "\<forall>w\<in>set (c_views s). c_heap s w \<noteq> None"
    and "c_views s = as @ v # bs" "v_visible (cv s v)"
  shows "in_region (v_clip (cv (calculate_damage s) v)) x y \<longleftrightarrow>
    (\<exists>w\<in>set as. v_visible (cv s w) \<and> in_region (surface_opaque s w) x y) \<or>
    in_region (clipped_away s v) x y"
proof -
  have c: "in_region (concat (map f ws)) x y \<longleftrightarrow> (\<exists>w\<in>set ws. in_region (f w) x y)"
    for f :: "addr \<Rightarrow> region" and ws
    by (induction ws) auto
  let ?s = "s\<lparr>c_opaque := []\<rparr>"
  have sl: "same_layout s ?s" by (simp add: same_layout_def)
  have h: "c_heap ?s = c_heap s" by simp
  then have cvs: "cv ?s = cv s" by (rule cv_cong)
  have "v_clip (cv (fold calculate_view (as @ v # bs) ?s) v) =
      c_opaque ?s @ concat (map (surface_opaque ?s) (filter (\<lambda>w. v_visible (cv ?s w)) as)) @
      clipped_away ?s v"
    using assms by (intro calculate_fold) (simp_all add: h cvs)
  then show ?thesis
    using assms(3) by (auto simp: calculate_damage_def c cvs same_layout_regions[OF sl])
qed

subsection \<open>Moving, and attaching a buffer\<close>

lemma damage_below_region [simp]:
  "in_region (c_damage (damage_below_view v s)) x y \<longleftrightarrow>
     in_region (c_damage s) x y \<or> in_box (v_extents (cv s v)) x y"
  by (simp add: damage_below_view_def)

lemma damage_below_frame [simp]:
  "c_heap (damage_below_view v s) = c_heap s" "cv (damage_below_view v s) = cv s"
  by (simp_all add: damage_below_view_def)

lemma view_set_screens_frame [simp]:
  "c_damage (view_set_screens v m s) = c_damage s"
  "(c_heap (view_set_screens v m s) w = None) = (c_heap s w = None)"
  "c_heap s v \<noteq> None \<Longrightarrow> v_extents (cv (view_set_screens v m s) v) = v_extents (cv s v)"
  "c_heap s v \<noteq> None \<Longrightarrow> v_geom (cv (view_set_screens v m s) v) = v_geom (cv s v)"
  "c_heap s v \<noteq> None \<Longrightarrow> v_visible (cv (view_set_screens v m s) v) = v_visible (cv s v)"
  by (simp_all add: view_set_screens_def Let_def)

lemma view_update_screens_frame [simp]:
  "c_damage (view_update_screens v s) = c_damage s"
  "(c_heap (view_update_screens v s) w = None) = (c_heap s w = None)"
  "c_heap s v \<noteq> None \<Longrightarrow> v_extents (cv (view_update_screens v s) v) = v_extents (cv s v)"
  "c_heap s v \<noteq> None \<Longrightarrow> v_geom (cv (view_update_screens v s) v) = v_geom (cv s v)"
  "c_heap s v \<noteq> None \<Longrightarrow> v_visible (cv (view_update_screens v s) v) = v_visible (cv s v)"
  by (simp_all add: view_update_screens_def Let_def)

definition extents_of :: "cview \<Rightarrow> box" where
  "extents_of x = view_extents (v_geom x) (v_border x) (v_decor x) (v_off_x x) (v_off_y x) (v_buffer x)"

text \<open>C6: moving a visible view damages everything it covered and everything it covers now, so
  neither the uncovered background nor the window can stay stale on screen; its geometry and its
  extents are the new ones.\<close>

theorem view_move_damages_old_and_new:
  assumes "c_heap s v \<noteq> None" "v_visible (cv s v)"
    and "in_box (v_extents (cv s v)) px py \<or>
         (x \<noteq> r_x (v_geom (cv s v)) \<or> y \<noteq> r_y (v_geom (cv s v))) \<and>
         in_box (extents_of ((cv s v)\<lparr>v_geom := (v_geom (cv s v))\<lparr>r_x := x, r_y := y\<rparr>\<rparr>)) px py"
  shows "in_region (c_damage (view_move v x y s)) px py \<and>
         v_geom (cv (view_move v x y s) v) = (v_geom (cv s v))\<lparr>r_x := x, r_y := y\<rparr>"
proof -
  let ?s1 = "update_only v (damage_below_view v s)"
  have d1: "in_box (v_extents (cv s v)) px py \<Longrightarrow> in_region (c_damage ?s1) px py"
    by (rule update_damage_mono) simp
  show ?thesis
  proof (cases "x = r_x (v_geom (cv s v)) \<and> y = r_y (v_geom (cv s v))")
    case True
    then show ?thesis
      using assms d1 by (auto simp: view_move_def view_set_position_def)
  next
    case False
    let ?s2 = "notify v NMove (upd v (\<lambda>w. w\<lparr>v_geom := (v_geom w)\<lparr>r_x := x, r_y := y\<rparr>\<rparr>) ?s1)"
    let ?s3 = "upd v (\<lambda>w. w\<lparr>v_clip := []\<rparr>) (update_extents v ?s2)"
    have h: "c_heap ?s1 v \<noteq> None" "c_heap ?s2 v \<noteq> None" using assms(1) by simp_all
    have "view_move v x y s =
        update_only v (damage_below_view v (view_update_screens v ?s3))"
      using assms(1,2) False h
      by (auto simp: view_move_def view_set_position_def update_extents_def Let_def)
    moreover have "v_geom (cv (view_update_screens v ?s3) v) = (v_geom (cv s v))\<lparr>r_x := x, r_y := y\<rparr>"
      "v_extents (cv (view_update_screens v ?s3) v) =
        extents_of ((cv s v)\<lparr>v_geom := (v_geom (cv s v))\<lparr>r_x := x, r_y := y\<rparr>\<rparr>)"
      using h by (simp_all add: update_extents_def extents_of_def)
    moreover have "c_damage (view_update_screens v ?s3) = c_damage ?s1"
      by (simp add: update_extents_def notify_def)
    ultimately show ?thesis
      using assms(3) d1 False by (auto intro!: update_damage_mono)
  qed
qed

subsection \<open>Initial states\<close>

definition no_clip_box :: clip_box where
  "no_clip_box = \<lparr>cb_enabled = False, cb_x = 0, cb_y = 0, cb_w = 0, cb_h = 0\<rparr>"

text \<open>The view \<open>compositor_create_view\<close> fills in, with \<open>view_initialize\<close>.\<close>

definition initial_view :: "addr \<Rightarrow> cview" where
  "initial_view surface =
     \<lparr>v_geom = \<lparr>r_x = 0, r_y = 0, r_w = 0, r_h = 0\<rparr>, v_buffer = None, v_screens = 0,
      v_surface = Some surface, v_window = None, v_parent = None, v_off_x = 0, v_off_y = 0,
      v_visible = False, v_always_top = False, v_layer = STACK_LAYER_NORMAL,
      v_extents = \<lparr>b_x1 = 0, b_y1 = 0, b_x2 = 0, b_y2 = 0\<rparr>, v_clip = [],
      v_clip_box = no_clip_box, v_content_clip_box = no_clip_box,
      v_border = \<lparr>bd_outwidth = 0, bd_outcolor = 0, bd_inwidth = 0, bd_incolor = 0\<rparr>,
      v_dmg1 = False, v_dmg2 = False,
      v_decor = \<lparr>dc_top = 0, dc_right = 0, dc_bottom = 0, dc_left = 0\<rparr>, v_decor_damaged = False\<rparr>"

text \<open>The surface \<open>surface_new\<close> fills in; \<open>state_initialize\<close> makes the input region infinite.\<close>

definition infinite_region :: region where
  "infinite_region = [\<lparr>b_x1 = -2147483648, b_y1 = -2147483648, b_x2 = 2147483647, b_y2 = 2147483647\<rparr>]"

definition surface_new :: csurface where
  "surface_new =
     \<lparr>sf_view = None, sf_sub = None, sf_children = [], sf_buffer = None, sf_damage = [],
      sf_opaque = [], sf_input = infinite_region, sf_frames = [],
      sf_has_wg = False, sf_wx = 0, sf_wy = 0, sf_ww = 0, sf_wh = 0,
      sf_held = False, sf_hold_attach = False, sf_hold_update = False,
      sf_p_commit = 0, sf_p_buffer = None, sf_p_damage = [], sf_p_opaque = [],
      sf_p_input = infinite_region, sf_p_frames = []\<rparr>"

definition compositor_initialize :: "bool \<Rightarrow> (nat \<times> rect) list \<Rightarrow> comp" where
  "compositor_initialize active screens =
     (let s = \<lparr>c_heap = Map.empty, c_views = [], c_surf = (\<lambda>_. surface_new),
               c_mode = (\<lambda>_. WINDOW_MODE_STACKED), c_damage = [], c_opaque = [], c_pending = 0,
               c_sched = 0, c_updating = False, c_init = False, c_active = active,
               c_screens = screens, c_zoom = 1,
               c_overlay = \<lparr>ov_active = False, ov_rect = \<lparr>r_x = 0, r_y = 0, r_w = 0, r_h = 0\<rparr>,
                            ov_color = 0, ov_border = 0\<rparr>,
               c_idle = 0, c_notes = []\<rparr>
      in (if active then schedule_updates (-1) s else s)\<lparr>c_init := True\<rparr>)"

text \<open>A desktop with one 1920x1080 screen and the views given, all linked, topmost first: the
  concrete input of the witnesses.\<close>

definition desktop :: "(addr \<times> cview) list \<Rightarrow> comp" where
  "desktop vs = (compositor_initialize True [(0, \<lparr>r_x = 0, r_y = 0, r_w = 1920, r_h = 1080\<rparr>)])
     \<lparr>c_heap := map_of vs, c_views := map fst vs\<rparr>"

definition window_at :: "addr \<Rightarrow> i32 \<Rightarrow> i32 \<Rightarrow> u32 \<Rightarrow> u32 \<Rightarrow> cview" where
  "window_at n x y w h = (initial_view n)
     \<lparr>v_geom := \<lparr>r_x = x, r_y = y, r_w = w, r_h = h\<rparr>, v_buffer := Some (w, h), v_screens := 1,
      v_window := Some n, v_visible := True,
      v_extents := \<lparr>b_x1 = sint x, b_y1 = sint y, b_x2 = sint x + uint w, b_y2 = sint y + uint h\<rparr>\<rparr>"

theorem view_move_damages_old_and_new_witness:
  "let s = desktop [(7, window_at 7 100 100 200 200)]
   in in_region (c_damage (view_move 7 500 100 s)) 100 100 \<and>
      in_region (c_damage (view_move 7 500 100 s)) 650 100"
proof -
  let ?s = "desktop [(7, window_at 7 100 100 200 200)]"
  have l: "c_heap ?s 7 \<noteq> None" "v_visible (cv ?s 7)" by (simp_all add: desktop_def window_at_def cv_def)
  have "in_box (v_extents (cv ?s 7)) 100 100"
    by (simp add: desktop_def window_at_def cv_def in_box_def)
  moreover have "in_box (extents_of ((cv ?s 7)\<lparr>v_geom := (v_geom (cv ?s 7))\<lparr>r_x := 500, r_y := 100\<rparr>\<rparr>)) 650 100"
    "500 \<noteq> r_x (v_geom (cv ?s 7))" by code_simp+
  ultimately show ?thesis
    using view_move_damages_old_and_new[OF l, of 100 100 500 100]
      view_move_damages_old_and_new[OF l, of 650 100 500 100] unfolding Let_def by blast
qed

text \<open>when a client commits a buffer of another size, the extents of its view are computed
  while the view still holds the old buffer: with a window geometry set, the margin of the new
  buffer around the window (its shadow) is left out of the extents, and of every damage computed
  from them.\<close>

theorem view_attach_stale_extents:
  assumes "c_heap s v \<noteq> None" "0 \<le> r" "v_surface (cv s v) = Some f"
    and "sf_has_wg (c_surf s f)" "0 < sint (sf_ww (c_surf s f))" "0 < sint (sf_wh (c_surf s f))"
    and "sf_ww (c_surf s f) \<noteq> r_w (v_geom (cv s v)) \<or> sf_wh (c_surf s f) \<noteq> r_h (v_geom (cv s v))"
  shows "let sf = c_surf s f; old = cv s v; x = cv (snd (view_attach r v (Some b) s)) v;
             g = (v_geom old)\<lparr>r_w := sf_ww sf, r_h := sf_wh sf\<rparr>
         in v_buffer x = Some b \<and> v_geom x = g \<and> v_off_x x = sf_wx sf \<and> v_off_y x = sf_wy sf \<and>
            v_extents x = view_extents g (v_border old) (v_decor old) (sf_wx sf) (sf_wy sf) (v_buffer old)"
proof -
  let ?sf = "c_surf s f"
  let ?s1 = "upd v (\<lambda>x. x\<lparr>v_off_x := sf_wx ?sf, v_off_y := sf_wy ?sf\<rparr>) (update_only v s)"
  let ?s2 = "notify v (NResize (r_w (v_geom (cv s v))) (r_h (v_geom (cv s v))))
    (upd v (\<lambda>w. w\<lparr>v_geom := (v_geom w)\<lparr>r_w := sf_ww ?sf, r_h := sf_wh ?sf\<rparr>\<rparr>) ?s1)"
  obtain bw bh where b: "b = (bw, bh)" by force
  have h: "c_heap ?s1 v \<noteq> None" "c_heap ?s2 v \<noteq> None" using assms(1) by simp_all
  have sz: "view_set_size v (sf_ww ?sf) (sf_wh ?sf) ?s1 = (True, ?s2)"
    using assms(1,7) by (auto simp: view_set_size_def Let_def)
  let ?s3 = "update_extents v ?s2"
  have "\<exists>d. attach r v (Some b) s = (0, if v_visible (cv s v)
      then update_only v (view_update_screens v (add_damage d ?s3)) else ?s3)"
    using assms(1-6) h sz
    by (cases "v_visible (cv s v)") (simp_all add: attach_def Let_def b update_extents_def, blast)
  then obtain d where a: "attach r v (Some b) s = (0, if v_visible (cv s v)
      then update_only v (view_update_screens v (add_damage d ?s3)) else ?s3)" by blast
  have e: "cv (snd (view_attach r v (Some b) s)) v = (cv (snd (attach r v (Some b) s)) v)\<lparr>v_buffer := Some b\<rparr>"
    using h by (simp add: view_attach_def a update_extents_def)
  have k: "v_extents (cv (snd (attach r v (Some b) s)) v) = v_extents (cv ?s3 v)"
    "v_geom (cv (snd (attach r v (Some b) s)) v) = v_geom (cv ?s3 v)"
    "v_border (cv (snd (attach r v (Some b) s)) v) = v_border (cv ?s3 v)"
    "v_decor (cv (snd (attach r v (Some b) s)) v) = v_decor (cv ?s3 v)"
    "v_off_x (cv (snd (attach r v (Some b) s)) v) = v_off_x (cv ?s3 v)"
    "v_off_y (cv (snd (attach r v (Some b) s)) v) = v_off_y (cv ?s3 v)"
    using h by (simp_all add: a update_extents_def view_update_screens_def view_set_screens_def Let_def)
  show ?thesis
    using h assms(1) unfolding Let_def e
    by (simp add: k) (simp add: update_extents_def)
qed

theorem view_attach_stale_extents_witness:
  "let s = (desktop [(7, window_at 7 100 100 200 200)])
             \<lparr>c_surf := (\<lambda>_. surface_new)(7 := surface_new\<lparr>sf_has_wg := True, sf_wx := 10, sf_wy := 10,
                                            sf_ww := 380, sf_wh := 380\<rparr>)\<rparr>;
       x = cv (snd (view_attach 0 7 (Some (400, 400)) s)) 7
   in b_x2 (v_extents x) = 480 \<and>
      sint (r_x (v_geom x)) - sint (v_off_x x) + uint (fst (the (v_buffer x))) = 490"
proof -
  let ?s = "(desktop [(7, window_at 7 100 100 200 200)])
             \<lparr>c_surf := (\<lambda>_. surface_new)(7 := surface_new\<lparr>sf_has_wg := True, sf_wx := 10, sf_wy := 10,
                                            sf_ww := 380, sf_wh := 380\<rparr>)\<rparr>"
  have c: "cv ?s 7 = window_at 7 100 100 200 200" by (simp add: desktop_def cv_def)
  have "c_heap ?s 7 \<noteq> None" "(0::int) \<le> 0" "v_surface (cv ?s 7) = Some 7"
    "sf_has_wg (c_surf ?s 7)" "0 < sint (sf_ww (c_surf ?s 7))" "0 < sint (sf_wh (c_surf ?s 7))"
    "sf_ww (c_surf ?s 7) \<noteq> r_w (v_geom (cv ?s 7)) \<or> sf_wh (c_surf ?s 7) \<noteq> r_h (v_geom (cv ?s 7))"
    unfolding c by (simp_all add: desktop_def window_at_def initial_view_def)
  from view_attach_stale_extents[OF this, of "(400, 400)"] show ?thesis
    unfolding c by (simp add: Let_def view_extents_def clamp_i32_def window_at_def initial_view_def)
qed

theorem calculate_damage_occlusion_witness:
  "let s = (desktop [(7, window_at 7 0 0 100 100), (8, window_at 8 50 50 100 100)])
             \<lparr>c_surf := (\<lambda>_. surface_new\<lparr>sf_opaque := [\<lparr>b_x1 = 0, b_y1 = 0, b_x2 = 100, b_y2 = 100\<rparr>]\<rparr>)\<rparr>
   in in_region (v_clip (cv (calculate_damage s) 8)) 60 60 \<and>
      \<not> in_region (v_clip (cv (calculate_damage s) 8)) 120 60"
proof -
  let ?s = "(desktop [(7, window_at 7 0 0 100 100), (8, window_at 8 50 50 100 100)])
             \<lparr>c_surf := (\<lambda>_. surface_new\<lparr>sf_opaque := [\<lparr>b_x1 = 0, b_y1 = 0, b_x2 = 100, b_y2 = 100\<rparr>]\<rparr>)\<rparr>"
  have "distinct (c_views ?s)" "\<forall>w\<in>set (c_views ?s). c_heap ?s w \<noteq> None"
    "c_views ?s = [7] @ 8 # []" "v_visible (cv ?s 8)"
    by (simp_all add: desktop_def window_at_def cv_def)
  note t = calculate_damage_occlusion[OF this]
  have "v_visible (cv ?s 7)" "in_region (surface_opaque ?s 7) 60 60"
    "\<not> in_region (surface_opaque ?s 7) 120 60" "\<not> in_region (clipped_away ?s 8) 120 60" by code_simp+
  then show ?thesis by (simp add: Let_def t)
qed

end
