(* ===== verification/Surface.thy ===== *)
theory Surface
  imports Compositor
begin

text \<open>
  \<open>libswc/surface.c\<close>: the double-buffered state of a \<open>wl_surface\<close>, its view, and the render
  hold that keeps a window's commits off the screen until its cohort is complete.

  A request of the client updates the pending state; \<open>commit\<close> applies it to the current state
  and, unless the surface is held, to the view. Subsurface stacking and the recursion of a commit
  into synchronized subsurfaces (\<open>libswc/subsurface.c\<close>) are not modelled.
\<close>

abbreviation (input) SURFACE_COMMIT_ATTACH :: u32 where "SURFACE_COMMIT_ATTACH \<equiv> 1"
abbreviation (input) SURFACE_COMMIT_DAMAGE :: u32 where "SURFACE_COMMIT_DAMAGE \<equiv> 2"
abbreviation (input) SURFACE_COMMIT_OPAQUE :: u32 where "SURFACE_COMMIT_OPAQUE \<equiv> 4"
abbreviation (input) SURFACE_COMMIT_INPUT :: u32 where "SURFACE_COMMIT_INPUT \<equiv> 8"
abbreviation (input) SURFACE_COMMIT_FRAME :: u32 where "SURFACE_COMMIT_FRAME \<equiv> 16"

definition upd_surf :: "addr \<Rightarrow> (csurface \<Rightarrow> csurface) \<Rightarrow> 'a comp_scheme \<Rightarrow> 'a comp_scheme" where
  "upd_surf f g s = s\<lparr>c_surf := (c_surf s)(f := g (c_surf s f))\<rparr>"

subsection \<open>Requests of the client\<close>

definition sf_attach :: "(u32 \<times> u32) option \<Rightarrow> csurface \<Rightarrow> csurface" where
  "sf_attach buffer f =
     f\<lparr>sf_p_commit := sf_p_commit f OR SURFACE_COMMIT_ATTACH, sf_p_buffer := buffer\<rparr>"

definition sf_damage_request :: "i32 \<Rightarrow> i32 \<Rightarrow> i32 \<Rightarrow> i32 \<Rightarrow> csurface \<Rightarrow> csurface" where
  "sf_damage_request x y w h f =
     f\<lparr>sf_p_commit := sf_p_commit f OR SURFACE_COMMIT_DAMAGE,
       sf_p_damage := union_rect (sf_p_damage f) (sint x) (sint y) (uint w) (uint h)\<rparr>"

definition sf_frame :: "addr \<Rightarrow> csurface \<Rightarrow> csurface" where
  "sf_frame callback f =
     f\<lparr>sf_p_commit := sf_p_commit f OR SURFACE_COMMIT_FRAME,
       sf_p_frames := sf_p_frames f @ [callback]\<rparr>"

definition sf_set_opaque_region :: "region option \<Rightarrow> csurface \<Rightarrow> csurface" where
  "sf_set_opaque_region r f =
     f\<lparr>sf_p_commit := sf_p_commit f OR SURFACE_COMMIT_OPAQUE,
       sf_p_opaque := (case r of Some r \<Rightarrow> r | None \<Rightarrow> [])\<rparr>"

definition sf_set_input_region :: "region option \<Rightarrow> csurface \<Rightarrow> csurface" where
  "sf_set_input_region r f =
     f\<lparr>sf_p_commit := sf_p_commit f OR SURFACE_COMMIT_INPUT,
       sf_p_input := (case r of Some r \<Rightarrow> r | None \<Rightarrow> infinite_region)\<rparr>"

definition trim_region :: "region \<Rightarrow> (u32 \<times> u32) option \<Rightarrow> region" where
  "trim_region r buffer =
     (case buffer of
        None \<Rightarrow> []
      | Some (w, h) \<Rightarrow> region_inter r (union_rect [] 0 0 (uint w) (uint h)))"

subsection \<open>Applying a commit\<close>

text \<open>\<open>surface_apply_pending\<close> up to the point where the pending state is used up, first on the
  surface alone.\<close>

definition apply_state :: "csurface \<Rightarrow> csurface" where
  "apply_state f =
     (let has = (\<lambda>b. sf_p_commit f AND b \<noteq> 0);
          f = (if has SURFACE_COMMIT_ATTACH then f\<lparr>sf_buffer := sf_p_buffer f\<rparr> else f);
          f = (if has SURFACE_COMMIT_DAMAGE
               then f\<lparr>sf_damage := sf_damage f @ sf_p_damage f, sf_p_damage := []\<rparr> else f);
          f = (if has SURFACE_COMMIT_OPAQUE then f\<lparr>sf_opaque := sf_p_opaque f\<rparr> else f);
          f = (if has SURFACE_COMMIT_INPUT then f\<lparr>sf_input := sf_p_input f\<rparr> else f);
          f = (if has SURFACE_COMMIT_FRAME
               then f\<lparr>sf_frames := sf_p_frames f @ sf_frames f, sf_p_frames := []\<rparr> else f)
      in f\<lparr>sf_damage := trim_region (sf_damage f) (sf_buffer f),
           sf_opaque := trim_region (sf_opaque f) (sf_buffer f)\<rparr>)"

text \<open>\<open>r\<close> is the result of \<open>renderer_attach\<close>, should the view take the buffer.\<close>

definition surface_apply_pending :: "int \<Rightarrow> addr \<Rightarrow> 'a comp_scheme \<Rightarrow> 'a comp_scheme" where
  "surface_apply_pending r f s =
     (let attach = (sf_p_commit (c_surf s f) AND SURFACE_COMMIT_ATTACH \<noteq> 0);
          s = upd_surf f apply_state s;
          sf = c_surf s f;
          s = (case sf_view sf of
                 None \<Rightarrow> s
               | Some v \<Rightarrow>
                   if sf_held sf
                   then upd_surf f (\<lambda>x. x\<lparr>sf_hold_attach := attach \<or> sf_hold_attach x,
                                          sf_hold_update := True\<rparr>) s
                   else update_only v (if attach then snd (view_attach r v (sf_buffer sf) s) else s))
      in upd_surf f (\<lambda>x. x\<lparr>sf_p_commit := 0\<rparr>) s)"

text \<open>\<open>handle_frame\<close>: the frame callbacks are sent and forgotten.\<close>

definition sf_handle_frame :: "csurface \<Rightarrow> addr list \<times> csurface" where
  "sf_handle_frame f = (sf_frames f, f\<lparr>sf_frames := []\<rparr>)"

subsection \<open>The view of a surface\<close>

definition surface_set_view :: "int \<Rightarrow> addr \<Rightarrow> addr option \<Rightarrow> 'a comp_scheme \<Rightarrow> 'a comp_scheme" where
  "surface_set_view r f view s =
     (if sf_view (c_surf s f) = view then s
      else
        let s = upd_surf f (\<lambda>x. x\<lparr>sf_view := view\<rparr>) s
        in case view of
             None \<Rightarrow> s
           | Some v \<Rightarrow>
               if sf_held (c_surf s f)
               then upd_surf f (\<lambda>x. x\<lparr>sf_hold_attach := True, sf_hold_update := True\<rparr>) s
               else update_only v (snd (view_attach r v (sf_buffer (c_surf s f)) s)))"

definition surface_committed_size :: "csurface \<Rightarrow> (u32 \<times> u32) option" where
  "surface_committed_size f =
     (case sf_buffer f of
        None \<Rightarrow> None
      | Some (w, h) \<Rightarrow>
          if sf_has_wg f \<and> 0 < sint (sf_ww f) \<and> 0 < sint (sf_wh f)
          then Some (sf_ww f, sf_wh f) else Some (w, h))"

subsection \<open>The render hold\<close>

text \<open>A hold covers the tree of subsurfaces; \<open>n\<close> bounds its depth.\<close>

fun surface_hold_render :: "nat \<Rightarrow> addr \<Rightarrow> 'a comp_scheme \<Rightarrow> 'a comp_scheme" where
  "surface_hold_render 0 f s = s"
| "surface_hold_render (Suc n) f s =
     (if sf_held (c_surf s f) then s
      else
        let s = upd_surf f (\<lambda>x. x\<lparr>sf_held := True\<rparr>) s
        in fold (surface_hold_render n) (sf_children (c_surf s f)) s)"

fun surface_release_render :: "(addr \<Rightarrow> int) \<Rightarrow> nat \<Rightarrow> addr \<Rightarrow> 'a comp_scheme \<Rightarrow> 'a comp_scheme" where
  "surface_release_render r 0 f s = s"
| "surface_release_render r (Suc n) f s =
     (if \<not> sf_held (c_surf s f) then s
      else
        let s = fold (surface_release_render r n) (sf_children (c_surf s f)) s;
            attach = sf_hold_attach (c_surf s f); update = sf_hold_update (c_surf s f);
            s = upd_surf f (\<lambda>x. x\<lparr>sf_held := False, sf_hold_attach := False,
                                  sf_hold_update := False\<rparr>) s
        in case sf_view (c_surf s f) of
             None \<Rightarrow> s
           | Some v \<Rightarrow>
               let s = (if attach then snd (view_attach (r v) v (sf_buffer (c_surf s f)) s) else s)
               in if update then update_only v s else s)"

subsection \<open>Commits and holds together\<close>

lemma upd_surf_frame [simp]:
  "c_heap (upd_surf f g s) = c_heap s" "c_views (upd_surf f g s) = c_views s"
  "c_damage (upd_surf f g s) = c_damage s" "c_sched (upd_surf f g s) = c_sched s"
  "c_idle (upd_surf f g s) = c_idle s" "c_notes (upd_surf f g s) = c_notes s"
  "c_active (upd_surf f g s) = c_active s" "c_screens (upd_surf f g s) = c_screens s"
  "c_zoom (upd_surf f g s) = c_zoom s" "c_pending (upd_surf f g s) = c_pending s"
  "comp.more (upd_surf f g s) = comp.more s"
  "c_updating (upd_surf f g s) = c_updating s" "c_mode (upd_surf f g s) = c_mode s"
  "cv (upd_surf f g s) = cv s"
  "c_surf (upd_surf f g s) f' = (if f' = f then g (c_surf s f) else c_surf s f')"
  by (simp_all add: upd_surf_def cv_def fun_eq_iff)

lemma requests_upd_surf [request_intros]: "requests s t \<Longrightarrow> requests s (upd_surf f g t)"
  by (erule requests_trans) (simp add: requests_same)

lemma requests_apply_pending [request_intros]:
  "requests s t \<Longrightarrow> requests s (surface_apply_pending r f t)"
  unfolding surface_apply_pending_def Let_def
  by (auto split: option.split intro!: request_intros)

lemma requests_set_view [request_intros]:
  "requests s t \<Longrightarrow> requests s (surface_set_view r f v t)"
  unfolding surface_set_view_def Let_def
  by (auto split: option.split intro!: request_intros)

lemma requests_hold [request_intros]:
  "requests s t \<Longrightarrow> requests s (surface_hold_render n f t)"
proof (induction n arbitrary: f t)
  case (Suc n)
  then show ?case by (auto simp: Let_def intro!: request_intros requests_fold)
qed simp

lemma requests_release [request_intros]:
  "requests s t \<Longrightarrow> requests s (surface_release_render r n f t)"
proof (induction n arbitrary: f t)
  case (Suc n)
  have "requests s (fold (surface_release_render r n) xs t)" for xs
    using Suc by (intro requests_fold) auto
  with Suc.prems show ?case
    by (auto simp: Let_def split: option.split intro!: request_intros)
qed simp

lemma view_set_size_frame [simp]:
  "c_surf (snd (view_set_size v w h s)) = c_surf s"
  "(c_heap (snd (view_set_size v w h s)) u = None) = (c_heap s u = None)"
  by (simp_all add: view_set_size_def Let_def)

lemma view_screens_surf [simp]:
  "c_surf (view_update_screens v s) = c_surf s"
  by (simp add: view_update_screens_def view_set_screens_def Let_def)

lemma attach_frame [simp]:
  "c_surf (snd (attach r v b s)) = c_surf s"
  "(c_heap (snd (attach r v b s)) u = None) = (c_heap s u = None)"
  unfolding attach_def Let_def update_extents_def
  by (simp_all only: case_prod_beta) simp_all

lemma attach_result: "fst (attach r v b s) < 0 \<longleftrightarrow> r < 0"
  unfolding attach_def Let_def by (simp only: case_prod_beta) simp

lemma view_attach_frame [simp]:
  "c_surf (snd (view_attach r v b s)) = c_surf s"
  "(c_heap (snd (view_attach r v b s)) u = None) = (c_heap s u = None)"
  by (simp_all add: view_attach_def Let_def split: prod.split)
     (metis attach_frame snd_conv)+

lemma view_attach_live [simp]:
  "(\<exists>y. c_heap (snd (view_attach r v b s)) u = Some y) = (\<exists>y. c_heap s u = Some y)"
  using view_attach_frame(2)[of r v b s u] by (metis not_None_eq)

lemma view_attach_buffer [simp]:
  assumes "0 \<le> r" "c_heap s v \<noteq> None"
  shows "v_buffer (cv (snd (view_attach r v b s)) v) = b"
proof -
  obtain ret t where a: "attach r v b s = (ret, t)" by force
  have "\<not> ret < 0" "c_heap t v \<noteq> None"
    using assms attach_result[of r v b s] attach_frame(2)[of r v b s v] a by auto
  then show ?thesis by (simp add: view_attach_def a)
qed

datatype surface_request =
    Attach "(u32 \<times> u32) option" | Damage i32 i32 i32 i32 | Frame addr
  | SetOpaque "region option" | SetInput "region option" | Commit | Hold | Release

text \<open>What the client and the window manager can do to a surface; a surface without subsurfaces
  has depth 1.\<close>

fun surface_step :: "int \<Rightarrow> addr \<Rightarrow> surface_request \<Rightarrow> 'a comp_scheme \<Rightarrow> 'a comp_scheme" where
  "surface_step r f (Attach b) s = upd_surf f (sf_attach b) s"
| "surface_step r f (Damage x y w h) s = upd_surf f (sf_damage_request x y w h) s"
| "surface_step r f (Frame c) s = upd_surf f (sf_frame c) s"
| "surface_step r f (SetOpaque a) s = upd_surf f (sf_set_opaque_region a) s"
| "surface_step r f (SetInput a) s = upd_surf f (sf_set_input_region a) s"
| "surface_step r f Commit s = surface_apply_pending r f s"
| "surface_step r f Hold s = surface_hold_render 1 f s"
| "surface_step r f Release s = surface_release_render (\<lambda>_. r) 1 f s"

definition surface_sync :: "addr \<Rightarrow> addr \<Rightarrow> 'a comp_scheme \<Rightarrow> bool" where
  "surface_sync f v s \<longleftrightarrow>
     c_heap s v \<noteq> None \<and> sf_view (c_surf s f) = Some v \<and> sf_children (c_surf s f) = [] \<and>
     (sf_hold_attach (c_surf s f) \<longrightarrow> sf_held (c_surf s f)) \<and>
     (\<not> sf_hold_attach (c_surf s f) \<longrightarrow> v_buffer (cv s v) = sf_buffer (c_surf s f))"

lemma apply_state_keeps [simp]:
  "sf_view (apply_state x) = sf_view x" "sf_children (apply_state x) = sf_children x"
  "sf_held (apply_state x) = sf_held x" "sf_hold_attach (apply_state x) = sf_hold_attach x"
  "sf_hold_update (apply_state x) = sf_hold_update x"
  "sf_buffer (apply_state x) =
     (if sf_p_commit x AND SURFACE_COMMIT_ATTACH \<noteq> 0 then sf_p_buffer x else sf_buffer x)"
  by (simp_all add: apply_state_def Let_def)

lemma surface_step_sync:
  assumes "0 \<le> r" "surface_sync f v s" shows "surface_sync f v (surface_step r f q s)"
  using assms
  by (cases q)
     (auto simp: surface_sync_def sf_attach_def sf_damage_request_def sf_frame_def
       sf_set_opaque_region_def sf_set_input_region_def surface_apply_pending_def
       update_only_frame Let_def)

subsection \<open>Properties\<close>





text \<open>when a buffer is attached, the view takes exactly the size that
  \<open>surface_committed_size\<close> reports to the window manager.\<close>

theorem attach_sizes_agree:
  assumes "c_heap s v \<noteq> None" "0 \<le> r" "v_surface (cv s v) = Some f"
    and "sf_buffer (c_surf s f) = Some b"
  shows "let g = v_geom (cv (snd (view_attach r v (sf_buffer (c_surf s f)) s)) v)
         in surface_committed_size (c_surf s f) = Some (r_w g, r_h g)"
proof -
  let ?sf = "c_surf s f"
  obtain bw bh where b: "b = (bw, bh)" by force
  define wg where "wg = (sf_has_wg ?sf \<and> 0 < sint (sf_ww ?sf) \<and> 0 < sint (sf_wh ?sf))"
  define w where "w = (if wg then sf_ww ?sf else bw)"
  define h where "h = (if wg then sf_wh ?sf else bh)"
  let ?s1 = "upd v (\<lambda>x. x\<lparr>v_off_x := (if wg then sf_wx ?sf else 0), v_off_y := (if wg then sf_wy ?sf else 0)\<rparr>)
               (update_only v s)"
  have live: "c_heap ?s1 v \<noteq> None" using assms(1) by simp
  have g2: "r_w (v_geom (cv (snd (view_set_size v w h ?s1)) v)) = w"
    "r_h (v_geom (cv (snd (view_set_size v w h ?s1)) v)) = h"
    using live by (auto simp: view_set_size_def Let_def)
  obtain res t where vs: "view_set_size v w h ?s1 = (res, t)" by force
  have lt: "c_heap t v \<noteq> None" using live view_set_size_frame(2)[of v w h ?s1 v] vs by simp
  have "v_geom (cv (snd (attach r v (Some b) s)) v) = v_geom (cv t v)"
  proof (cases wg)
    case True
    then have "view_set_size v (sf_ww ?sf) (sf_wh ?sf)
        (upd v (\<lambda>x. x\<lparr>v_off_x := sf_wx ?sf, v_off_y := sf_wy ?sf\<rparr>) (update_only v s)) = (res, t)"
      using vs by (simp add: w_def h_def)
    with True lt assms(1-3) show ?thesis
      by (simp add: attach_def Let_def b wg_def update_extents_def)
  next
    case False
    then have "view_set_size v bw bh
        (upd v (\<lambda>x. x\<lparr>v_off_x := 0, v_off_y := 0\<rparr>) (update_only v s)) = (res, t)"
      using vs by (simp add: w_def h_def)
    with False lt assms(1-3) show ?thesis
      by (auto simp: attach_def Let_def b wg_def update_extents_def)
  qed
  then have "v_geom (cv (snd (attach r v (Some b) s)) v) = v_geom (cv (snd (view_set_size v w h ?s1)) v)"
    by (simp add: vs)
  moreover have "v_geom (cv (snd (view_attach r v (Some b) s)) v) = v_geom (cv (snd (attach r v (Some b) s)) v)"
  proof -
    obtain ret u where a: "attach r v (Some b) s = (ret, u)" by force
    have "\<not> ret < 0" "c_heap u v \<noteq> None"
      using assms(1,2) attach_result[of r v "Some b" s] attach_frame(2)[of r v "Some b" s v] a by auto
    then show ?thesis by (simp add: view_attach_def a)
  qed
  ultimately show ?thesis
    using assms(4) g2 by (simp add: surface_committed_size_def b w_def h_def wg_def Let_def)
qed

theorem attach_sizes_agree_witness:
  "let s = (desktop [(7, window_at 7 0 0 100 100)])
             \<lparr>c_surf := (\<lambda>_. surface_new\<lparr>sf_buffer := Some (300, 200)\<rparr>)\<rparr>;
       g = v_geom (cv (snd (view_attach 0 7 (Some (300, 200)) s)) 7)
   in (r_w g, r_h g) = (300, 200)"
proof -
  let ?s = "(desktop [(7, window_at 7 0 0 100 100)])
             \<lparr>c_surf := (\<lambda>_. surface_new\<lparr>sf_buffer := Some (300, 200)\<rparr>)\<rparr>"
  have "c_heap ?s 7 \<noteq> None" "(0::int) \<le> 0" "v_surface (cv ?s 7) = Some 7"
    "sf_buffer (c_surf ?s 7) = Some (300, 200)"
    by (simp_all add: desktop_def cv_def window_at_def initial_view_def)
  from attach_sizes_agree[OF this] show ?thesis
    by (simp add: Let_def surface_committed_size_def surface_new_def)
qed

end
