(* ===== verification/Stacking.thy ===== *)
theory Stacking
  imports Surface Interfaces
begin

text \<open>
  The stacking order of \<open>libswc/compositor.c\<close>: where a view goes when it is raised, lowered,
  restacked or moved to another layer, which window is found under the pointer, and the functions
  of \<open>swc.h\<close> built on them. \<open>c_views\<close> is the order, topmost first; the layers are those of
  \<open>enum swc_stack_layer\<close>.
\<close>

subsection \<open>Placing a view in its layer\<close>

abbreviation layer_of :: "'a comp_scheme \<Rightarrow> addr \<Rightarrow> u32" where
  "layer_of s v \<equiv> v_layer (cv s v)"

text \<open>The loop of \<open>restack_view_for_layer\<close>: \<open>prev\<close> is \<open>other->link.prev\<close>, and the result is
  \<open>insert_after\<close> with \<open>found_same\<close>.\<close>

fun restack_scan :: "'a comp_scheme \<Rightarrow> addr \<Rightarrow> bool \<Rightarrow> addr option \<Rightarrow> addr option \<Rightarrow> addr list \<Rightarrow>
    addr option \<times> bool" where
  "restack_scan s v raise prev pos [] = (pos, False)"
| "restack_scan s v raise prev pos (other # xs) =
     (if other = v then restack_scan s v raise (Some other) pos xs
      else if layer_of s v < layer_of s other
      then restack_scan s v raise (Some other) (Some other) xs
      else if layer_of s other = layer_of s v
      then (if raise then prev else Some other, True)
      else (prev, False))"

definition restack_view_for_layer :: "addr \<Rightarrow> bool \<Rightarrow> 'a comp_scheme \<Rightarrow> 'a comp_scheme" where
  "restack_view_for_layer v raise s =
     (let views = c_views s;
          (pos, found_same) = restack_scan s v raise None None views;
          pos =
            (if \<not> found_same \<and> \<not> raise \<and> pos = None
             then (if last_link views = Some v then link_prev v views else last_link views)
             else pos);
          pos = (if pos = Some v then link_prev v views else pos)
      in s\<lparr>c_views := link_after pos v (remove1 v views)\<rparr>)"

definition redraw_restacked :: "addr \<Rightarrow> 'a comp_scheme \<Rightarrow> 'a comp_scheme" where
  "redraw_restacked v s =
     (let s = damage_view v s in schedule_updates (v_screens (cv s v)) s)"

definition compositor_view_set_stack_layer :: "addr \<Rightarrow> u32 \<Rightarrow> bool \<Rightarrow> 'a comp_scheme \<Rightarrow> 'a comp_scheme" where
  "compositor_view_set_stack_layer v layer raise s =
     (if layer_of s v = layer
      then (if raise then redraw_restacked v (restack_view_for_layer v True s) else s)
      else
        let s = damage_view v s;
            s = upd v (\<lambda>x. x\<lparr>v_layer := layer\<rparr>) s
        in redraw_restacked v (restack_view_for_layer v raise s))"

definition raise_window_top :: "addr \<Rightarrow> 'a comp_scheme \<Rightarrow> 'a comp_scheme" where
  "raise_window_top v s =
     redraw_restacked v (restack_view_for_layer v True
       (upd v (\<lambda>x. x\<lparr>v_layer := STACK_LAYER_OVERLAY\<rparr>) s))"

text \<open>The functions of \<open>swc.h\<close>. Their argument is the view of the window, \<open>None\<close> when there
  is no window or it has no view.\<close>

definition swc_window_set_stack_layer :: "addr option \<Rightarrow> u32 \<Rightarrow> 'a comp_scheme \<Rightarrow> 'a comp_scheme" where
  "swc_window_set_stack_layer view layer s =
     (case view of None \<Rightarrow> s | Some v \<Rightarrow> compositor_view_set_stack_layer v layer True s)"

definition swc_window_raise :: "addr option \<Rightarrow> 'a comp_scheme \<Rightarrow> 'a comp_scheme" where
  "swc_window_raise view s =
     (case view of None \<Rightarrow> s | Some v \<Rightarrow> redraw_restacked v (restack_view_for_layer v True s))"

definition swc_window_lower :: "addr option \<Rightarrow> 'a comp_scheme \<Rightarrow> 'a comp_scheme" where
  "swc_window_lower view s =
     (case view of None \<Rightarrow> s | Some v \<Rightarrow> redraw_restacked v (restack_view_for_layer v False s))"

text \<open>A shell surface is a view without a window; \<open>None\<close> is \<open>NULL\<close>.\<close>

definition swc_shell_surface_set_stack_layer :: "addr option \<Rightarrow> u32 \<Rightarrow> 'a comp_scheme \<Rightarrow> 'a comp_scheme" where
  "swc_shell_surface_set_stack_layer shell layer s =
     (case shell of None \<Rightarrow> s | Some v \<Rightarrow> compositor_view_set_stack_layer v layer True s)"

definition swc_shell_surface_raise :: "addr option \<Rightarrow> 'a comp_scheme \<Rightarrow> 'a comp_scheme" where
  "swc_shell_surface_raise shell s =
     (case shell of None \<Rightarrow> s | Some v \<Rightarrow> redraw_restacked v (restack_view_for_layer v True s))"

definition swc_shell_surface_lower :: "addr option \<Rightarrow> 'a comp_scheme \<Rightarrow> 'a comp_scheme" where
  "swc_shell_surface_lower shell s =
     (case shell of None \<Rightarrow> s | Some v \<Rightarrow> redraw_restacked v (restack_view_for_layer v False s))"

definition swc_shell_surface_set_position :: "addr option \<Rightarrow> i32 \<Rightarrow> i32 \<Rightarrow> 'a comp_scheme \<Rightarrow> 'a comp_scheme" where
  "swc_shell_surface_set_position shell x y s =
     (case shell of None \<Rightarrow> s | Some v \<Rightarrow> view_move v x y s)"

subsection \<open>Restacking against a sibling\<close>

text \<open>\<open>damage_views\<close> damages the extents of both views through \<open>pixman_region32_union_rect\<close>.\<close>

definition damage_span :: "addr \<Rightarrow> 'a comp_scheme \<Rightarrow> 'a comp_scheme" where
  "damage_span v s =
     (let e = v_extents (cv s v)
      in s\<lparr>c_damage := union_rect (c_damage s) (b_x1 e) (b_y1 e)
                         (span_u32 (b_x1 e) (b_x2 e)) (span_u32 (b_y1 e) (b_y2 e))\<rparr>)"

definition damage_views :: "addr \<Rightarrow> addr option \<Rightarrow> 'a comp_scheme \<Rightarrow> 'a comp_scheme" where
  "damage_views a b s =
     (let dmg = (\<lambda>v s. damage_span v (upd v (\<lambda>x. x\<lparr>v_dmg1 := True, v_dmg2 := True\<rparr>) s));
          screens = v_screens (cv s a) OR (case b of None \<Rightarrow> 0 | Some b \<Rightarrow> v_screens (cv s b));
          s = dmg a s;
          s = (case b of None \<Rightarrow> s | Some b \<Rightarrow> dmg b s)
      in schedule_updates screens s)"

definition compositor_view_restack :: "addr option \<Rightarrow> addr option \<Rightarrow> bool \<Rightarrow> 'a comp_scheme \<Rightarrow> 'a comp_scheme" where
  "compositor_view_restack view sibling abv s =
     (case (view, sibling) of
        (Some v, Some b) \<Rightarrow>
          if v = b then s
          else if abv then
            (if link_next v (c_views s) = Some b then s
             else damage_views v (Some b)
                    (s\<lparr>c_views := insert_before b v (remove1 v (c_views s))\<rparr>))
          else
            (if link_prev v (c_views s) = Some b then s
             else damage_views v (Some b)
                    (s\<lparr>c_views := insert_after b v (remove1 v (c_views s))\<rparr>))
      | _ \<Rightarrow> s)"

definition swc_window_restack :: "addr option \<Rightarrow> addr option \<Rightarrow> bool \<Rightarrow> 'a comp_scheme \<Rightarrow> 'a comp_scheme" where
  "swc_window_restack = compositor_view_restack"

definition is_window_view :: "'a comp_scheme \<Rightarrow> addr \<Rightarrow> bool" where
  "is_window_view s v \<longleftrightarrow> v_visible (cv s v) \<and> v_window (cv s v) \<noteq> None"

text \<open>The nearest visible window above and below a view.\<close>

definition prev_window_view :: "addr \<Rightarrow> 'a comp_scheme \<Rightarrow> addr option" where
  "prev_window_view v s =
     List.find (is_window_view s) (rev (takeWhile (\<lambda>x. x \<noteq> v) (c_views s)))"

definition next_window_view :: "addr \<Rightarrow> 'a comp_scheme \<Rightarrow> addr option" where
  "next_window_view v s =
     List.find (is_window_view s) (tl (dropWhile (\<lambda>x. x \<noteq> v) (c_views s)))"

definition swc_window_stack :: "addr option \<Rightarrow> i32 \<Rightarrow> 'a comp_scheme \<Rightarrow> 'a comp_scheme" where
  "swc_window_stack view direction s =
     (case view of
        None \<Rightarrow> s
      | Some v \<Rightarrow>
          if \<not> v_visible (cv s v) \<or> direction = 0 then s
          else if sint direction < 0 then
            (case prev_window_view v s of
               None \<Rightarrow> s
             | Some b \<Rightarrow> damage_views v (Some b)
                          (s\<lparr>c_views := insert_before b v (remove1 v (c_views s))\<rparr>))
          else
            (case next_window_view v s of
               None \<Rightarrow> s
             | Some b \<Rightarrow> damage_views v (Some b)
                          (s\<lparr>c_views := insert_after b v (remove1 v (c_views s))\<rparr>)))"

subsection \<open>Finding and raising windows\<close>

definition view_hit :: "'a comp_scheme \<Rightarrow> i32 \<Rightarrow> i32 \<Rightarrow> addr \<Rightarrow> bool" where
  "view_hit s x y v \<longleftrightarrow>
     (let w = cv s v; g = v_geom w;
          inside = (if v_window w \<noteq> None then rectangle_contains_point g x y
                    else case v_buffer w of
                      Some (bw, bh) \<Rightarrow>
                        rectangle_contains_point \<lparr>r_x = r_x g - v_off_x w, r_y = r_y g - v_off_y w,
                                                  r_w = bw, r_h = bh\<rparr> x y
                    | None \<Rightarrow> rectangle_contains_point g x y)
      in v_visible w \<and> inside \<and>
         in_region (sf_input (c_surf s (the (v_surface w))))
           (sint (x - r_x g + v_off_x w)) (sint (y - r_y g + v_off_y w)))"

definition view_at :: "i32 \<Rightarrow> i32 \<Rightarrow> 'a comp_scheme \<Rightarrow> addr option" where
  "view_at x y s = List.find (view_hit s x y) (c_views s)"

text \<open>\<open>window_view\<close> walks up the parents to a view with a window. The result is \<open>None\<close> when the
  walk does not end or reads a destroyed view, else the view found, if any.\<close>

partial_function (option) window_view :: "'a comp_scheme \<Rightarrow> addr option \<Rightarrow> addr option option" where
  "window_view s view =
     (case view of
        None \<Rightarrow> Some None
      | Some v \<Rightarrow>
          (case c_heap s v of
             None \<Rightarrow> None
           | Some x \<Rightarrow>
               if v_window x \<noteq> None then Some (Some v)
               else case v_parent x of
                      None \<Rightarrow> Some None
                    | Some p \<Rightarrow> if p = v then Some None else window_view s (Some p)))"

definition swc_window_at :: "i32 \<Rightarrow> i32 \<Rightarrow> 'a comp_scheme \<Rightarrow> addr option option" where
  "swc_window_at x y s =
     map_option (\<lambda>v. case v of None \<Rightarrow> None | Some v \<Rightarrow> v_window (cv s v)) (window_view s (view_at x y s))"

fun raise_scan :: "'a comp_scheme \<Rightarrow> addr \<Rightarrow> addr option \<Rightarrow> addr list \<Rightarrow> addr option" where
  "raise_scan s v pos [] = pos"
| "raise_scan s v pos (other # xs) =
     (if other = v then raise_scan s v pos xs
      else if \<not> v_visible (cv s other) then raise_scan s v pos xs
      else if STACK_LAYER_NORMAL < layer_of s other \<or> v_always_top (cv s other)
      then raise_scan s v (Some other) xs
      else if layer_of s other < STACK_LAYER_NORMAL then pos
      else if v_window (cv s other) \<noteq> None then pos
      else raise_scan s v (Some other) xs)"

text \<open>\<open>raise_window\<close> after its call of \<open>window_view\<close>.\<close>

definition raise_view :: "addr \<Rightarrow> 'a comp_scheme \<Rightarrow> 'a comp_scheme" where
  "raise_view v s =
     (if \<not> v_visible (cv s v) then s
      else
        let screens = v_screens (cv s v);
            s = s\<lparr>c_views := link_after (raise_scan s v None (c_views s)) v (remove1 v (c_views s))\<rparr>;
            s = damage_span v (upd v (\<lambda>x. x\<lparr>v_dmg1 := True\<rparr>) s)
        in schedule_updates screens s)"

definition raise_window :: "addr option \<Rightarrow> 'a comp_scheme \<Rightarrow> 'a comp_scheme option" where
  "raise_window view s =
     (case window_view s view of
        None \<Rightarrow> None
      | Some None \<Rightarrow> Some s
      | Some (Some v) \<Rightarrow> Some (raise_view v s))"

subsection \<open>Where a restacked view ends up\<close>

abbreviation others :: "addr \<Rightarrow> addr list \<Rightarrow> addr list" where
  "others v xs \<equiv> filter (\<lambda>x. x \<noteq> v) xs"

abbreviation above :: "'a comp_scheme \<Rightarrow> addr \<Rightarrow> addr list \<Rightarrow> addr list" where
  "above s v xs \<equiv> takeWhile (\<lambda>x. layer_of s v < layer_of s x) (others v xs)"

abbreviation below :: "'a comp_scheme \<Rightarrow> addr \<Rightarrow> addr list \<Rightarrow> addr list" where
  "below s v xs \<equiv> dropWhile (\<lambda>x. layer_of s v < layer_of s x) (others v xs)"

definition unself :: "addr list \<Rightarrow> addr \<Rightarrow> addr option \<Rightarrow> addr option" where
  "unself views v p = (if p = Some v then link_prev v views else p)"

lemma unself_last:
  assumes "distinct (pre @ xs)"
  shows "unself (pre @ xs) v (last_link pre) = last_link (others v pre)"
proof (cases pre rule: rev_cases)
  case (snoc as a)
  show ?thesis
  proof (cases "a = v")
    case True
    then have "link_prev v (as @ v # xs) = last_link as"
      using assms snoc by (intro link_prev_split) auto
    moreover have "others v as = as" using assms snoc True by (auto simp: filter_id_conv)
    ultimately show ?thesis using snoc True by (simp add: unself_def)
  next
    case False
    then have "unself (pre @ xs) v (last_link pre) = Some a" using snoc by (simp add: unself_def)
    moreover have "others v pre = others v as @ [a]" using snoc False by simp
    ultimately show ?thesis by (metis last_link_simps(2))
  qed
qed (simp add: unself_def)

lemma restack_scan_form:
  assumes "distinct (pre @ xs)"
    and "restack_scan s v raise (last_link pre) (last_link (others v pre)) xs = (p, f)"
  shows "f = (below s v xs \<noteq> [] \<and> layer_of s (hd (below s v xs)) = layer_of s v) \<and>
    (raise \<or> \<not> f \<longrightarrow> unself (pre @ xs) v p = last_link (others v pre @ above s v xs)) \<and>
    (f \<and> \<not> raise \<longrightarrow> p = Some (hd (below s v xs))) \<and>
    (p = None \<and> \<not> f \<and> below s v xs \<noteq> [] \<longrightarrow> hd (pre @ xs) = hd (below s v xs)) \<and>
    (p \<noteq> None \<and> \<not> f \<and> others v pre @ above s v xs = [] \<longrightarrow> v \<in> set (pre @ xs) \<and> hd (pre @ xs) = v)"
  using assms
proof (induction xs arbitrary: pre)
  case Nil
  have "last_link (others v pre) \<noteq> Some v"
    by (auto simp: last_link_def dest: last_in_set)
  with Nil show ?case by (auto simp: unself_def)
next
  case (Cons x xs)
  have ext: "pre @ x # xs = (pre @ [x]) @ xs" by simp
  have IH: "restack_scan s v raise (last_link (pre @ [x])) (last_link (others v (pre @ [x]))) xs = (p, f) \<Longrightarrow> ?case"
    if "x = v \<or> layer_of s v < layer_of s x"
  proof -
    assume sc: "restack_scan s v raise (last_link (pre @ [x])) (last_link (others v (pre @ [x]))) xs = (p, f)"
    have a: "others v (pre @ [x]) @ above s v xs = others v pre @ above s v (x # xs)"
      and b: "below s v (x # xs) = below s v xs" using that by auto
    have d: "distinct ((pre @ [x]) @ xs)" using Cons.prems(1) by simp
    show ?case using Cons.IH[OF d sc] unfolding a b ext by blast
  qed
  show ?case
  proof (cases "x = v")
    case True
    then show ?thesis using Cons.prems(2) by (intro IH) simp_all
  next
    case False
    show ?thesis
    proof (cases "layer_of s v < layer_of s x")
      case True
      have "last_link (others v (pre @ [x])) = Some x" using False by simp
      then show ?thesis using Cons.prems(2) True False by (intro IH) simp_all
    next
      case le: False
      have u: "unself (pre @ x # xs) v (last_link pre) = last_link (others v pre)"
        using Cons.prems(1) by (rule unself_last)
      have h: "v \<in> set (pre @ x # xs) \<and> hd (pre @ x # xs) = v"
        if "last_link pre \<noteq> None" "others v pre = []"
        using that by (cases pre) (auto split: if_splits)
      have A: "above s v (x # xs) = []" and B: "below s v (x # xs) = x # others v xs"
        using False le by simp_all
      show ?thesis
      proof (cases "layer_of s x = layer_of s v")
        case True
        then have "p = (if raise then last_link pre else Some x)" f
          using Cons.prems(2) False le by simp_all
        then show ?thesis unfolding A B using True u by simp
      next
        case ne: False
        then have "p = last_link pre" "\<not> f" using Cons.prems(2) False le by simp_all
        then show ?thesis unfolding A B using ne u h by auto
      qed
    qed
  qed
qed

lemma restack_raise_views:
  assumes "distinct (c_views s)"
  shows "c_views (restack_view_for_layer v True s) =
         above s v (c_views s) @ v # below s v (c_views s)"
proof -
  obtain p f where sc: "restack_scan s v True None None (c_views s) = (p, f)" by force
  have d: "distinct (above s v (c_views s) @ below s v (c_views s))" using assms by simp
  have "unself (c_views s) v p = last_link (above s v (c_views s))"
    using restack_scan_form[of "[]" "c_views s" s v True p f] sc assms by simp
  then have "c_views (restack_view_for_layer v True s) =
      link_after (last_link (above s v (c_views s))) v (above s v (c_views s) @ below s v (c_views s))"
    using sc assms by (simp add: restack_view_for_layer_def unself_def remove1_filter Let_def)
  then show ?thesis using link_after_last[OF d] by simp
qed

lemma restack_lower_views:
  assumes "distinct (c_views s)" "v \<in> set (c_views s)"
  defines "B \<equiv> below s v (c_views s)" and "A \<equiv> above s v (c_views s)"
  shows "c_views (restack_view_for_layer v False s) =
     (if B \<noteq> [] \<and> layer_of s (hd B) = layer_of s v then A @ hd B # v # tl B
      else if A = [] \<and> B \<noteq> [] \<and> hd (c_views s) \<noteq> v then B @ [v]
      else A @ v # B)"
proof -
  obtain p f where sc: "restack_scan s v False None None (c_views s) = (p, f)" by force
  have d: "distinct (A @ B)" using assms by simp
  have rm: "remove1 v (c_views s) = A @ B" using assms by (simp add: remove1_filter)
  have d': "distinct ([] @ c_views s)" using assms(1) by simp
  have sc': "restack_scan s v False (last_link []) (last_link (others v [])) (c_views s) = (p, f)"
    using sc by simp
  note form = restack_scan_form[OF d' sc', folded A_def B_def, unfolded append_Nil filter.simps(1)]
  show ?thesis
  proof (cases f)
    case True
    then have f: "B \<noteq> []" "layer_of s (hd B) = layer_of s v" "p = Some (hd B)" using form by auto
    have "hd B \<in> set (others v (c_views s))" using f(1) unfolding B_def
      by (metis hd_in_set set_dropWhileD)
    then have "hd B \<noteq> v" by simp
    moreover obtain b bs where B: "B = b # bs" using f(1) by (cases B) auto
    ultimately show ?thesis
      using f sc True d rm
      by (simp add: restack_view_for_layer_def link_after_def insert_after_split Let_def)
  next
    case nf: False
    then have u: "unself (c_views s) v p = last_link A" and
      nB: "\<not> (B \<noteq> [] \<and> layer_of s (hd B) = layer_of s v)" using form by auto
    show ?thesis
    proof (cases "p = None")
      case None: True
      then have A: "A = []" using u by (simp add: unself_def)
      show ?thesis
      proof (cases "B = []")
        case True
        then have "c_views s = [v]"
          using rm A assms(1,2) by (metis append_Nil remove1.simps distinct_remove1_removeAll
              removeAll.simps list.exhaust list.set_intros(1) set_ConsD remove1_idem
              empty_iff empty_set remove1_split self_append_conv2)
        then show ?thesis using sc nf None A True
          by (simp add: restack_view_for_layer_def link_prev_def link_after_def last_link_def Let_def)
      next
        case False
        then have hd: "hd (c_views s) = hd B" using form nf None by simp
        have "hd B \<in> set (others v (c_views s))" using False unfolding B_def
          by (metis hd_in_set set_dropWhileD)
        then have nv: "hd (c_views s) \<noteq> v" using hd by simp
        obtain as a where B: "B = as @ [a]" using False by (cases B rule: rev_cases) auto
        have last: "(if last_link (c_views s) = Some v then link_prev v (c_views s)
                     else last_link (c_views s)) = Some a"
        proof -
          have "unself (c_views s @ []) v (last_link (c_views s)) = last_link (others v (c_views s))"
            by (rule unself_last) (use assms(1) in simp)
          also have "others v (c_views s) = B" using A unfolding A_def B_def
            by (metis append_Nil takeWhile_dropWhile_id)
          finally show ?thesis by (simp add: unself_def B)
        qed
        have "a \<noteq> v"
        proof -
          have "a \<in> set (others v (c_views s))" using B unfolding B_def
            by (metis set_dropWhileD in_set_conv_decomp)
          then show ?thesis by simp
        qed
        then have "c_views (restack_view_for_layer v False s) = link_after (Some a) v B"
          using sc nf None last rm A by (simp add: restack_view_for_layer_def Let_def)
        also have "\<dots> = B @ [v]" using d A B by (simp add: link_after_def insert_after_split)
        finally show ?thesis using A False nB nv by simp
      qed
    next
      case Some: False
      have hdv: "A = [] \<Longrightarrow> hd (c_views s) = v" using form nf Some by simp
      have "c_views (restack_view_for_layer v False s) = link_after (last_link A) v (A @ B)"
      proof -
        obtain q where q: "p = Some q" using Some by blast
        show ?thesis
          using sc nf u rm unfolding q by (auto simp: restack_view_for_layer_def unself_def Let_def)
      qed
      then show ?thesis using link_after_last[OF d] nB hdv by auto
    qed
  qed
qed

subsection \<open>The layers as an interface\<close>

lemma layer_upd [simp]:
  "(\<And>x. v_layer (f x) = v_layer x) \<Longrightarrow> layer_of (upd v f s) w = layer_of s w"
  by (cases "c_heap s w") (auto simp: cv_def upd_def)

lemma redraw_frame [simp]:
  "c_views (redraw_restacked v s) = c_views s" "layer_of (redraw_restacked v s) w = layer_of s w"
  "(c_heap (redraw_restacked v s) w = None) = (c_heap s w = None)"
  by (simp_all add: redraw_restacked_def damage_view_def damage_below_view_def Let_def)

lemma restack_frame [simp]:
  "c_heap (restack_view_for_layer v r s) = c_heap s" "cv (restack_view_for_layer v r s) = cv s"
  "c_sched (restack_view_for_layer v r s) = c_sched s" "c_damage (restack_view_for_layer v r s) = c_damage s"
  "c_pending (restack_view_for_layer v r s) = c_pending s" "c_active (restack_view_for_layer v r s) = c_active s"
  "comp.more (restack_view_for_layer v r s) = comp.more s"
  "c_updating (restack_view_for_layer v r s) = c_updating s" "c_idle (restack_view_for_layer v r s) = c_idle s"
  "c_notes (restack_view_for_layer v r s) = c_notes s" "c_surf (restack_view_for_layer v r s) = c_surf s"
  by (simp_all add: restack_view_for_layer_def Let_def cv_def fun_eq_iff split: prod.split)

lemma damage_view_frame [simp]:
  "c_views (damage_view v s) = c_views s" "layer_of (damage_view v s) w = layer_of s w"
  "(c_heap (damage_view v s) w = None) = (c_heap s w = None)"
  by (simp_all add: damage_view_def damage_below_view_def)

lemma swc_window_raise_views:
  "distinct (c_views s) \<Longrightarrow> c_views (swc_window_raise (Some v) s) =
     above s v (c_views s) @ v # below s v (c_views s)"
  by (simp add: swc_window_raise_def restack_raise_views)

interpretation ws: layered_stack c_views "\<lambda>s. layer_of s" "\<lambda>v. swc_window_raise (Some v)"
proof
  show "(\<lambda>w. layer_of (swc_window_raise (Some v) s) w) = (\<lambda>w. layer_of s w)" for v and s :: "'a comp_scheme"
    by (simp add: swc_window_raise_def fun_eq_iff)
  show "distinct (c_views s) \<Longrightarrow> v \<in> set (c_views s) \<Longrightarrow>
      c_views (swc_window_raise (Some v) s) = above s v (c_views s) @ v # below s v (c_views s)"
    for v and s :: "'a comp_scheme" by (rule swc_window_raise_views)
qed

interpretation ss: layered_stack c_views "\<lambda>s. layer_of s" "\<lambda>v. swc_shell_surface_raise (Some v)"
proof
  show "(\<lambda>w. layer_of (swc_shell_surface_raise (Some v) s) w) = (\<lambda>w. layer_of s w)"
    for v and s :: "'a comp_scheme" by (simp add: swc_shell_surface_raise_def fun_eq_iff)
  show "distinct (c_views s) \<Longrightarrow> v \<in> set (c_views s) \<Longrightarrow>
      c_views (swc_shell_surface_raise (Some v) s) = above s v (c_views s) @ v # below s v (c_views s)"
    for v and s :: "'a comp_scheme" by (simp add: swc_shell_surface_raise_def restack_raise_views)
qed

text \<open>The order is sound: no view twice, and no view above one of a higher layer.\<close>

definition layers_ok :: "'a comp_scheme \<Rightarrow> bool" where
  "layers_ok s \<longleftrightarrow> distinct (c_views s) \<and>
     sorted_wrt (\<lambda>a b. layer_of s b \<le> layer_of s a) (c_views s) \<and>
     (\<forall>v\<in>set (c_views s). c_heap s v \<noteq> None)"

lemma layers_ok_layered: "layers_ok s \<Longrightarrow> ws.layered s"
  by (simp add: layers_ok_def ws.layered_def)

datatype stack_request =
    StackRaise addr | StackLower addr | StackSetLayer addr u32 | StackTop addr

fun stack_step :: "stack_request \<Rightarrow> 'a comp_scheme \<Rightarrow> 'a comp_scheme" where
  "stack_step (StackRaise v) s = swc_window_raise (Some v) s"
| "stack_step (StackLower v) s = swc_window_lower (Some v) s"
| "stack_step (StackSetLayer v l) s = swc_window_set_stack_layer (Some v) l s"
| "stack_step (StackTop v) s = raise_window_top v s"

fun stack_target :: "stack_request \<Rightarrow> addr" where
  "stack_target (StackRaise v) = v"
| "stack_target (StackLower v) = v"
| "stack_target (StackSetLayer v l) = v"
| "stack_target (StackTop v) = v"

lemma filter_split_layer:
  fixes f :: "addr \<Rightarrow> u32"
  assumes "sorted_wrt (\<lambda>a b. f b \<le> f a) xs"
  shows "takeWhile (\<lambda>x. r < f x) xs = filter (\<lambda>x. r < f x) xs"
    "dropWhile (\<lambda>x. r < f x) xs = filter (\<lambda>x. f x \<le> r) xs"
  using ws.takeWhile_layered[OF assms] ws.dropWhile_layered[OF assms] by auto

text \<open>Inserting a view below the higher layers keeps the others sorted, whatever layer it had.\<close>

lemma insert_sorted:
  fixes f :: "addr \<Rightarrow> u32"
  assumes "sorted_wrt (\<lambda>a b. f b \<le> f a) xs"
  shows "sorted_wrt (\<lambda>a b. f b \<le> f a)
    (takeWhile (\<lambda>x. f v < f x) xs @ v # dropWhile (\<lambda>x. f v < f x) xs)"
  using assms unfolding filter_split_layer[OF assms]
  by (auto simp: sorted_wrt_append sorted_wrt_filter)

lemma restack_raise_sorted:
  assumes "distinct (c_views s)" "sorted_wrt (\<lambda>a b. layer_of s b \<le> layer_of s a) (others v (c_views s))"
  shows "sorted_wrt (\<lambda>a b. layer_of s b \<le> layer_of s a) (c_views (restack_view_for_layer v True s))"
  unfolding restack_raise_views[OF assms(1)] by (rule insert_sorted[OF assms(2)])

lemma restack_lower_sorted:
  assumes "distinct (c_views s)" "v \<in> set (c_views s)"
    "sorted_wrt (\<lambda>a b. layer_of s b \<le> layer_of s a) (c_views s)"
  shows "sorted_wrt (\<lambda>a b. layer_of s b \<le> layer_of s a) (c_views (restack_view_for_layer v False s))"
proof -
  let ?o = "others v (c_views s)" and ?f = "\<lambda>x. layer_of s x"
  have so: "sorted_wrt (\<lambda>a b. ?f b \<le> ?f a) ?o" using assms(3) by (simp add: sorted_wrt_filter)
  note fs = filter_split_layer[OF so, of "?f v"]
  show ?thesis
  proof (cases "below s v (c_views s) \<noteq> [] \<and> ?f (hd (below s v (c_views s))) = ?f v")
    case True
    then obtain b bs where b: "below s v (c_views s) = b # bs" "?f b = ?f v"
      by (cases "below s v (c_views s)") auto
    have "sorted_wrt (\<lambda>a b. ?f b \<le> ?f a) (above s v (c_views s) @ b # bs)"
      using so unfolding b(1)[symmetric] by simp
    with True b show ?thesis
      unfolding restack_lower_views[OF assms(1,2)]
      by (auto simp: sorted_wrt_append)
  next
    case False
    have hd: "hd (c_views s) = v"
      if "above s v (c_views s) = []" "below s v (c_views s) \<noteq> []"
    proof (rule ccontr)
      assume ne: "hd (c_views s) \<noteq> v"
      then obtain x xs where x: "c_views s = x # xs" "x \<noteq> v" "v \<in> set xs"
        using assms(2) by (cases "c_views s") auto
      then have "?f v \<le> ?f x" using assms(3) by auto
      moreover have "\<not> ?f v < ?f x" using that(1) x by auto
      ultimately have "?f x = ?f v" by simp
      with False that x show False by auto
    qed
    have "sorted_wrt (\<lambda>a b. ?f b \<le> ?f a) (above s v (c_views s) @ v # below s v (c_views s))"
      by (rule insert_sorted[OF so])
    then show ?thesis
      using False hd unfolding restack_lower_views[OF assms(1,2)] by auto
  qed
qed

lemma mset_raise:
  assumes "distinct (c_views s)" "v \<in> set (c_views s)"
  shows "mset (c_views (restack_view_for_layer v True s)) = mset (c_views s)"
proof -
  have "mset (c_views (restack_view_for_layer v True s)) = add_mset v (mset (above s v (c_views s) @ below s v (c_views s)))"
    unfolding restack_raise_views[OF assms(1)] mset_append by simp
  also have "\<dots> = mset (c_views s)"
    using assms by (simp add: remove1_filter[symmetric])
  finally show ?thesis .
qed

lemma mset_lower:
  assumes "distinct (c_views s)" "v \<in> set (c_views s)"
  shows "mset (c_views (restack_view_for_layer v False s)) = mset (c_views s)"
proof -
  define A B where "A = above s v (c_views s)" and "B = below s v (c_views s)"
  have "mset (c_views (restack_view_for_layer v False s)) = add_mset v (mset (A @ B))"
    unfolding restack_lower_views[OF assms] A_def[symmetric] B_def[symmetric]
    by (cases B) auto
  then have "mset (c_views (restack_view_for_layer v False s)) =
      add_mset v (mset (above s v (c_views s) @ below s v (c_views s)))"
    unfolding A_def B_def .
  also have "\<dots> = mset (c_views s)"
    using assms by (simp only: takeWhile_dropWhile_id remove1_filter[symmetric]) simp
  finally show ?thesis .
qed

lemma layers_ok_restack:
  assumes "distinct (c_views s)" "v \<in> set (c_views s)" "\<forall>w\<in>set (c_views s). c_heap s w \<noteq> None"
    "sorted_wrt (\<lambda>a b. layer_of s b \<le> layer_of s a) (others v (c_views s))"
  shows "layers_ok (restack_view_for_layer v True s)"
  using assms mset_raise[OF assms(1,2)] restack_raise_sorted[OF assms(1,4)]
  by (simp add: layers_ok_def) (metis mset_eq_imp_distinct_iff mset_eq_setD)

lemma layers_ok_lower:
  assumes "layers_ok s" "v \<in> set (c_views s)"
  shows "layers_ok (restack_view_for_layer v False s)"
  using assms mset_lower[OF _ assms(2)] restack_lower_sorted[OF _ assms(2)]
  by (simp add: layers_ok_def) (metis mset_eq_imp_distinct_iff mset_eq_setD)

lemma layers_ok_cong:
  "c_views s' = c_views s \<Longrightarrow> (\<And>w. layer_of s' w = layer_of s w) \<Longrightarrow>
   (\<And>w. (c_heap s' w = None) = (c_heap s w = None)) \<Longrightarrow> layers_ok s' = layers_ok s"
  by (simp add: layers_ok_def)

lemma layers_ok_redraw [simp]: "layers_ok (redraw_restacked v s) = layers_ok s"
  by (rule layers_ok_cong) simp_all

text \<open>Giving a view a layer and putting it on top of it.\<close>

lemma relayer_ok:
  assumes "layers_ok s" "v \<in> set (c_views s)"
  shows "layers_ok (restack_view_for_layer v True (upd v (\<lambda>x. x\<lparr>v_layer := l\<rparr>) s))"
    and "mset (c_views (restack_view_for_layer v True (upd v (\<lambda>x. x\<lparr>v_layer := l\<rparr>) s))) = mset (c_views s)"
proof -
  let ?t = "upd v (\<lambda>x. x\<lparr>v_layer := l\<rparr>) s"
  have d: "distinct (c_views ?t)" "v \<in> set (c_views ?t)" "\<forall>w\<in>set (c_views ?t). c_heap ?t w \<noteq> None"
    using assms by (simp_all add: layers_ok_def)
  have "sorted_wrt (\<lambda>a b. layer_of s b \<le> layer_of s a) (others v (c_views s))"
    using assms(1) by (simp add: layers_ok_def sorted_wrt_filter)
  from sorted_wrt_mono_rel[OF _ this, of "\<lambda>a b. layer_of ?t b \<le> layer_of ?t a"]
  have "sorted_wrt (\<lambda>a b. layer_of ?t b \<le> layer_of ?t a) (others v (c_views ?t))" by simp
  then show "layers_ok (restack_view_for_layer v True ?t)" by (rule layers_ok_restack[OF d])
  show "mset (c_views (restack_view_for_layer v True ?t)) = mset (c_views s)"
    using mset_raise[OF d(1,2)] by simp
qed

lemma stack_step_ok:
  assumes "layers_ok s" "stack_target q \<in> set (c_views s)"
  shows "layers_ok (stack_step q s) \<and> mset (c_views (stack_step q s)) = mset (c_views s)"
proof -
  have d: "distinct (c_views s)" "\<forall>w\<in>set (c_views s). c_heap s w \<noteq> None"
    "sorted_wrt (\<lambda>a b. layer_of s b \<le> layer_of s a) (others v (c_views s))" for v
    using assms(1) by (simp_all add: layers_ok_def sorted_wrt_filter)
  have dmg: "layers_ok (damage_view v s)" for v
    using assms(1) by (subst layers_ok_cong) simp_all
  show ?thesis
  proof (cases q)
    case (StackRaise v)
    with assms d show ?thesis
      by (simp add: swc_window_raise_def layers_ok_restack mset_raise)
  next
    case (StackLower v)
    with assms d show ?thesis
      by (simp add: swc_window_lower_def layers_ok_lower mset_lower)
  next
    case (StackSetLayer v l)
    with assms d relayer_ok[OF dmg, of v v l] show ?thesis
      by (simp add: swc_window_set_stack_layer_def compositor_view_set_stack_layer_def Let_def
          layers_ok_restack mset_raise)
  next
    case (StackTop v)
    with assms relayer_ok[OF assms(1), of v] show ?thesis by (simp add: raise_window_top_def)
  qed
qed

subsection \<open>Properties\<close>

text \<open>C14: however the windows are raised, lowered and moved between layers, no view is lost or
  listed twice and no view ends up above one of a higher layer.\<close>

theorem stacking_order_invariant:
  assumes "layers_ok s" "\<forall>q\<in>set qs. stack_target q \<in> set (c_views s)"
  shows "layers_ok (fold stack_step qs s) \<and> mset (c_views (fold stack_step qs s)) = mset (c_views s)"
  using assms
proof (induction qs arbitrary: s)
  case (Cons q qs)
  have "stack_target q \<in> set (c_views s)" using Cons.prems(2) by simp
  note 1 = stack_step_ok[OF Cons.prems(1) this]
  then have "set (c_views (stack_step q s)) = set (c_views s)" using mset_eq_setD by blast
  with 1 Cons.IH[of "stack_step q s"] Cons.prems(2) show ?case
    using \<open>set (c_views (stack_step q s)) = set (c_views s)\<close> by simp
qed simp

theorem stacking_order_invariant_witness:
  "let s = desktop [(7, window_at 7 0 0 100 100), (8, window_at 8 50 50 100 100)]
   in layers_ok (fold stack_step [StackLower 7, StackSetLayer 8 3, StackRaise 7] s)"
proof -
  let ?s = "desktop [(7, window_at 7 0 0 100 100), (8, window_at 8 50 50 100 100)]"
  have "layers_ok ?s" by (simp add: layers_ok_def desktop_def window_at_def initial_view_def cv_def)
  moreover have "\<forall>q\<in>set [StackLower 7, StackSetLayer 8 3, StackRaise 7]. stack_target q \<in> set (c_views ?s)"
    by (simp add: desktop_def)
  ultimately show ?thesis using stacking_order_invariant[of ?s] unfolding Let_def by blast
qed

text \<open>C15: raising windows of one layer in turn, as a window manager does to impose an order, leaves
  them on top of their layer with the last one raised first, and moves nothing else.\<close>

theorem raising_in_turn_orders_windows:
  assumes "layers_ok s" "distinct vs" "set vs \<subseteq> set (c_views s)" "\<forall>v\<in>set vs. layer_of s v = l"
  shows "c_views (fold (\<lambda>v. swc_window_raise (Some v)) vs s) =
    filter (\<lambda>x. l < layer_of s x) (c_views s) @ rev vs @
    filter (\<lambda>x. layer_of s x \<le> l \<and> x \<notin> set vs) (c_views s)"
  using ws.raise_all[OF layers_ok_layered[OF assms(1)] assms(2-)] by blast

theorem raising_in_turn_orders_windows_witness:
  "let s = desktop [(5, (initial_view 5)\<lparr>v_layer := 3\<rparr>), (7, window_at 7 0 0 100 100),
             (8, window_at 8 50 50 100 100), (9, window_at 9 50 50 100 100)]
   in c_views (fold (\<lambda>v. swc_window_raise (Some v)) [9, 7] s) = [5, 7, 9, 8]"
proof -
  let ?s = "desktop [(5, (initial_view 5)\<lparr>v_layer := 3\<rparr>), (7, window_at 7 0 0 100 100),
             (8, window_at 8 50 50 100 100), (9, window_at 9 50 50 100 100)]"
  have v: "c_views ?s = [5, 7, 8, 9]" and
    l: "layer_of ?s 5 = 3" "layer_of ?s 7 = 2" "layer_of ?s 8 = 2" "layer_of ?s 9 = 2"
    by (simp_all add: desktop_def window_at_def initial_view_def cv_def)
  have "layers_ok ?s" by (simp add: layers_ok_def v l) (simp add: desktop_def)
  from raising_in_turn_orders_windows[OF this, of "[9, 7]" 2] show ?thesis by (simp add: v l)
qed

text \<open>\<open>swc_window_lower\<close> does not move a window to the back of its layer: with two other views
  in the layer it puts it right below the first of them, above all the rest.\<close>

theorem lower_stops_below_the_top:
  assumes "layers_ok s" "v \<in> set (c_views s)"
    and "a \<noteq> v" "b \<noteq> v" "a \<noteq> b" "{a, b} \<subseteq> set (c_views s)"
    and "layer_of s a = layer_of s v" "layer_of s b = layer_of s v"
  shows "\<exists>xs x y ys. c_views (swc_window_lower (Some v) s) = xs @ x # v # y # ys \<and>
           layer_of s x = layer_of s v \<and> layer_of s y = layer_of s v"
proof -
  have d: "distinct (c_views s)" and
    so: "sorted_wrt (\<lambda>a b. layer_of s b \<le> layer_of s a) (others v (c_views s))"
    using assms(1) by (simp_all add: layers_ok_def sorted_wrt_filter)
  let ?B = "below s v (c_views s)"
  have B: "?B = filter (\<lambda>x. layer_of s x \<le> layer_of s v) (others v (c_views s))"
    by (rule filter_split_layer(2)[OF so])
  have ab: "a \<in> set ?B" "b \<in> set ?B" unfolding B using assms by auto
  then obtain x y ys where xy: "?B = x # y # ys"
    using assms(5) by (cases ?B rule: list.exhaust, simp) (metis list.exhaust list.set_cases list.distinct(1) set_ConsD empty_iff empty_set)
  have sB: "sorted_wrt (\<lambda>a b. layer_of s b \<le> layer_of s a) (x # y # ys)"
    unfolding xy[symmetric] B using so by (simp only: sorted_wrt_filter)
  have le: "layer_of s z \<le> layer_of s v" if "z \<in> set ?B" for z using that unfolding B by simp
  have "layer_of s v \<le> layer_of s x \<and> layer_of s v \<le> layer_of s y"
  proof -
    have "a \<in> {x, y} \<union> set ys" "b \<in> {x, y} \<union> set ys" using ab xy by auto
    with assms(5,7,8) sB show ?thesis by auto
  qed
  then have "layer_of s x = layer_of s v" "layer_of s y = layer_of s v"
    using le[of x] le[of y] xy by auto
  moreover from this have "c_views (swc_window_lower (Some v) s) = above s v (c_views s) @ x # v # y # ys"
    unfolding swc_window_lower_def using restack_lower_views[OF d assms(2)] xy by simp
  ultimately show ?thesis by blast
qed

theorem lower_stops_below_the_top_witness:
  "let s = desktop [(7, window_at 7 0 0 100 100), (8, window_at 8 50 50 100 100), (9, window_at 9 50 50 100 100)]
   in \<exists>xs x y ys. c_views (swc_window_lower (Some 7) s) = xs @ x # 7 # y # ys"
proof -
  let ?s = "desktop [(7, window_at 7 0 0 100 100), (8, window_at 8 50 50 100 100), (9, window_at 9 50 50 100 100)]"
  have v: "c_views ?s = [7, 8, 9]" and l: "layer_of ?s 7 = 2" "layer_of ?s 8 = 2" "layer_of ?s 9 = 2"
    by (simp_all add: desktop_def window_at_def initial_view_def cv_def)
  have "layers_ok ?s" by (simp add: layers_ok_def v l) (simp add: desktop_def)
  from lower_stops_below_the_top[OF this, of 7 8 9] show ?thesis by (auto simp: v l)
qed

text \<open>lowering a view that is alone in its layer while a view of a lower layer sits in front of
  the whole stack, as every newly created view does, sends it below everything.\<close>

theorem lower_sinks_below_lower_layers:
  assumes "distinct (c_views s)" "v \<in> set (c_views s)"
    and "c_views s = x # xs" "x \<noteq> v" "layer_of s x < layer_of s v"
  shows "last (c_views (swc_window_lower (Some v) s)) = v"
proof -
  have "above s v (c_views s) = []" "below s v (c_views s) = x # others v xs"
    using assms by (auto simp: not_less)
  then have "c_views (restack_view_for_layer v False s) = (x # others v xs) @ [v]"
    unfolding restack_lower_views[OF assms(1,2)] using assms by (auto simp: less_le)
  then show ?thesis by (simp add: swc_window_lower_def)
qed

theorem lower_sinks_below_lower_layers_witness:
  "let s = desktop [(7, window_at 7 0 0 100 100), (5, (initial_view 5)\<lparr>v_layer := 4\<rparr>),
             (9, (initial_view 9)\<lparr>v_layer := 0\<rparr>)]
   in last (c_views (swc_window_lower (Some 5) s)) = 5"
proof -
  let ?s = "desktop [(7, window_at 7 0 0 100 100), (5, (initial_view 5)\<lparr>v_layer := 4\<rparr>),
             (9, (initial_view 9)\<lparr>v_layer := 0\<rparr>)]"
  have "distinct (c_views ?s)" "5 \<in> set (c_views ?s)" "c_views ?s = 7 # [5, 9]" "(7::nat) \<noteq> 5"
    "layer_of ?s 7 < layer_of ?s 5"
    by (simp_all add: desktop_def window_at_def initial_view_def cv_def)
  from lower_sinks_below_lower_layers[OF this] show ?thesis by (simp add: Let_def)
qed

end
