(* ===== verification/Visibility.thy ===== *)
theory Visibility
  imports Stacking
begin

text \<open>
  Creating, showing, hiding and destroying the views of \<open>libswc/compositor.c\<close>, with their
  children, and the schedule of repaints over all the operations of the compositor.

  \<open>compositor_view_show\<close> and \<open>compositor_view_hide\<close> call themselves for the children of a view
  while they walk the list of all views, and showing a window moves it in that list. The walk is
  modelled as the code does it, by a cursor into the current list; the fuel is an upper bound of
  the number of calls, and \<open>show_returns\<close> and \<open>hide_returns\<close> show that it is never used up.
\<close>

subsection \<open>Showing and hiding\<close>

text \<open>Whether \<open>compositor_view_show\<close> gives up because the view belongs to a subsurface that is not
  yet part of its parent or has no content.\<close>

definition show_blocked :: "'a comp_scheme \<Rightarrow> addr \<Rightarrow> bool" where
  "show_blocked s v \<longleftrightarrow>
     (case v_surface (cv s v) of
        None \<Rightarrow> False
      | Some f \<Rightarrow> (case sf_sub (c_surf s f) of
                    None \<Rightarrow> False
                  | Some added \<Rightarrow> \<not> added \<or> sf_buffer (c_surf s f) = None))"

text \<open>What \<open>compositor_view_show\<close> does to the view itself.\<close>

definition show_self :: "addr \<Rightarrow> 'a comp_scheme \<Rightarrow> 'a comp_scheme" where
  "show_self v s =
     (let s = upd v (\<lambda>x. x\<lparr>v_visible := True\<rparr>) s;
          s = view_update_screens v s;
          s = (if v_window (cv s v) \<noteq> None then raise_view v s else s);
          s = upd v (\<lambda>x. x\<lparr>v_clip := []\<rparr>) s
      in update_only v (damage_view v s))"

fun show_view :: "nat \<Rightarrow> addr \<Rightarrow> 'a comp_scheme \<Rightarrow> 'a comp_scheme option"
  and show_children :: "nat \<Rightarrow> addr \<Rightarrow> addr option \<Rightarrow> 'a comp_scheme \<Rightarrow> 'a comp_scheme option" where
  "show_view 0 v s = None"
| "show_view (Suc n) v s =
     (if v_visible (cv s v) then Some s
      else if show_blocked s v then Some s
      else let s = show_self v s in show_children n v (first_link (c_views s)) s)"
| "show_children 0 v cursor s = None"
| "show_children (Suc n) v cursor s =
     (case cursor of
        None \<Rightarrow> Some s
      | Some other \<Rightarrow>
          (case (if v_parent (cv s other) = Some v then show_view n other s else Some s) of
             None \<Rightarrow> None
           | Some s \<Rightarrow> show_children n v (link_next other (c_views s)) s))"

definition hide_self :: "addr \<Rightarrow> 'a comp_scheme \<Rightarrow> 'a comp_scheme" where
  "hide_self v s =
     (let s = damage_below_view v (update_only v s);
          s = view_set_screens v 0 s
      in upd v (\<lambda>x. x\<lparr>v_visible := False\<rparr>) s)"

fun hide_view :: "nat \<Rightarrow> addr \<Rightarrow> 'a comp_scheme \<Rightarrow> 'a comp_scheme option"
  and hide_children :: "nat \<Rightarrow> addr \<Rightarrow> addr list \<Rightarrow> 'a comp_scheme \<Rightarrow> 'a comp_scheme option" where
  "hide_view 0 v s = None"
| "hide_view (Suc n) v s =
     (if \<not> v_visible (cv s v) then Some s
      else let s = hide_self v s in hide_children n v (c_views s) s)"
| "hide_children 0 v xs s = None"
| "hide_children (Suc n) v xs s =
     (case xs of
        [] \<Rightarrow> Some s
      | other # xs \<Rightarrow>
          (case (if v_parent (cv s other) = Some v then hide_view n other s else Some s) of
             None \<Rightarrow> None
           | Some s \<Rightarrow> hide_children n v xs s))"

definition walk_fuel :: "'a comp_scheme \<Rightarrow> nat" where
  "walk_fuel s = (length (c_views s) + 1) * (length (c_views s) + 2) + 1"

definition compositor_view_show :: "addr \<Rightarrow> 'a comp_scheme \<Rightarrow> 'a comp_scheme option" where
  "compositor_view_show v s = show_view (walk_fuel s) v s"

definition compositor_view_hide :: "addr \<Rightarrow> 'a comp_scheme \<Rightarrow> 'a comp_scheme option" where
  "compositor_view_hide v s = hide_view (walk_fuel s) v s"

definition compositor_view_set_parent :: "addr \<Rightarrow> addr option \<Rightarrow> 'a comp_scheme \<Rightarrow> 'a comp_scheme option" where
  "compositor_view_set_parent v parent s =
     (let s = upd v (\<lambda>x. x\<lparr>v_parent := parent\<rparr>) s
      in case parent of
           None \<Rightarrow> Some s
         | Some p \<Rightarrow> if v_visible (cv s p) then compositor_view_show v s else compositor_view_hide v s)"

definition swc_shell_surface_show :: "addr option \<Rightarrow> 'a comp_scheme \<Rightarrow> 'a comp_scheme option" where
  "swc_shell_surface_show shell s = (case shell of None \<Rightarrow> Some s | Some v \<Rightarrow> compositor_view_show v s)"

definition swc_shell_surface_hide :: "addr option \<Rightarrow> 'a comp_scheme \<Rightarrow> 'a comp_scheme option" where
  "swc_shell_surface_hide shell s = (case shell of None \<Rightarrow> Some s | Some v \<Rightarrow> compositor_view_hide v s)"

subsection \<open>Creating and destroying\<close>

text \<open>\<open>v\<close> is the address \<open>malloc\<close> returns, \<open>None\<close> when it fails.\<close>

definition compositor_create_view ::
  "int \<Rightarrow> addr option \<Rightarrow> addr \<Rightarrow> 'a comp_scheme \<Rightarrow> addr option \<times> 'a comp_scheme" where
  "compositor_create_view r mem surface s =
     (case mem of
        None \<Rightarrow> (None, s)
      | Some v \<Rightarrow>
          let s = s\<lparr>c_heap := (c_heap s)(v \<mapsto> initial_view surface)\<rparr>;
              s = surface_set_view r surface (Some v) s
          in (Some v, s\<lparr>c_views := v # c_views s\<rparr>))"

definition compositor_view_destroy :: "int \<Rightarrow> addr \<Rightarrow> 'a comp_scheme \<Rightarrow> 'a comp_scheme option" where
  "compositor_view_destroy r v s =
     (case compositor_view_hide v (notify v NDestroy s) of
        None \<Rightarrow> None
      | Some s \<Rightarrow>
          let s = surface_set_view r (the (v_surface (cv s v))) None s
          in Some (s\<lparr>c_views := remove1 v (c_views s), c_heap := (c_heap s)(v := None)\<rparr>))"

definition swc_shell_surface_create ::
  "int \<Rightarrow> addr option \<Rightarrow> addr option \<Rightarrow> 'a comp_scheme \<Rightarrow> addr option \<times> 'a comp_scheme" where
  "swc_shell_surface_create r mem surface s =
     (case surface of
        None \<Rightarrow> (None, s)
      | Some f \<Rightarrow> if sf_view (c_surf s f) \<noteq> None then (None, s) else compositor_create_view r mem f s)"

definition swc_shell_surface_destroy :: "int \<Rightarrow> addr option \<Rightarrow> 'a comp_scheme \<Rightarrow> 'a comp_scheme option" where
  "swc_shell_surface_destroy r shell s =
     (case shell of None \<Rightarrow> Some s | Some v \<Rightarrow> compositor_view_destroy r v s)"

subsection \<open>The walk ends\<close>

abbreviation invisible :: "'a comp_scheme \<Rightarrow> nat" where
  "invisible s \<equiv> length (filter (\<lambda>v. \<not> v_visible (cv s v)) (c_views s))"

text \<open>What the walk keeps: the set of views, and views that are visible or live stay so.\<close>

definition shows_more :: "'a comp_scheme \<Rightarrow> 'a comp_scheme \<Rightarrow> bool" where
  "shows_more s s' \<longleftrightarrow>
     distinct (c_views s') \<and> set (c_views s') = set (c_views s) \<and>
     (\<forall>w. (c_heap s' w = None) = (c_heap s w = None)) \<and>
     (\<forall>w. v_visible (cv s w) \<longrightarrow> v_visible (cv s' w)) \<and>
     (\<forall>w. v_parent (cv s' w) = v_parent (cv s w)) \<and>
     (c_views s' = c_views s \<or> (\<exists>w\<in>set (c_views s). \<not> v_visible (cv s w) \<and> v_visible (cv s' w)))"

lemma invisible_card:
  "distinct (c_views s) \<Longrightarrow> invisible s = card {v \<in> set (c_views s). \<not> v_visible (cv s v)}"
  by (metis distinct_card distinct_filter set_filter)

lemma shows_more_invisible:
  assumes "shows_more s s'" "distinct (c_views s)"
  shows "invisible s' \<le> invisible s" "c_views s' \<noteq> c_views s \<Longrightarrow> invisible s' < invisible s"
    "w \<in> set (c_views s) \<Longrightarrow> \<not> v_visible (cv s w) \<Longrightarrow> v_visible (cv s' w) \<Longrightarrow> invisible s' < invisible s"
proof -
  let ?I = "\<lambda>t. {v \<in> set (c_views t). \<not> v_visible (cv t v)}"
  have sub: "?I s' \<subseteq> ?I s" and fin: "finite (?I s)" using assms(1) by (auto simp: shows_more_def)
  have c: "invisible s' = card (?I s')" "invisible s = card (?I s)"
    using assms by (simp_all add: invisible_card shows_more_def)
  show "invisible s' \<le> invisible s" unfolding c by (rule card_mono[OF fin sub])
  have strict: "invisible s' < invisible s"
    if "w \<in> set (c_views s)" "\<not> v_visible (cv s w)" "v_visible (cv s' w)" for w
    unfolding c using sub fin that by (intro psubset_card_mono) auto
  show "c_views s' \<noteq> c_views s \<Longrightarrow> invisible s' < invisible s"
    using assms(1) strict by (auto simp: shows_more_def)
  show "w \<in> set (c_views s) \<Longrightarrow> \<not> v_visible (cv s w) \<Longrightarrow> v_visible (cv s' w) \<Longrightarrow> invisible s' < invisible s"
    by (rule strict)
qed

lemma shows_more_refl: "distinct (c_views s) \<Longrightarrow> shows_more s s"
  by (simp add: shows_more_def)

lemma shows_more_trans: "shows_more s t \<Longrightarrow> shows_more t u \<Longrightarrow> shows_more s u"
  unfolding shows_more_def by (intro conjI; metis)

lemma raise_scan_in:
  "raise_scan s v p xs = Some q \<Longrightarrow> p = Some q \<or> q \<in> set xs \<and> q \<noteq> v"
  by (induction xs arbitrary: p) (auto split: if_splits)

lemma damage_span_frame [simp]:
  "c_heap (damage_span v s) = c_heap s" "cv (damage_span v s) = cv s"
  "c_views (damage_span v s) = c_views s" "c_sched (damage_span v s) = c_sched s"
  by (simp_all add: damage_span_def Let_def cv_def fun_eq_iff)

text \<open>An operation that changes no list and neither visibility nor parents.\<close>

definition same_tree :: "'a comp_scheme \<Rightarrow> 'a comp_scheme \<Rightarrow> bool" where
  "same_tree s s' \<longleftrightarrow>
     (\<forall>w. (c_heap s' w = None) = (c_heap s w = None)) \<and>
     (\<forall>w. v_visible (cv s' w) = v_visible (cv s w) \<and> v_parent (cv s' w) = v_parent (cv s w))"

named_theorems tree_intros

lemma same_tree_refl [tree_intros]: "same_tree s s"
  by (simp add: same_tree_def)

lemma same_tree_trans: "same_tree s t \<Longrightarrow> same_tree t u \<Longrightarrow> same_tree s u"
  by (simp add: same_tree_def)

lemma same_tree_upd [tree_intros]:
  assumes "\<And>x. v_visible (f x) = v_visible x \<and> v_parent (f x) = v_parent x" "same_tree s t"
  shows "same_tree s (upd v f t)"
proof (rule same_tree_trans[OF assms(2)])
  show "same_tree t (upd v f t)"
    unfolding same_tree_def using assms(1) by (cases "c_heap t v") (simp_all add: cv_def upd_def)
qed

lemma same_tree_heap: "same_tree s t \<Longrightarrow> c_heap t' = c_heap t \<Longrightarrow> same_tree s t'"
  by (simp add: same_tree_def cv_def)

lemma same_tree_notify [tree_intros]: "same_tree s t \<Longrightarrow> same_tree s (notify v n t)"
  by (rule same_tree_heap) simp_all

lemma same_tree_screens [tree_intros]: "same_tree s t \<Longrightarrow> same_tree s (view_set_screens v m t)"
  by (simp add: view_set_screens_def Let_def same_tree_notify same_tree_upd)

lemma same_tree_update_screens [tree_intros]: "same_tree s t \<Longrightarrow> same_tree s (view_update_screens v t)"
  by (simp add: view_update_screens_def same_tree_screens)

lemma same_tree_damage [tree_intros]:
  "same_tree s t \<Longrightarrow> same_tree s (damage_view v t)"
  "same_tree s t \<Longrightarrow> same_tree s (damage_below_view v t)"
  "same_tree s t \<Longrightarrow> same_tree s (update_only v t)"
  "same_tree s t \<Longrightarrow> same_tree s (schedule_updates m t)"
  "same_tree s t \<Longrightarrow> same_tree s (damage_span v t)"
  by (simp_all add: damage_view_def damage_below_view_def same_tree_upd
      same_tree_heap[of s t "add_damage _ t"] same_tree_heap[of s t "update_only _ t"]
      same_tree_heap[of s t "schedule_updates _ t"] same_tree_heap[of s t "damage_span _ t"])

lemma same_tree_raise_view [tree_intros]:
  assumes "same_tree s t" shows "same_tree s (raise_view v t)"
proof -
  have "same_tree s (t\<lparr>c_views := xs\<rparr>)" for xs
    using assms by (rule same_tree_heap) simp
  then show ?thesis
    using assms by (simp add: raise_view_def Let_def tree_intros)
qed

lemma views_screens [simp]:
  "c_views (view_set_screens v m s) = c_views s" "c_views (view_update_screens v s) = c_views s"
  "c_views (damage_below_view v s) = c_views s"
  by (simp_all add: view_update_screens_def view_set_screens_def damage_below_view_def Let_def)

lemma raise_view_views:
  assumes "distinct (c_views s)" "v \<in> set (c_views s)"
  shows "mset (c_views (raise_view v s)) = mset (c_views s)"
proof -
  let ?p = "raise_scan s v None (c_views s)"
  have "mset (link_after ?p v (remove1 v (c_views s))) = add_mset v (mset (remove1 v (c_views s)))"
  proof (rule mset_link_after)
    fix q assume "?p = Some q"
    with raise_scan_in[OF this] show "q \<in> set (remove1 v (c_views s))" by auto
  qed (use assms in simp)
  then show ?thesis using assms by (simp add: raise_view_def Let_def)
qed

lemma show_self_shows:
  assumes "distinct (c_views s)" "v \<in> set (c_views s)" "c_heap s v \<noteq> None" "\<not> v_visible (cv s v)"
  shows "shows_more s (show_self v s)" "v_visible (cv (show_self v s) v)"
proof -
  let ?s0 = "upd v (\<lambda>x. x\<lparr>v_visible := True\<rparr>) s"
  have t: "same_tree ?s0 (show_self v s)"
    by (auto simp: show_self_def Let_def intro!: tree_intros)
  have "mset (c_views (show_self v s)) = mset (c_views s)"
    using assms by (simp add: show_self_def Let_def raise_view_views)
  then have "distinct (c_views (show_self v s))" "set (c_views (show_self v s)) = set (c_views s)"
    using assms(1) by (metis mset_eq_imp_distinct_iff, metis mset_eq_setD)
  moreover show vis: "v_visible (cv (show_self v s) v)"
    using t assms(3) by (simp add: same_tree_def)
  moreover have "v_visible (cv (show_self v s) w)" if "v_visible (cv s w)" for w
    using t that assms(3) by (cases "w = v") (simp_all add: same_tree_def)
  moreover have "v_parent (cv (show_self v s) w) = v_parent (cv s w)" for w
    using t assms(3) by (cases "w = v") (simp_all add: same_tree_def)
  moreover have "(c_heap (show_self v s) w = None) = (c_heap s w = None)" for w
    using t by (simp add: same_tree_def)
  ultimately show "shows_more s (show_self v s)"
    using assms(2,4) unfolding shows_more_def by blast
qed

definition remaining :: "'a comp_scheme \<Rightarrow> addr option \<Rightarrow> nat" where
  "remaining s cursor = (case cursor of None \<Rightarrow> 0 | Some w \<Rightarrow> length (dropWhile (\<lambda>x. x \<noteq> w) (c_views s)))"

lemma remaining_first: "remaining s (first_link (c_views s)) = length (c_views s)"
  by (cases "c_views s") (simp_all add: remaining_def)

lemma remaining_le: "remaining s c \<le> length (c_views s)"
  by (cases c) (simp_all add: remaining_def length_dropWhile_le)

lemma remaining_next:
  assumes "distinct (c_views s)" "w \<in> set (c_views s)"
  shows "Suc (remaining s (link_next w (c_views s))) = remaining s (Some w)"
    and "link_next w (c_views s) = Some u \<Longrightarrow> u \<in> set (c_views s)"
proof -
  obtain as bs where s: "c_views s = as @ w # bs" "w \<notin> set as"
    using assms(2) by (metis split_list_first)
  have n: "link_next w (c_views s) = first_link bs" unfolding s(1) by (rule link_next_split[OF s(2)])
  have d: "dropWhile (\<lambda>x. x \<noteq> w) (c_views s) = w # bs"
    unfolding s(1) by (subst dropWhile_append2) (use s(2) in auto)
  show "Suc (remaining s (link_next w (c_views s))) = remaining s (Some w)"
  proof (cases bs)
    case (Cons b bs')
    have "dropWhile (\<lambda>x. x \<noteq> b) (c_views s) = bs"
    proof -
      have "b \<notin> set (as @ [w])" using assms(1) s Cons by auto
      then have "dropWhile (\<lambda>x. x \<noteq> b) ((as @ [w]) @ bs) = dropWhile (\<lambda>x. x \<noteq> b) bs"
        by (intro dropWhile_append2) auto
      then show ?thesis using s Cons by simp
    qed
    then show ?thesis using n d Cons by (simp add: remaining_def)
  qed (use n d in \<open>simp add: remaining_def\<close>)
  show "link_next w (c_views s) = Some u \<Longrightarrow> u \<in> set (c_views s)"
    using n s by (cases bs) auto
qed

text \<open>The fuel: each call that shows a view pays for a whole walk, and there are at most
  \<open>invisible s\<close> of them.\<close>

lemma show_walk:
  assumes "distinct (c_views s)" "\<forall>w\<in>set (c_views s). c_heap s w \<noteq> None"
  shows "v \<in> set (c_views s) \<Longrightarrow> invisible s * (length (c_views s) + 2) + 1 \<le> n \<Longrightarrow>
     \<exists>s'. show_view n v s = Some s' \<and> shows_more s s' \<and> (v_visible (cv s' v) \<or> show_blocked s v)"
    and "(\<forall>w. cursor = Some w \<longrightarrow> w \<in> set (c_views s)) \<Longrightarrow>
     invisible s * (length (c_views s) + 2) + remaining s cursor + 1 \<le> n \<Longrightarrow>
     \<exists>s'. show_children n v cursor s = Some s' \<and> shows_more s s'"
  using assms
proof (induction n arbitrary: s v cursor)
  case (Suc n)
  {
    case 1
    show ?case
    proof (cases "v_visible (cv s v) \<or> show_blocked s v")
      case True
      then show ?thesis using 1 by (auto intro: shows_more_refl)
    next
      case False
      let ?t = "show_self v s"
      have t: "shows_more s ?t" "v_visible (cv ?t v)"
        using show_self_shows[of s v] 1 False by auto
      have dt: "distinct (c_views ?t)" "\<forall>w\<in>set (c_views ?t). c_heap ?t w \<noteq> None"
        and len: "length (c_views ?t) = length (c_views s)"
        using t(1) 1 by (auto simp: shows_more_def) (metis distinct_card)
      have "invisible ?t < invisible s"
        using shows_more_invisible(3)[OF t(1), of v] 1 False t(2) by simp
      then have "Suc (invisible ?t) * (length (c_views s) + 2) \<le> invisible s * (length (c_views s) + 2)"
        by (intro mult_right_mono) auto
      then have "invisible ?t * (length (c_views ?t) + 2) + remaining ?t (first_link (c_views ?t)) + 1 \<le> n"
        using 1(2) by (simp add: remaining_first len)
      moreover have "\<forall>w. first_link (c_views ?t) = Some w \<longrightarrow> w \<in> set (c_views ?t)"
        by (cases "c_views ?t") auto
      ultimately obtain s' where "show_children n v (first_link (c_views ?t)) ?t = Some s'" "shows_more ?t s'"
        using Suc(2)[OF _ _ dt] by blast
      then show ?thesis
        using False t shows_more_trans[OF t(1)] by (auto simp: Let_def shows_more_def)
    qed
  next
    case 2
    show ?case
    proof (cases cursor)
      case None
      then show ?thesis using 2 by (auto intro: shows_more_refl)
    next
      case (Some w)
      have w: "w \<in> set (c_views s)" using 2 Some by simp
      note rem = remaining_next[OF 2(3) w]
      have "\<exists>t. (if v_parent (cv s w) = Some v then show_view n w s else Some s) = Some t \<and> shows_more s t"
        using Suc(1)[OF w _ 2(3,4)] 2(2) Some rem(1) 2(3) by (auto intro: shows_more_refl)
      then obtain t where t: "(if v_parent (cv s w) = Some v then show_view n w s else Some s) = Some t"
        "shows_more s t" by blast
      have dt: "distinct (c_views t)" "\<forall>w\<in>set (c_views t). c_heap t w \<noteq> None" "w \<in> set (c_views t)"
        and len: "length (c_views t) = length (c_views s)"
        using t(2) 2(3,4) w by (auto simp: shows_more_def) (metis distinct_card)
      note remt = remaining_next[OF dt(1,3)]
      have "invisible t * (length (c_views t) + 2) + remaining t (link_next w (c_views t)) + 1 \<le> n"
      proof (cases "c_views t = c_views s")
        case True
        have "invisible t * (length (c_views s) + 2) \<le> invisible s * (length (c_views s) + 2)"
          using shows_more_invisible(1)[OF t(2) 2(3)] by (intro mult_right_mono) auto
        moreover have "remaining t (link_next w (c_views t)) = remaining s (link_next w (c_views s))"
          unfolding True remaining_def by (simp add: True split: option.split)
        ultimately show ?thesis using 2(2) rem(1) Some len by simp
      next
        case False
        have "Suc (invisible t) * (length (c_views s) + 2) \<le> invisible s * (length (c_views s) + 2)"
          using shows_more_invisible(2)[OF t(2) 2(3) False] by (intro mult_right_mono) auto
        moreover have "Suc (remaining t (link_next w (c_views t))) \<le> length (c_views s)"
          using remt(1) remaining_le[of t "Some w"] len by simp
        ultimately show ?thesis using 2(2) len by simp
      qed
      then obtain s' where "show_children n v (link_next w (c_views t)) t = Some s'" "shows_more t s'"
        using Suc(2)[OF _ _ dt(1,2)] remt(2) by blast
      then show ?thesis using Some t shows_more_trans[OF t(2)] by auto
    qed
  }
qed simp_all

abbreviation visible_views :: "'a comp_scheme \<Rightarrow> nat" where
  "visible_views s \<equiv> length (filter (\<lambda>v. v_visible (cv s v)) (c_views s))"

definition hides_more :: "'a comp_scheme \<Rightarrow> 'a comp_scheme \<Rightarrow> bool" where
  "hides_more s s' \<longleftrightarrow> c_views s' = c_views s \<and>
     (\<forall>w. (c_heap s' w = None) = (c_heap s w = None)) \<and>
     (\<forall>w. v_visible (cv s' w) \<longrightarrow> v_visible (cv s w)) \<and>
     (\<forall>w. v_parent (cv s' w) = v_parent (cv s w))"

lemma hides_more_refl: "hides_more s s"
  by (simp add: hides_more_def)

lemma hides_more_trans: "hides_more s t \<Longrightarrow> hides_more t u \<Longrightarrow> hides_more s u"
  by (simp add: hides_more_def)

lemma filter_fewer:
  "(\<And>x. Q x \<Longrightarrow> P x) \<Longrightarrow> length (filter Q xs) \<le> length (filter P xs)"
  "(\<And>x. Q x \<Longrightarrow> P x) \<Longrightarrow> v \<in> set xs \<Longrightarrow> P v \<Longrightarrow> \<not> Q v \<Longrightarrow>
   length (filter Q xs) < length (filter P xs)"
proof -
  show le: "length (filter Q xs) \<le> length (filter P xs)" if "\<And>x. Q x \<Longrightarrow> P x" for xs
    using that by (induction xs) (auto simp: le_Suc_eq)
  show "length (filter Q xs) < length (filter P xs)"
    if "\<And>x. Q x \<Longrightarrow> P x" "v \<in> set xs" "P v" "\<not> Q v"
    using that(2)
  proof (induction xs)
    case (Cons x xs)
    have "length (filter Q xs) \<le> length (filter P xs)" by (rule le[OF that(1)])
    with Cons that show ?case by (cases "x = v") (auto simp: le_Suc_eq)
  qed simp
qed

lemma hide_self_hides:
  assumes "c_heap s v \<noteq> None" "v_visible (cv s v)"
  shows "hides_more s (hide_self v s)" "\<not> v_visible (cv (hide_self v s) v)"
proof -
  let ?t = "view_set_screens v 0 (damage_below_view v (update_only v s))"
  have t: "same_tree s ?t" by (intro tree_intros)
  have h: "hide_self v s = upd v (\<lambda>x. x\<lparr>v_visible := False\<rparr>) ?t"
    by (simp add: hide_self_def Let_def)
  have l: "c_heap ?t v \<noteq> None" using assms(1) by simp
  show "\<not> v_visible (cv (hide_self v s) v)" using l by (simp add: h)
  have "v_visible (cv (hide_self v s) w) \<longrightarrow> v_visible (cv s w)" for w
    using t l assms(2) by (cases "w = v") (simp_all add: h same_tree_def)
  moreover have "v_parent (cv (hide_self v s) w) = v_parent (cv s w)" for w
    using t l by (cases "w = v") (simp_all add: h same_tree_def)
  moreover have "(c_heap (hide_self v s) w = None) = (c_heap s w = None)" for w
    using t by (simp add: h same_tree_def)
  ultimately show "hides_more s (hide_self v s)"
    unfolding hides_more_def by (simp add: h)
qed

lemma hide_walk:
  assumes "\<forall>w\<in>set (c_views s). c_heap s w \<noteq> None"
  shows "v \<in> set (c_views s) \<Longrightarrow> visible_views s * (length (c_views s) + 2) + 1 \<le> n \<Longrightarrow>
     \<exists>s'. hide_view n v s = Some s' \<and> hides_more s s' \<and> \<not> v_visible (cv s' v) \<and>
          (v_visible (cv s v) \<longrightarrow>
             (\<forall>w\<in>set (c_views s). v_parent (cv s w) = Some v \<longrightarrow> \<not> v_visible (cv s' w)))"
    and "set xs \<subseteq> set (c_views s) \<Longrightarrow>
     visible_views s * (length (c_views s) + 2) + length xs + 1 \<le> n \<Longrightarrow>
     \<exists>s'. hide_children n v xs s = Some s' \<and> hides_more s s' \<and>
          (\<forall>w\<in>set xs. v_parent (cv s w) = Some v \<longrightarrow> \<not> v_visible (cv s' w))"
  using assms
proof (induction n arbitrary: s v xs)
  case (Suc n)
  {
    case 1
    show ?case
    proof (cases "v_visible (cv s v)")
      case False
      then show ?thesis by (auto intro: hides_more_refl)
    next
      case True
      let ?t = "hide_self v s"
      have t: "hides_more s ?t" "\<not> v_visible (cv ?t v)"
        using hide_self_hides[of s v] 1 True by auto
      have vs: "c_views ?t = c_views s" and lt: "\<forall>w\<in>set (c_views ?t). c_heap ?t w \<noteq> None"
        using t(1) 1 by (auto simp: hides_more_def)
      have "visible_views ?t < visible_views s"
        unfolding vs using t 1 True by (intro filter_fewer(2)) (auto simp: hides_more_def)
      then have "Suc (visible_views ?t) * (length (c_views s) + 2) \<le> visible_views s * (length (c_views s) + 2)"
        by (intro mult_right_mono) auto
      then have "visible_views ?t * (length (c_views ?t) + 2) + length (c_views s) + 1 \<le> n"
        using 1(2) by (simp add: vs)
      then obtain s' where s': "hide_children n v (c_views s) ?t = Some s'" "hides_more ?t s'"
        "\<forall>w\<in>set (c_views s). v_parent (cv ?t w) = Some v \<longrightarrow> \<not> v_visible (cv s' w)"
        using Suc(2)[OF _ _ lt, of "c_views s" v] vs by auto
      have "\<not> v_visible (cv s' v)" using s'(2) t(2) by (auto simp: hides_more_def)
      moreover have "\<forall>w\<in>set (c_views s). v_parent (cv s w) = Some v \<longrightarrow> \<not> v_visible (cv s' w)"
        using s'(3) t(1) by (simp add: hides_more_def)
      ultimately show ?thesis
        using True s'(1) hides_more_trans[OF t(1) s'(2)] vs by (simp add: Let_def)
    qed
  next
    case 2
    show ?case
    proof (cases xs)
      case Nil
      then show ?thesis by (auto intro: hides_more_refl)
    next
      case (Cons w ws)
      have w: "w \<in> set (c_views s)" "set ws \<subseteq> set (c_views s)" using 2 Cons by auto
      have "\<exists>t. (if v_parent (cv s w) = Some v then hide_view n w s else Some s) = Some t \<and>
          hides_more s t \<and> (v_parent (cv s w) = Some v \<longrightarrow> \<not> v_visible (cv t w))"
        using Suc(1)[OF w(1) _ 2(3)] 2(2) Cons by (auto intro: hides_more_refl)
      then obtain t where t: "(if v_parent (cv s w) = Some v then hide_view n w s else Some s) = Some t"
        "hides_more s t" "v_parent (cv s w) = Some v \<Longrightarrow> \<not> v_visible (cv t w)" by blast
      have vs: "c_views t = c_views s" and lt: "\<forall>w\<in>set (c_views t). c_heap t w \<noteq> None"
        using t(2) 2(3) by (auto simp: hides_more_def)
      have "visible_views t \<le> visible_views s"
        unfolding vs using t(2) by (intro filter_fewer(1)) (auto simp: hides_more_def)
      then have "visible_views t * (length (c_views s) + 2) \<le> visible_views s * (length (c_views s) + 2)"
        by (intro mult_right_mono) auto
      then have "visible_views t * (length (c_views t) + 2) + length ws + 1 \<le> n"
        using 2(2) Cons by (simp add: vs)
      then obtain s' where s': "hide_children n v ws t = Some s'" "hides_more t s'"
        "\<forall>w\<in>set ws. v_parent (cv t w) = Some v \<longrightarrow> \<not> v_visible (cv s' w)"
        using Suc(2)[OF _ _ lt, of ws v] w(2) vs by auto
      have "\<forall>u\<in>set xs. v_parent (cv s u) = Some v \<longrightarrow> \<not> v_visible (cv s' u)"
        using s'(2,3) t(2,3) Cons by (auto simp: hides_more_def)
      then show ?thesis
        using Cons t(1) s'(1) hides_more_trans[OF t(2) s'(2)] by simp
    qed
  }
qed simp_all

lemma walk_fuel_enough:
  "length (filter P (c_views s)) * (length (c_views s) + 2) + 1 \<le> walk_fuel s"
proof -
  have "length (filter P (c_views s)) * (length (c_views s) + 2) \<le> (length (c_views s) + 1) * (length (c_views s) + 2)"
    by (intro mult_right_mono) (auto simp: le_Suc_eq)
  then show ?thesis by (simp add: walk_fuel_def)
qed

subsection \<open>Properties\<close>

text \<open>C16: \<open>compositor_view_show\<close> always returns, although it walks the list of views while it
  raises windows in it. It loses no view, hides none, and makes the view visible unless it belongs
  to a subsurface that is not yet part of its parent.\<close>

theorem show_returns:
  assumes "distinct (c_views s)" "\<forall>w\<in>set (c_views s). c_heap s w \<noteq> None" "v \<in> set (c_views s)"
  shows "\<exists>s'. compositor_view_show v s = Some s' \<and>
    distinct (c_views s') \<and> set (c_views s') = set (c_views s) \<and>
    (\<forall>w. v_visible (cv s w) \<longrightarrow> v_visible (cv s' w)) \<and>
    (v_visible (cv s' v) \<or> show_blocked s v)"
  using show_walk(1)[OF assms(1,2,3) walk_fuel_enough]
  unfolding compositor_view_show_def shows_more_def by blast

text \<open>C17: \<open>compositor_view_hide\<close> always returns, changes no stacking order, and a view that was
  visible is hidden together with every child of it; nothing becomes visible.\<close>

theorem hide_hides_children:
  assumes "\<forall>w\<in>set (c_views s). c_heap s w \<noteq> None" "v \<in> set (c_views s)"
  shows "\<exists>s'. compositor_view_hide v s = Some s' \<and> c_views s' = c_views s \<and>
    \<not> v_visible (cv s' v) \<and> (\<forall>w. v_visible (cv s' w) \<longrightarrow> v_visible (cv s w)) \<and>
    (v_visible (cv s v) \<longrightarrow>
       (\<forall>w\<in>set (c_views s). v_parent (cv s w) = Some v \<longrightarrow> \<not> v_visible (cv s' w)))"
  using hide_walk(1)[OF assms walk_fuel_enough]
  unfolding compositor_view_hide_def hides_more_def by blast

theorem show_returns_witness:
  "let s = desktop [(7, (window_at 7 0 0 100 100)\<lparr>v_visible := False\<rparr>), (8, (initial_view 8)\<lparr>v_parent := Some 7\<rparr>)]
   in \<exists>s'. compositor_view_show 7 s = Some s' \<and> v_visible (cv s' 7)"
proof -
  let ?s = "desktop [(7, (window_at 7 0 0 100 100)\<lparr>v_visible := False\<rparr>), (8, (initial_view 8)\<lparr>v_parent := Some 7\<rparr>)]"
  have "distinct (c_views ?s)" "\<forall>w\<in>set (c_views ?s). c_heap ?s w \<noteq> None" "7 \<in> set (c_views ?s)"
    by (simp_all add: desktop_def)
  moreover have "\<not> show_blocked ?s 7"
    by (simp add: show_blocked_def desktop_def cv_def window_at_def initial_view_def
        compositor_initialize_def surface_new_def Let_def)
  ultimately show ?thesis using show_returns[of ?s 7] unfolding Let_def by blast
qed

theorem hide_hides_children_witness:
  "let s = desktop [(7, window_at 7 0 0 100 100), (8, (initial_view 8)\<lparr>v_parent := Some 7, v_visible := True\<rparr>)]
   in \<exists>s'. compositor_view_hide 7 s = Some s' \<and> \<not> v_visible (cv s' 7) \<and> \<not> v_visible (cv s' 8)"
proof -
  let ?s = "desktop [(7, window_at 7 0 0 100 100), (8, (initial_view 8)\<lparr>v_parent := Some 7, v_visible := True\<rparr>)]"
  have "\<forall>w\<in>set (c_views ?s). c_heap ?s w \<noteq> None" "7 \<in> set (c_views ?s)"
    by (simp_all add: desktop_def)
  moreover have "v_visible (cv ?s 7)" "8 \<in> set (c_views ?s)" "v_parent (cv ?s 8) = Some 7"
    by (simp_all add: desktop_def cv_def window_at_def)
  ultimately show ?thesis using hide_hides_children[of ?s 7] unfolding Let_def by blast
qed

text \<open>showing a window can skip one of its children for good. The child window of view 9 stands
  in front of the overlay view 5; showing it raises it \<open>behind\<close> view 5, the walk goes on from
  there, and the child view 4 it jumped over stays hidden.\<close>

theorem show_skips_child:
  "let s = desktop [(3, (window_at 3 10 10 100 100)\<lparr>v_visible := False, v_parent := Some 9\<rparr>),
                    (4, (initial_view 4)\<lparr>v_parent := Some 9\<rparr>),
                    (5, (initial_view 5)\<lparr>v_visible := True, v_layer := STACK_LAYER_OVERLAY\<rparr>),
                    (9, (window_at 9 10 10 100 100)\<lparr>v_visible := False\<rparr>)]
   in \<not> show_blocked s 4 \<and> v_parent (cv s 4) = Some 9 \<and>
      map_option (\<lambda>s'. (c_views s', v_visible (cv s' 9), v_visible (cv s' 4))) (compositor_view_show 9 s) =
        Some ([4, 5, 3, 9], True, False)"
  by code_simp

end
