(* ===== verification/Repaint.thy ===== *)
theory Repaint
  imports Visibility
begin

text \<open>
  The schedule of repaints of \<open>libswc/compositor.c\<close> over all its operations: once something is
  scheduled, either \<open>perform_update\<close> is queued or a page flip is awaited whose frame will run it.
  This holds while the session is active; switching away from the virtual terminal and back can
  break it, as the last property shows.
\<close>

subsection \<open>Every operation only requests\<close>

lemma requests_views:
  assumes "requests s t" shows "requests s (t\<lparr>c_views := xs\<rparr>)"
  by (rule requests_trans[OF assms]) (simp add: requests_same)

lemma requests_restack [request_intros]:
  "requests s t \<Longrightarrow> requests s (restack_view_for_layer v r t)"
  by (erule requests_trans) (simp add: requests_same)

lemma requests_redraw [request_intros]: "requests s t \<Longrightarrow> requests s (redraw_restacked v t)"
  by (simp add: redraw_restacked_def Let_def request_intros)

lemma requests_set_stack_layer [request_intros]:
  "requests s t \<Longrightarrow> requests s (compositor_view_set_stack_layer v l r t)"
  by (simp add: compositor_view_set_stack_layer_def Let_def request_intros)

lemma requests_span [request_intros]: "requests s t \<Longrightarrow> requests s (damage_span v t)"
  by (erule requests_trans) (simp add: requests_same damage_span_def Let_def)

lemma requests_damage_views [request_intros]: "requests s t \<Longrightarrow> requests s (damage_views a b t)"
  by (cases b) (simp_all add: damage_views_def Let_def request_intros)

lemma requests_sibling [request_intros]:
  "requests s t \<Longrightarrow> requests s (compositor_view_restack v b a t)"
  by (cases v; cases b) (auto simp: compositor_view_restack_def intro!: request_intros requests_views)

lemma requests_window_stack [request_intros]:
  "requests s t \<Longrightarrow> requests s (swc_window_stack v d t)"
  by (auto simp: swc_window_stack_def split: option.split intro!: request_intros requests_views)

lemma requests_raise_view [request_intros]: "requests s t \<Longrightarrow> requests s (raise_view v t)"
  by (simp add: raise_view_def Let_def request_intros requests_views)

lemma requests_show_self [request_intros]: "requests s t \<Longrightarrow> requests s (show_self v t)"
  by (simp add: show_self_def Let_def request_intros)

lemma requests_hide_self [request_intros]: "requests s t \<Longrightarrow> requests s (hide_self v t)"
  by (simp add: hide_self_def Let_def request_intros)

lemma requests_show_walk:
  "show_view n v t = Some t' \<Longrightarrow> requests t t'"
  "show_children n v c t = Some t' \<Longrightarrow> requests t t'"
proof (induction n arbitrary: v c t t')
  case (Suc n)
  {
    case 1
    have "requests t (show_self v t)" by (simp add: request_intros)
    with 1 Suc.IH(2)[of v "first_link (c_views (show_self v t))" "show_self v t" t'] show ?case
      by (auto simp: Let_def split: if_splits intro: requests_trans)
  next
    case 2
    show ?case
    proof (cases c)
      case (Some w)
      show ?thesis
      proof (cases "v_parent (cv t w) = Some v")
        case True
        then obtain u where u: "show_view n w t = Some u"
          "show_children n v (link_next w (c_views u)) u = Some t'"
          using 2 Some by (auto split: option.splits)
        show ?thesis by (rule requests_trans[OF Suc.IH(1)[OF u(1)] Suc.IH(2)[OF u(2)]])
      qed (use 2 Some Suc.IH(2) in auto)
    qed (use 2 in auto)
  }
qed simp_all

lemma requests_hide_walk:
  "hide_view n v t = Some t' \<Longrightarrow> requests t t'"
  "hide_children n v xs t = Some t' \<Longrightarrow> requests t t'"
proof (induction n arbitrary: v xs t t')
  case (Suc n)
  {
    case 1
    have "requests t (hide_self v t)" by (simp add: request_intros)
    with 1 Suc.IH(2)[of v "c_views t" "hide_self v t" t'] show ?case
      by (auto simp: Let_def hide_self_def split: if_splits intro: requests_trans)
  next
    case 2
    show ?case
    proof (cases xs)
      case (Cons w ws)
      show ?thesis
      proof (cases "v_parent (cv t w) = Some v")
        case True
        then obtain u where u: "hide_view n w t = Some u" "hide_children n v ws u = Some t'"
          using 2 Cons by (auto split: option.splits)
        show ?thesis by (rule requests_trans[OF Suc.IH(1)[OF u(1)] Suc.IH(2)[OF u(2)]])
      qed (use 2 Cons Suc.IH(2) in auto)
    qed (use 2 in auto)
  }
qed simp_all

subsection \<open>Steps of the compositor\<close>

text \<open>What can happen to the compositor: the operations, while the session is active, the idle
  callback, a frame event of a screen, and the session events. \<open>flip\<close> is what drawing and
  flipping comes to, as in \<open>perform_update\<close>.\<close>

inductive comp_step :: "'a comp_scheme \<Rightarrow> 'a comp_scheme \<Rightarrow> bool" where
  Move: "c_active s \<Longrightarrow> comp_step s (view_move v x y s)"
| Attach: "c_active s \<Longrightarrow> comp_step s (snd (view_attach r v b s))"
| Commit: "c_active s \<Longrightarrow> comp_step s (surface_apply_pending r f s)"
| Hold: "c_active s \<Longrightarrow> comp_step s (surface_hold_render n f s)"
| Release: "c_active s \<Longrightarrow> comp_step s (surface_release_render rs n f s)"
| Raise: "c_active s \<Longrightarrow> comp_step s (swc_window_raise w s)"
| Lower: "c_active s \<Longrightarrow> comp_step s (swc_window_lower w s)"
| Set_layer: "c_active s \<Longrightarrow> comp_step s (compositor_view_set_stack_layer v l b s)"
| Restack: "c_active s \<Longrightarrow> comp_step s (compositor_view_restack w w' b s)"
| Stack: "c_active s \<Longrightarrow> comp_step s (swc_window_stack w d s)"
| Show: "c_active s \<Longrightarrow> compositor_view_show v s = Some s' \<Longrightarrow> comp_step s s'"
| Hide: "c_active s \<Longrightarrow> compositor_view_hide v s = Some s' \<Longrightarrow> comp_step s s'"
| Border: "c_active s \<Longrightarrow> comp_step s (compositor_view_set_border_width v bo bi s)"
| Border_color: "c_active s \<Longrightarrow> comp_step s (compositor_view_set_border_color v oc ic s)"
| Clip_box: "c_active s \<Longrightarrow> comp_step s (set_clip_box c v cx cy cw ch s)"
| Overlay: "c_active s \<Longrightarrow> comp_step s (swc_overlay_set_box x1 y1 x2 y2 col bw s)"
| Overlay_clear: "c_active s \<Longrightarrow> comp_step s (swc_overlay_clear s)"
| Zoom: "c_active s \<Longrightarrow> comp_step s (swc_set_zoom z s)"
| Screens: "c_active s \<Longrightarrow> comp_step s (compositor_update_screens s)"
| Idle: "comp_step s (idle_update flip s)"
| Page_flip: "comp_step s (handle_screen_frame flip i t s)"
| Activate: "comp_step s (swc_event_activated s)"
| Deactivate: "comp_step s (swc_event_deactivated s)"

inductive comp_reach :: "'a comp_scheme \<Rightarrow> 'a comp_scheme \<Rightarrow> bool" where
  Start: "comp_reach s s"
| Next: "comp_reach s t \<Longrightarrow> comp_step t u \<Longrightarrow> comp_reach s u"

definition schedule_ok :: "'a comp_scheme \<Rightarrow> bool" where
  "schedule_ok s \<longleftrightarrow> \<not> c_updating s \<and> (if c_active s then repaint_pending s else c_sched s = 0)"

lemma schedule_ok_requests:
  "schedule_ok s \<Longrightarrow> c_active s \<Longrightarrow> requests s s' \<Longrightarrow> schedule_ok s'"
  using requests_repaint_pending[of s s'] by (simp add: schedule_ok_def requests_def)

lemma perform_update_ok:
  assumes "\<not> c_updating s" "c_active s \<or> c_sched s = 0"
  shows "schedule_ok (perform_update flip s)"
proof (cases "c_active s")
  case True
  have "c_active (perform_update flip s) \<Longrightarrow> repaint_pending (perform_update flip s)"
    "\<not> c_updating (perform_update flip s)"
    "\<not> c_active (perform_update flip s) \<Longrightarrow> c_sched (perform_update flip s) = 0"
    using perform_update_pending[OF True, of flip] assms(1) by blast+
  then show ?thesis by (simp add: schedule_ok_def)
next
  case False
  with assms show ?thesis by (simp add: perform_update_def schedule_ok_def)
qed

lemma fold_notify_sched:
  "\<exists>ns. fold (\<lambda>v s. if P v (cv s v) then view_frame v t s else s) vs s = s\<lparr>c_notes := c_notes s @ ns\<rparr>"
proof (induction vs arbitrary: s)
  case Nil
  show ?case by (rule exI[of _ "[]"]) simp
next
  case (Cons v vs)
  obtain ns where "(if P v (cv s v) then view_frame v t s else s) = s\<lparr>c_notes := c_notes s @ ns\<rparr>"
    by (cases "P v (cv s v)") (auto simp: view_frame_def notify_def intro: that[of "[]"])
  moreover obtain ms where "fold (\<lambda>v s. if P v (cv s v) then view_frame v t s else s) vs
      (s\<lparr>c_notes := c_notes s @ ns\<rparr>) = (s\<lparr>c_notes := c_notes s @ ns\<rparr>)\<lparr>c_notes := (c_notes s @ ns) @ ms\<rparr>"
    using Cons[of "s\<lparr>c_notes := c_notes s @ ns\<rparr>"] by auto
  ultimately show ?case by (intro exI[of _ "ns @ ms"]) simp
qed

lemma comp_step_ok:
  assumes "comp_step s s'" "schedule_ok s" shows "schedule_ok s'"
  using assms
proof cases
  case (Show v)
  with assms(2) requests_show_walk(1) show ?thesis
    unfolding compositor_view_show_def by (blast intro: schedule_ok_requests)
next
  case (Hide v)
  with assms(2) requests_hide_walk(1) show ?thesis
    unfolding compositor_view_hide_def by (blast intro: schedule_ok_requests)
next
  case (Idle flip)
  have "schedule_ok (perform_update flip (s\<lparr>c_idle := c_idle s - 1\<rparr>))"
    using assms(2) by (intro perform_update_ok) (auto simp: schedule_ok_def split: if_splits)
  with assms(2) show ?thesis by (simp add: idle_update_def Idle)
next
  case (Page_flip flip i t)
  obtain ns where n: "fold (\<lambda>v s. if v_visible (cv s v) \<and> v_screens (cv s v) AND screen_mask i \<noteq> 0
        then view_frame v t s else s) (c_views (s\<lparr>c_pending := c_pending s AND NOT (screen_mask i)\<rparr>))
        (s\<lparr>c_pending := c_pending s AND NOT (screen_mask i)\<rparr>) =
      s\<lparr>c_pending := c_pending s AND NOT (screen_mask i), c_notes := c_notes s @ ns\<rparr>"
    using fold_notify_sched[where P = "\<lambda>v x. v_visible x \<and> v_screens x AND screen_mask i \<noteq> 0"
        and t = t and vs = "c_views s" and s = "s\<lparr>c_pending := c_pending s AND NOT (screen_mask i)\<rparr>"]
    by auto
  let ?t = "s\<lparr>c_pending := c_pending s AND NOT (screen_mask i), c_notes := c_notes s @ ns\<rparr>"
  have e: "handle_screen_frame flip i t s = (if c_sched s \<noteq> 0 \<and> \<not> c_updating s then perform_update flip ?t else ?t)"
    unfolding handle_screen_frame_def Let_def n by simp
  show ?thesis
  proof (cases "c_sched s = 0")
    case True
    with assms(2) show ?thesis unfolding Page_flip e by (simp add: schedule_ok_def repaint_pending_def)
  next
    case False
    with assms(2) have "schedule_ok (perform_update flip ?t)"
      by (intro perform_update_ok) (auto simp: schedule_ok_def split: if_splits)
    with False assms(2) show ?thesis unfolding Page_flip e by (simp add: schedule_ok_def)
  qed
next
  case Activate
  have "repaint_pending (s\<lparr>c_active := True\<rparr>)" "\<not> c_updating s"
    using assms(2) by (auto simp: schedule_ok_def repaint_pending_def split: if_splits)
  then have "schedule_ok (s\<lparr>c_active := True\<rparr>)" by (simp add: schedule_ok_def)
  then show ?thesis
    unfolding Activate swc_event_activated_def
    by (rule schedule_ok_requests) (simp_all add: request_intros)
next
  case Deactivate
  with assms(2) show ?thesis by (simp add: swc_event_deactivated_def schedule_ok_def)
qed (use assms(2) in \<open>auto simp: swc_window_raise_def swc_window_lower_def
      intro!: request_intros elim!: schedule_ok_requests split: option.split\<close>)


subsection \<open>What is asked for is scheduled\<close>

lemma fold_or_mask: "fold (\<lambda>(i, g) m. m OR screen_mask i) xs m AND m = m"
proof (induction xs arbitrary: m)
  case (Cons a xs)
  obtain i g where a: "a = (i, g)" by force
  have "(m OR screen_mask i) AND m = m" by (auto simp: bit_eq_iff bit_and_iff bit_or_iff)
  from and_super_trans[OF this Cons[of "m OR screen_mask i"]] show ?case by (simp add: a)
qed simp

lemma schedule_updates_bits:
  assumes "m \<noteq> -1" shows "c_sched (schedule_updates m s) AND m = m"
proof -
  have or: "(a OR b) AND m = m" if "b AND m = m" for a b :: u32
    using that by (auto simp: bit_eq_iff bit_and_iff bit_or_iff)
  let ?s = "if c_sched s = 0 then s\<lparr>c_idle := Suc (c_idle s)\<rparr> else s"
  obtain r where r: "fold (\<lambda>(i, g) (s, m). (damage_rect g s, m OR screen_mask i)) (c_screens ?s) (?s, m) =
       (add_damage r ?s, fold (\<lambda>(i, g) m. m OR screen_mask i) (c_screens ?s) m)"
    using fold_damage_rect by blast
  show ?thesis
    using assms r fold_or_mask[of "c_screens ?s" m]
    by (cases "c_zoom ?s = 1") (simp_all add: schedule_updates_def Let_def or split del: if_split)
qed

subsection \<open>Properties\<close>



text \<open>C19: a window restacked while the session is inactive (the window manager keeps running when
  the user is on another virtual terminal) leaves the compositor dead after the switch back: a
  repaint is scheduled, nothing is queued to do it, and no later request queues it.\<close>

theorem repaint_lost_after_vt_switch:
  assumes "\<not> c_active s" "c_sched s = 0" "c_idle s = 0" "c_pending s = 0"
    and "c_heap s v \<noteq> None" "v_screens (cv s v) \<noteq> 0" "v_screens (cv s v) \<noteq> -1"
  shows "let s' = swc_event_activated (idle_update flip (swc_window_raise (Some v) s))
         in c_active s' \<and> c_sched s' \<noteq> 0 \<and> c_idle s' = 0 \<and> c_pending s' = 0 \<and>
            (\<forall>m. c_idle (schedule_updates m s') = 0)"
proof -
  let ?s1 = "swc_window_raise (Some v) s"
  let ?t = "damage_view v (restack_view_for_layer v True s)"
  have t: "c_sched ?t = 0" "c_idle ?t = 0" "c_pending ?t = 0" "\<not> c_active ?t"
    using assms by (simp_all add: damage_view_def damage_below_view_def)
  have sc: "v_screens (cv ?t v) \<noteq> 0" "v_screens (cv ?t v) \<noteq> -1"
    using assms(5-7) by (simp_all add: damage_view_def damage_below_view_def)
  have s1: "?s1 = schedule_updates (v_screens (cv ?t v)) ?t"
    by (simp add: swc_window_raise_def redraw_restacked_def Let_def)
  obtain r m where f: "?s1 = (add_damage r ?t)\<lparr>c_idle := Suc 0, c_sched := m\<rparr>"
    unfolding s1 using schedule_updates_form[of "v_screens (cv ?t v)" ?t] t by auto
  have "c_sched ?s1 \<noteq> 0"
    using schedule_updates_bits[OF sc(2), of ?t] sc(1) unfolding s1 by auto
  with f have m: "m \<noteq> 0" by simp
  have i: "idle_update flip ?s1 = (add_damage r ?t)\<lparr>c_idle := 0, c_sched := m\<rparr>"
    using t(4) by (simp add: f idle_update_def perform_update_def Let_def)
  have keep: "c_sched (schedule_updates k u) \<noteq> 0 \<and> c_idle (schedule_updates k u) = c_idle u"
    if "c_sched u \<noteq> 0" for k and u :: "'a comp_scheme"
    using schedule_updates_form[of k u] that by (auto simp: or_eq_0_iff)
  show ?thesis
    using t m unfolding i swc_event_activated_def Let_def by (simp add: keep)
qed

theorem repaint_lost_after_vt_switch_witness:
  "let s = (desktop [(7, window_at 7 0 0 100 100)])\<lparr>c_active := False, c_sched := 0, c_idle := 0\<rparr>;
       s' = swc_event_activated (idle_update (\<lambda>_. Some 0) (swc_window_raise (Some 7) s))
   in c_active s' \<and> c_sched s' \<noteq> 0 \<and> c_idle s' = 0"
proof -
  let ?s = "(desktop [(7, window_at 7 0 0 100 100)])\<lparr>c_active := False, c_sched := 0, c_idle := 0\<rparr>"
  have "\<not> c_active ?s" "c_sched ?s = 0" "c_idle ?s = 0" "c_pending ?s = 0"
    "c_heap ?s 7 \<noteq> None" "v_screens (cv ?s 7) \<noteq> 0" "v_screens (cv ?s 7) \<noteq> -1"
    by (simp_all add: desktop_def cv_def window_at_def compositor_initialize_def Let_def)
  from repaint_lost_after_vt_switch[OF this] show ?thesis unfolding Let_def by blast
qed

end
