(* ===== verification/WindowState.thy ===== *)
theory WindowState
  imports Transaction Repaint
begin

text \<open>
  The state of \<open>libswc/window.c\<close>: \<open>struct window\<close> with the \<open>xdg_toplevel\<close> it is part of, the open
  cohort and the cohort waiting to be presented, and the part of \<open>libswc/pointer.c\<close> that
  interactive moves and resizes hook into. The state extends the compositor's.

  A \<open>struct window_impl\<close> is one of the three the shells install: \<open>Xdg\<close> (\<open>libswc/xdg_shell.c\<close>,
  modelled here), \<open>WlShell\<close> (\<open>libswc/shell_surface.c\<close>) and \<open>Xwl\<close> (\<open>libswc/xwm.c\<close>, whose X11
  requests are recorded). Events sent to clients and calls of the window manager's handler are
  recorded in \<open>ws_events\<close>.
\<close>

subsection \<open>State\<close>

datatype shell = Xdg | WlShell | Xwl

text \<open>A \<open>struct pointer_handler\<close>: the one inside \<open>window->move.interaction\<close>, the one inside
  \<open>window->resize.interaction\<close>, or one of the compositor (its bindings, the focus, the client).\<close>

datatype hid = HMove addr | HResize addr | HOther nat

record interaction =
  ia_active :: bool
  ia_serial :: u32
  ia_original :: "hid option"

text \<open>The functions of a \<open>struct swc_window_handler\<close>.\<close>

datatype hfun =
    HDestroy | HTitle | HAppId | HParent | HEntered | HLeft | HMoveRequest | HResizeRequest
  | HMaximize | HUnmaximize | HMinimize | HWindowMenu

text \<open>\<open>w_handler f\<close> tells whether the handler of the window has the function \<open>f\<close>. \<open>w_states\<close> and
  \<open>w_xdg_serial\<close> are \<open>states\<close> of the \<open>xdg_toplevel\<close> and \<open>configure_serial\<close> of its
  \<open>xdg_surface\<close>. \<open>window->mode\<close> is \<open>c_mode\<close> of the compositor's state.\<close>

record window =
  w_title :: "string option"
  w_app_id :: "string option"
  w_parent :: "addr option"
  w_throttle :: u32
  w_min_w :: u32
  w_min_h :: u32
  w_max_w :: u32
  w_max_h :: u32
  w_impl :: shell
  w_handler :: "hfun \<Rightarrow> bool"
  w_view :: addr
  w_managed :: bool
  w_prev_geom :: rect
  w_prev_mode :: window_mode
  w_move :: interaction
  w_move_off_x :: i32
  w_move_off_y :: i32
  w_move_pending :: bool
  w_move_x :: i32
  w_move_y :: i32
  w_move_last :: u32
  w_resize :: interaction
  w_resize_off_x :: i32
  w_resize_off_y :: i32
  w_edges :: u32
  w_resize_last :: u32
  w_pending :: bool
  w_acknowledged :: bool
  w_conf_w :: u32
  w_conf_h :: u32
  w_serial :: u32
  w_trans :: "addr option"
  w_trans_acked :: bool
  w_states :: "u32 list"
  w_xdg_serial :: u32

definition null_handler :: "hfun \<Rightarrow> bool" where
  "null_handler = (\<lambda>_. False)"

datatype wevent =
    Call hfun
  | WindowMenu i32 i32
  | NewWindow
  | XdgConfigure i32 i32 "u32 list" u32
  | XdgClose
  | ShellConfigure u32 u32
  | ShellClose
  | XMove i32 i32
  | XConfigure u32 u32
  | XFocus
  | XUnfocus
  | XClose

text \<open>A pressed pointer button.\<close>

record button =
  bt_value :: u32
  bt_serial :: u32
  bt_handler :: "hid option"

text \<open>\<open>ws_trans\<close> is \<open>window_transaction\<close> with the object it points to, \<open>ws_cohort\<close> and
  \<open>ws_present\<close> are the lists \<open>transaction_windows\<close> and \<open>presentable_windows\<close>; \<open>ws_done\<close> is the
  callback of \<open>swc_transaction_commit\<close>, and a call of it is recorded in \<open>ws_reports\<close>.
  \<open>ws_focus\<close> is the view of \<open>keyboard->focus\<close>, \<open>ws_handlers\<close> and \<open>ws_buttons\<close> are the handlers
  and the pressed buttons of the pointer, \<open>ws_ptr_calls\<close> records the calls of the handlers of the
  compositor. \<open>ws_renderer v\<close>, what \<open>renderer_attach\<close> returns for view \<open>v\<close>, and \<open>ws_mem\<close>,
  whether allocations succeed, belong to the environment.\<close>

record wstate = comp +
  ws_win :: "addr \<Rightarrow> window option"
  ws_trans :: "(addr \<times> addr transaction) option"
  ws_cohort :: "addr list"
  ws_present :: "addr list"
  ws_present_init :: bool
  ws_done :: "nat option"
  ws_reports :: "(nat \<times> bool) list"
  ws_events :: "(addr \<times> wevent) list"
  ws_focus :: "addr option"
  ws_px :: i32
  ws_py :: i32
  ws_handlers :: "hid list"
  ws_buttons :: "button list"
  ws_ptr_calls :: "(nat \<times> u32) list"
  ws_next_serial :: u32
  ws_renderer :: "addr \<Rightarrow> int"
  ws_mem :: bool

definition win :: "'a wstate_scheme \<Rightarrow> addr \<Rightarrow> window" where
  "win s w = the (ws_win s w)"

definition live :: "'a wstate_scheme \<Rightarrow> addr \<Rightarrow> bool" where
  "live s w \<longleftrightarrow> ws_win s w \<noteq> None"

definition updw :: "addr \<Rightarrow> (window \<Rightarrow> window) \<Rightarrow> 'a wstate_scheme \<Rightarrow> 'a wstate_scheme" where
  "updw w f s = s\<lparr>ws_win := (ws_win s)(w := map_option f (ws_win s w))\<rparr>"

definition emit :: "addr \<Rightarrow> wevent \<Rightarrow> 'a wstate_scheme \<Rightarrow> 'a wstate_scheme" where
  "emit w e s = s\<lparr>ws_events := ws_events s @ [(w, e)]\<rparr>"

definition set_window_mode :: "addr \<Rightarrow> window_mode \<Rightarrow> 'a wstate_scheme \<Rightarrow> 'a wstate_scheme" where
  "set_window_mode w m s = s\<lparr>c_mode := (c_mode s)(w := m)\<rparr>"

text \<open>A call of a function of the handler, when it has the function.\<close>

definition call_handler :: "addr \<Rightarrow> hfun \<Rightarrow> 'a wstate_scheme \<Rightarrow> 'a wstate_scheme" where
  "call_handler w f s = (if w_handler (win s w) f then emit w (Call f) s else s)"

text \<open>The geometry of the view of a window.\<close>

abbreviation geom :: "'a wstate_scheme \<Rightarrow> addr \<Rightarrow> rect" where
  "geom s w \<equiv> v_geom (cv s (w_view (win s w)))"

subsection \<open>The functions of the shells\<close>

abbreviation (input) XDG_MAXIMIZED :: u32 where "XDG_MAXIMIZED \<equiv> 1"
abbreviation (input) XDG_FULLSCREEN :: u32 where "XDG_FULLSCREEN \<equiv> 2"
abbreviation (input) XDG_ACTIVATED :: u32 where "XDG_ACTIVATED \<equiv> 4"

definition add_state :: "addr \<Rightarrow> u32 \<Rightarrow> 'a wstate_scheme \<Rightarrow> bool \<times> 'a wstate_scheme" where
  "add_state w state s =
     (if state \<in> set (w_states (win s w)) then (False, s)
      else if \<not> ws_mem s then (False, s)
      else (True, updw w (\<lambda>x. x\<lparr>w_states := w_states x @ [state]\<rparr>) s))"

definition remove_state :: "addr \<Rightarrow> u32 \<Rightarrow> 'a wstate_scheme \<Rightarrow> bool \<times> 'a wstate_scheme" where
  "remove_state w state s =
     (if state \<in> set (w_states (win s w))
      then (True, updw w (\<lambda>x. x\<lparr>w_states := remove1 state (w_states x)\<rparr>) s)
      else (False, s))"

definition send_configure :: "addr \<Rightarrow> i32 \<Rightarrow> i32 \<Rightarrow> 'a wstate_scheme \<Rightarrow> u32 \<times> 'a wstate_scheme" where
  "send_configure w width height s =
     (let serial = ws_next_serial s; s = s\<lparr>ws_next_serial := serial + 1\<rparr>;
          width = (if sint width < 0 then w_conf_w (win s w) else width);
          height = (if sint height < 0 then w_conf_h (win s w) else height)
      in (serial, emit w (XdgConfigure width height (w_states (win s w)) serial) s))"

definition xdg_configure :: "addr \<Rightarrow> u32 \<Rightarrow> u32 \<Rightarrow> 'a wstate_scheme \<Rightarrow> 'a wstate_scheme" where
  "xdg_configure w width height s =
     (let s = updw w (\<lambda>x. x\<lparr>w_acknowledged := False\<rparr>) s;
          (serial, s) = send_configure w width height s
      in updw w (\<lambda>x. x\<lparr>w_xdg_serial := serial\<rparr>) s)"

definition xdg_send_size :: "addr \<Rightarrow> 'a wstate_scheme \<Rightarrow> 'a wstate_scheme" where
  "xdg_send_size w s =
     (let width = r_w (geom s w); height = r_h (geom s w)
      in snd (send_configure w (if width \<noteq> 0 then width else -1) (if height \<noteq> 0 then height else -1) s))"

definition xdg_focus :: "addr \<Rightarrow> 'a wstate_scheme \<Rightarrow> 'a wstate_scheme" where
  "xdg_focus w s = xdg_send_size w (snd (add_state w XDG_ACTIVATED s))"

definition xdg_unfocus :: "addr \<Rightarrow> 'a wstate_scheme \<Rightarrow> 'a wstate_scheme" where
  "xdg_unfocus w s = xdg_send_size w (snd (remove_state w XDG_ACTIVATED s))"

definition xdg_set_mode :: "addr \<Rightarrow> window_mode \<Rightarrow> 'a wstate_scheme \<Rightarrow> 'a wstate_scheme" where
  "xdg_set_mode w mode s =
     (let s = (case c_mode s w of
                 WINDOW_MODE_TILED \<Rightarrow> snd (remove_state w XDG_MAXIMIZED s)
               | WINDOW_MODE_FULLSCREEN \<Rightarrow> snd (remove_state w XDG_FULLSCREEN s)
               | _ \<Rightarrow> s);
          s = (case mode of
                 WINDOW_MODE_TILED \<Rightarrow> snd (add_state w XDG_MAXIMIZED s)
               | WINDOW_MODE_FULLSCREEN \<Rightarrow> snd (add_state w XDG_FULLSCREEN s)
               | _ \<Rightarrow> s)
      in snd (send_configure w (-1) (-1) s))"

text \<open>\<open>wl_shell\<close> and Xwayland acknowledge a configure as they send it.\<close>

definition shell_configure :: "addr \<Rightarrow> u32 \<Rightarrow> u32 \<Rightarrow> 'a wstate_scheme \<Rightarrow> 'a wstate_scheme" where
  "shell_configure w width height s =
     updw w (\<lambda>x. x\<lparr>w_acknowledged := True\<rparr>) (emit w (ShellConfigure width height) s)"

definition xwl_configure :: "addr \<Rightarrow> u32 \<Rightarrow> u32 \<Rightarrow> 'a wstate_scheme \<Rightarrow> 'a wstate_scheme" where
  "xwl_configure w width height s =
     emit w (XConfigure width height) (updw w (\<lambda>x. x\<lparr>w_acknowledged := True\<rparr>) s)"

text \<open>The calls through \<open>window->impl\<close>, a function the shell lacks being \<open>NULL\<close>.\<close>

definition impl_move :: "addr \<Rightarrow> i32 \<Rightarrow> i32 \<Rightarrow> 'a wstate_scheme \<Rightarrow> 'a wstate_scheme" where
  "impl_move w x y s = (case w_impl (win s w) of Xwl \<Rightarrow> emit w (XMove x y) s | _ \<Rightarrow> s)"

definition impl_configure :: "addr \<Rightarrow> u32 \<Rightarrow> u32 \<Rightarrow> 'a wstate_scheme \<Rightarrow> 'a wstate_scheme" where
  "impl_configure w width height s =
     (case w_impl (win s w) of
        Xdg \<Rightarrow> xdg_configure w width height s
      | WlShell \<Rightarrow> shell_configure w width height s
      | Xwl \<Rightarrow> xwl_configure w width height s)"

definition impl_focus :: "addr \<Rightarrow> 'a wstate_scheme \<Rightarrow> 'a wstate_scheme" where
  "impl_focus w s =
     (case w_impl (win s w) of Xdg \<Rightarrow> xdg_focus w s | WlShell \<Rightarrow> s | Xwl \<Rightarrow> emit w XFocus s)"

definition impl_unfocus :: "addr \<Rightarrow> 'a wstate_scheme \<Rightarrow> 'a wstate_scheme" where
  "impl_unfocus w s =
     (case w_impl (win s w) of Xdg \<Rightarrow> xdg_unfocus w s | WlShell \<Rightarrow> s | Xwl \<Rightarrow> emit w XUnfocus s)"

definition impl_close :: "addr \<Rightarrow> 'a wstate_scheme \<Rightarrow> 'a wstate_scheme" where
  "impl_close w s =
     emit w (case w_impl (win s w) of Xdg \<Rightarrow> XdgClose | WlShell \<Rightarrow> ShellClose | Xwl \<Rightarrow> XClose) s"

definition impl_set_mode :: "addr \<Rightarrow> window_mode \<Rightarrow> 'a wstate_scheme \<Rightarrow> 'a wstate_scheme" where
  "impl_set_mode w mode s = (case w_impl (win s w) of Xdg \<Rightarrow> xdg_set_mode w mode s | _ \<Rightarrow> s)"

subsection \<open>A concrete desktop\<close>

text \<open>What \<open>window_initialize\<close> leaves in a window.\<close>

definition fresh_window :: "shell \<Rightarrow> addr \<Rightarrow> window" where
  "fresh_window sh v =
     \<lparr>w_title = None, w_app_id = None, w_parent = None, w_throttle = 16, w_min_w = 0, w_min_h = 0,
      w_max_w = 0, w_max_h = 0, w_impl = sh, w_handler = null_handler, w_view = v, w_managed = False,
      w_prev_geom = \<lparr>r_x = 0, r_y = 0, r_w = 0, r_h = 0\<rparr>, w_prev_mode = WINDOW_MODE_STACKED,
      w_move = \<lparr>ia_active = False, ia_serial = 0, ia_original = None\<rparr>, w_move_off_x = 0,
      w_move_off_y = 0, w_move_pending = False, w_move_x = 0, w_move_y = 0, w_move_last = 0,
      w_resize = \<lparr>ia_active = False, ia_serial = 0, ia_original = None\<rparr>, w_resize_off_x = 0,
      w_resize_off_y = 0, w_edges = 0, w_resize_last = 0, w_pending = False, w_acknowledged = False,
      w_conf_w = 0, w_conf_h = 0, w_serial = 0, w_trans = None, w_trans_acked = False,
      w_states = [], w_xdg_serial = 0\<rparr>"

text \<open>Windows of one shell and one mode at the places given, each with the view and the surface of
  its own address.\<close>

definition running :: "window_mode \<Rightarrow> shell \<Rightarrow> (addr \<times> rect) list \<Rightarrow> wstate" where
  "running m sh gs =
     (let d = desktop (map (\<lambda>(n, g). (n, window_at n (r_x g) (r_y g) (r_w g) (r_h g))) gs)
      in \<lparr>c_heap = c_heap d, c_views = c_views d,
          c_surf = (\<lambda>f. case map_of gs f of
             None \<Rightarrow> surface_new
           | Some g \<Rightarrow> surface_new\<lparr>sf_view := Some f, sf_buffer := Some (r_w g, r_h g)\<rparr>),
          c_mode = (\<lambda>_. m), c_damage = [], c_opaque = [], c_pending = 0, c_sched = 1,
          c_updating = False, c_init = True, c_active = True, c_screens = c_screens d, c_zoom = 1,
          c_overlay = c_overlay d, c_idle = 1, c_notes = [],
          ws_win = (\<lambda>w. map_option (\<lambda>_. fresh_window sh w) (map_of gs w)), ws_trans = None,
          ws_cohort = [], ws_present = [], ws_present_init = False, ws_done = None, ws_reports = [],
          ws_events = [], ws_focus = None, ws_px = 0, ws_py = 0, ws_handlers = [HOther 0],
          ws_buttons = [], ws_ptr_calls = [], ws_next_serial = 1, ws_renderer = (\<lambda>_. 0), ws_mem = True\<rparr>)"

end
