(* ===== verification/Window.thy ===== *)
theory Window
  imports WindowState
begin

text \<open>
  \<open>libswc/window.c\<close>: configures and their acknowledgement, moves, the commit cohort that makes a
  relayout of several windows land in one frame, modes, and interactive moves and resizes.

  A window's \<open>view_handler\<close> runs when its view is attached or resized. The compositor's
  operations record these calls (\<open>c_notes\<close>); \<open>with_handlers\<close> runs the window's part of them when
  the operation is over. The callback of \<open>swc_transaction_commit\<close> is recorded, not run.
\<close>

subsection \<open>Sizes\<close>

definition clamp_window_size :: "window \<Rightarrow> u32 \<Rightarrow> u32 \<Rightarrow> u32 \<times> u32" where
  "clamp_window_size x width height =
     (clamp_dimension width (w_min_w x) (w_max_w x), clamp_dimension height (w_min_h x) (w_max_h x))"

subsection \<open>Moves and the handlers of a view\<close>

definition flush :: "addr \<Rightarrow> 'a wstate_scheme \<Rightarrow> 'a wstate_scheme" where
  "flush w s =
     (let x = win s w
      in if w_move_pending x
         then updw w (\<lambda>x. x\<lparr>w_move_pending := False\<rparr>)
                (view_move (w_view x) (w_move_x x) (w_move_y x) (impl_move w (w_move_x x) (w_move_y x) s))
         else s)"

definition handle_attach :: "addr \<Rightarrow> 'a wstate_scheme \<Rightarrow> 'a wstate_scheme" where
  "handle_attach w s =
     (if w_trans (win s w) \<noteq> None then s
      else
        let s = (if w_acknowledged (win s w) then flush w s else s)
        in updw w (\<lambda>x. x\<lparr>w_pending := False\<rparr>) s)"

abbreviation (input) EDGE_TOP :: u32 where "EDGE_TOP \<equiv> 1"
abbreviation (input) EDGE_BOTTOM :: u32 where "EDGE_BOTTOM \<equiv> 2"
abbreviation (input) EDGE_LEFT :: u32 where "EDGE_LEFT \<equiv> 4"
abbreviation (input) EDGE_RIGHT :: u32 where "EDGE_RIGHT \<equiv> 8"

definition handle_resize :: "addr \<Rightarrow> u32 \<Rightarrow> u32 \<Rightarrow> 'a wstate_scheme \<Rightarrow> 'a wstate_scheme" where
  "handle_resize w old_width old_height s =
     (let x = win s w; g = geom s w
      in if ia_active (w_resize x) \<and> w_edges x AND (EDGE_TOP OR EDGE_LEFT) \<noteq> 0
         then view_move (w_view x)
                (if w_edges x AND EDGE_LEFT \<noteq> 0 then r_x g + (old_width - r_w g) else r_x g)
                (if w_edges x AND EDGE_TOP \<noteq> 0 then r_y g + (old_height - r_h g) else r_y g) s
         else s)"

definition run_note :: "addr \<times> vnote \<Rightarrow> 'a wstate_scheme \<Rightarrow> 'a wstate_scheme" where
  "run_note vn s =
     (case (if c_heap s (fst vn) = None then None else v_window (cv s (fst vn))) of
        None \<Rightarrow> s
      | Some w \<Rightarrow>
          (case snd vn of
             NAttach \<Rightarrow> handle_attach w s
           | NResize old_w old_h \<Rightarrow> handle_resize w old_w old_h s
           | _ \<Rightarrow> s))"

definition with_handlers :: "('a wstate_scheme \<Rightarrow> 'a wstate_scheme) \<Rightarrow> 'a wstate_scheme \<Rightarrow> 'a wstate_scheme"
where
  "with_handlers f s =
     (let t = f s in fold run_note (drop (length (c_notes s)) (c_notes t)) t)"

text \<open>The render hold of the surface of a window: every surface has a view of its own, so the tree
  of its subsurfaces is not deeper than the list of views is long.\<close>

definition win_surface :: "'a wstate_scheme \<Rightarrow> addr \<Rightarrow> addr" where
  "win_surface s w = the (v_surface (cv s (w_view (win s w))))"

definition hold_window :: "addr \<Rightarrow> 'a wstate_scheme \<Rightarrow> 'a wstate_scheme" where
  "hold_window w s = surface_hold_render (Suc (length (c_views s))) (win_surface s w) s"

definition release_window :: "addr \<Rightarrow> 'a wstate_scheme \<Rightarrow> 'a wstate_scheme" where
  "release_window w s =
     with_handlers (surface_release_render (ws_renderer s) (Suc (length (c_views s))) (win_surface s w)) s"

subsection \<open>The cohort\<close>

definition park_window :: "addr transaction option \<Rightarrow> addr \<Rightarrow> 'a wstate_scheme \<Rightarrow> 'a wstate_scheme" where
  "park_window t w s =
     (let s = updw w (\<lambda>x. x\<lparr>w_trans_acked := transaction_acked t w, w_trans := None\<rparr>) s
      in s\<lparr>ws_cohort := remove1 w (ws_cohort s), ws_present := w # ws_present s\<rparr>)"

definition transaction_done :: "bool \<Rightarrow> 'a wstate_scheme \<Rightarrow> 'a wstate_scheme" where
  "transaction_done timed_out s =
     (let s = fold (park_window (map_option snd (ws_trans s))) (ws_cohort s) s;
          s = s\<lparr>ws_trans := None\<rparr>;
          done = ws_done s;
          s = s\<lparr>ws_done := None\<rparr>
      in case done of None \<Rightarrow> s | Some cb \<Rightarrow> s\<lparr>ws_reports := ws_reports s @ [(cb, timed_out)]\<rparr>)"

text \<open>\<open>settled\<close> stores the transaction an operation of the barrier leaves, and runs the completion
  handler when the operation calls it. \<open>the_trans a\<close> is the transaction at address \<open>a\<close>.\<close>

definition settled :: "addr transaction option \<times> bool option \<Rightarrow> 'a wstate_scheme \<Rightarrow> 'a wstate_scheme"
where
  "settled r s =
     (let s = s\<lparr>ws_trans := (case (ws_trans s, fst r) of
                               (Some (a, _), Some t) \<Rightarrow> Some (a, t) | (old, _) \<Rightarrow> old)\<rparr>
      in case snd r of None \<Rightarrow> s | Some timed_out \<Rightarrow> transaction_done timed_out s)"

definition the_trans :: "addr option \<Rightarrow> 'a wstate_scheme \<Rightarrow> addr transaction option" where
  "the_trans a s =
     (case (a, ws_trans s) of
        (Some a, Some (b, t)) \<Rightarrow> if a = b then Some t else None
      | _ \<Rightarrow> None)"

definition unlink :: "addr \<Rightarrow> 'a wstate_scheme \<Rightarrow> 'a wstate_scheme" where
  "unlink w s = s\<lparr>ws_cohort := remove1 w (ws_cohort s), ws_present := remove1 w (ws_present s)\<rparr>"

definition leave_transaction :: "addr \<Rightarrow> 'a wstate_scheme \<Rightarrow> 'a wstate_scheme" where
  "leave_transaction w s =
     (case w_trans (win s w) of
        None \<Rightarrow> unlink w s
      | Some a \<Rightarrow>
          let s = unlink w (updw w (\<lambda>x. x\<lparr>w_trans := None\<rparr>) s);
              s = release_window w s
          in settled (transaction_remove (the_trans (Some a) s) w) s)"

definition join_transaction :: "addr \<Rightarrow> bool \<Rightarrow> 'a wstate_scheme \<Rightarrow> 'a wstate_scheme" where
  "join_transaction w awaiting_ack s =
     (case ws_trans s of
        None \<Rightarrow> s
      | Some (a, t) \<Rightarrow>
          if w_trans (win s w) \<noteq> None then s
          else
            let serial = w_serial (win s w);
                (t', added) = transaction_add (ws_mem s) (Some t) w serial
            in if \<not> added then s
               else
                 let s = s\<lparr>ws_trans := map_option (Pair a) t'\<rparr>;
                     s = updw w (\<lambda>x. x\<lparr>w_trans := Some a\<rparr>) s;
                     s = s\<lparr>ws_cohort := w # ws_cohort s\<rparr>;
                     s = hold_window w s
                 in if awaiting_ack then s
                    else settled (transaction_ack (the_trans (Some a) s) w serial) s)"

definition present_window :: "addr \<Rightarrow> 'a wstate_scheme \<Rightarrow> 'a wstate_scheme" where
  "present_window w s =
     (let s = s\<lparr>ws_present := remove1 w (ws_present s)\<rparr>;
          s = (if w_trans_acked (win s w)
               then updw w (\<lambda>x. x\<lparr>w_pending := False\<rparr>) (flush w s) else s)
      in release_window w s)"

definition present_cohort :: "'a wstate_scheme \<Rightarrow> 'a wstate_scheme" where
  "present_cohort s = fold present_window (ws_present s) s"

text \<open>\<open>mem\<close> is the address \<open>malloc\<close> returns for the transaction, \<open>None\<close> when it fails.\<close>

definition swc_transaction_begin :: "addr option \<Rightarrow> 'a wstate_scheme \<Rightarrow> bool \<times> 'a wstate_scheme" where
  "swc_transaction_begin mem s =
     (let s = (if \<not> ws_present_init s then s\<lparr>ws_present := [], ws_present_init := True\<rparr> else s)
      in if ws_trans s \<noteq> None then (False, s)
         else
           let s = present_cohort s;
               t = transaction_create True (mem \<noteq> None) True
           in case t of
                None \<Rightarrow> (False, s)
              | Some t \<Rightarrow> (True, s\<lparr>ws_trans := Some (the mem, t), ws_cohort := []\<rparr>))"

definition swc_transaction_present :: "'a wstate_scheme \<Rightarrow> 'a wstate_scheme" where
  "swc_transaction_present s = (if \<not> ws_present_init s then s else present_cohort s)"

definition swc_transaction_commit :: "u32 \<Rightarrow> nat option \<Rightarrow> 'a wstate_scheme \<Rightarrow> 'a wstate_scheme" where
  "swc_transaction_commit timeout_ms done s =
     (case ws_trans s of
        None \<Rightarrow> s
      | Some (a, t) \<Rightarrow>
          let s = s\<lparr>ws_done := done\<rparr>
          in settled (transaction_commit (ws_mem s) (Some t) timeout_ms) s)"

definition swc_transaction_active :: "'a wstate_scheme \<Rightarrow> bool" where
  "swc_transaction_active s \<longleftrightarrow> ws_trans s \<noteq> None"

text \<open>The timer of the transaction, run by the event loop while it is armed.\<close>

definition transaction_timeout :: "'a wstate_scheme \<Rightarrow> 'a wstate_scheme" where
  "transaction_timeout s =
     (case ws_trans s of
        None \<Rightarrow> s
      | Some (a, t) \<Rightarrow> if timer_armed t then settled (apfst Some (Transaction.handle_timeout t)) s else s)"

definition window_ack_configure :: "addr \<Rightarrow> 'a wstate_scheme \<Rightarrow> 'a wstate_scheme" where
  "window_ack_configure w s =
     (let s = updw w (\<lambda>x. x\<lparr>w_acknowledged := True\<rparr>) s
      in if w_trans (win s w) = None then s
         else settled (transaction_ack (the_trans (w_trans (win s w)) s) w (w_serial (win s w))) s)"

definition swc_window_get_committed_size :: "addr option \<Rightarrow> 'a wstate_scheme \<Rightarrow> (u32 \<times> u32) option" where
  "swc_window_get_committed_size base s =
     (case base of None \<Rightarrow> None | Some w \<Rightarrow> surface_committed_size (c_surf s (win_surface s w)))"

subsection \<open>Position and size\<close>

definition swc_window_set_position :: "addr option \<Rightarrow> i32 \<Rightarrow> i32 \<Rightarrow> 'a wstate_scheme \<Rightarrow> 'a wstate_scheme"
where
  "swc_window_set_position base x y s =
     (case base of
        None \<Rightarrow> s
      | Some w \<Rightarrow>
          if x = r_x (geom s w) \<and> y = r_y (geom s w)
          then updw w (\<lambda>z. z\<lparr>w_move_pending := False\<rparr>) s
          else
            let s = updw w (\<lambda>z. z\<lparr>w_move_x := x, w_move_y := y, w_move_pending := True\<rparr>) s
            in if ws_trans s \<noteq> None
               then join_transaction w (w_pending (win s w) \<and> \<not> w_acknowledged (win s w)) s
               else if \<not> w_pending (win s w) then flush w s else s)"

text \<open>\<open>swc_window_set_size\<close> from the new serial to the bookkeeping of a tiled window.\<close>

definition reconfigured :: "addr \<Rightarrow> u32 \<Rightarrow> u32 \<Rightarrow> 'a wstate_scheme \<Rightarrow> 'a wstate_scheme" where
  "reconfigured w width height s =
     (let s = updw w (\<lambda>z. z\<lparr>w_serial := w_serial z + 1, w_acknowledged := False\<rparr>) s;
          s = impl_configure w width height s
      in if c_mode s w = WINDOW_MODE_TILED
         then updw w (\<lambda>z. z\<lparr>w_conf_w := width, w_conf_h := height, w_pending := True\<rparr>) s
         else s)"

definition swc_window_set_size :: "addr option \<Rightarrow> u32 \<Rightarrow> u32 \<Rightarrow> 'a wstate_scheme \<Rightarrow> 'a wstate_scheme" where
  "swc_window_set_size base width height s =
     (case base of
        None \<Rightarrow> s
      | Some w \<Rightarrow>
          let x = win s w; (width, height) = clamp_window_size x width height
          in if w_pending x \<and> width = w_conf_w x \<and> height = w_conf_h x \<or>
                \<not> w_pending x \<and> width = r_w (geom s w) \<and> height = r_h (geom s w)
             then s
             else
               let s = reconfigured w width height s
               in if ws_trans s \<noteq> None then join_transaction w (\<not> w_acknowledged (win s w)) s else s)"

definition swc_window_set_geometry :: "addr option \<Rightarrow> rect \<Rightarrow> 'a wstate_scheme \<Rightarrow> 'a wstate_scheme" where
  "swc_window_set_geometry base g s =
     swc_window_set_position base (r_x g) (r_y g) (swc_window_set_size base (r_w g) (r_h g) s)"

definition swc_window_get_geometry :: "addr option \<Rightarrow> 'a wstate_scheme \<Rightarrow> rect option" where
  "swc_window_get_geometry base s = (case base of None \<Rightarrow> None | Some w \<Rightarrow> Some (geom s w))"

definition swc_window_set_stacked :: "addr \<Rightarrow> 'a wstate_scheme \<Rightarrow> 'a wstate_scheme" where
  "swc_window_set_stacked w s =
     (let s = (if w_trans (win s w) = None then flush w s else s);
          s = updw w (\<lambda>x. x\<lparr>w_pending := False, w_conf_w := 0, w_conf_h := 0\<rparr>) s;
          s = impl_set_mode w WINDOW_MODE_STACKED s
      in set_window_mode w WINDOW_MODE_STACKED s)"

text \<open>A commit of a surface, with the handlers of its view.\<close>

definition window_commit :: "int \<Rightarrow> addr \<Rightarrow> 'a wstate_scheme \<Rightarrow> 'a wstate_scheme" where
  "window_commit r f s = with_handlers (surface_apply_pending r f) s"

end
