(* ===== verification/Frames.thy ===== *)
theory Frames
  imports Repaint
begin

text \<open>
  What the compositor's operations on a view leave alone, for the theories above it: the other
  views and surfaces, the links between views, surfaces and windows, and whatever a larger state
  adds. \<open>acts F V s s'\<close> says that \<open>s'\<close> comes from \<open>s\<close> by work on the surfaces in \<open>F\<close> and the
  views in \<open>V\<close>; handlers were called for views in \<open>V\<close> only.
\<close>

definition same_link :: "cview \<Rightarrow> cview \<Rightarrow> bool" where
  "same_link x y \<longleftrightarrow> v_surface y = v_surface x \<and> v_window y = v_window x \<and> v_parent y = v_parent x"

definition acts :: "addr set \<Rightarrow> addr set \<Rightarrow> 'a comp_scheme \<Rightarrow> 'a comp_scheme \<Rightarrow> bool" where
  "acts F V s s' \<longleftrightarrow>
     comp.more s' = comp.more s \<and> c_views s' = c_views s \<and> c_mode s' = c_mode s \<and>
     (\<forall>u. (c_heap s' u = None) = (c_heap s u = None) \<and> same_link (cv s u) (cv s' u)) \<and>
     (\<forall>f. sf_children (c_surf s' f) = sf_children (c_surf s f) \<and>
          sf_view (c_surf s' f) = sf_view (c_surf s f)) \<and>
     (\<forall>u. u \<notin> V \<longrightarrow> c_heap s' u = c_heap s u) \<and> (\<forall>f. f \<notin> F \<longrightarrow> c_surf s' f = c_surf s f) \<and>
     (\<exists>ns. c_notes s' = c_notes s @ ns \<and> fst ` set ns \<subseteq> V)"

named_theorems acts_intros \<open>operations that act on some views and surfaces\<close>

lemma same_link_refl [simp]: "same_link x x"
  by (simp add: same_link_def)

lemma acts_refl [simp, intro]: "acts F V s s"
  by (simp add: acts_def)

lemma acts_trans: "acts F V s t \<Longrightarrow> acts F V t u \<Longrightarrow> acts F V s u"
  unfolding acts_def same_link_def by (elim conjE exE, intro conjI allI impI) (auto simp: image_Un)

lemma acts_mono: "acts F V s t \<Longrightarrow> F \<subseteq> F' \<Longrightarrow> V \<subseteq> V' \<Longrightarrow> acts F' V' s t"
  unfolding acts_def by (elim conjE exE, intro conjI) (blast | auto)+

lemma actsD:
  assumes "acts F V s s'"
  shows "comp.more s' = comp.more s" "c_views s' = c_views s" "c_mode s' = c_mode s"
    "(c_heap s' u = None) = (c_heap s u = None)" "v_surface (cv s' u) = v_surface (cv s u)"
    "v_window (cv s' u) = v_window (cv s u)" "v_parent (cv s' u) = v_parent (cv s u)"
    "sf_children (c_surf s' f) = sf_children (c_surf s f)" "sf_view (c_surf s' f) = sf_view (c_surf s f)"
    "u \<notin> V \<Longrightarrow> c_heap s' u = c_heap s u" "f \<notin> F \<Longrightarrow> c_surf s' f = c_surf s f"
    "u \<notin> V \<Longrightarrow> cv s' u = cv s u"
  using assms by (simp_all add: acts_def same_link_def cv_def)

lemma acts_same:
  assumes "c_heap s' = c_heap s" "c_views s' = c_views s" "c_surf s' = c_surf s"
    "c_mode s' = c_mode s" "c_notes s' = c_notes s" "comp.more s' = comp.more s"
  shows "acts F V s s'"
  using assms by (simp add: acts_def cv_def)

lemma acts_damage [acts_intros]: "acts F V s t \<Longrightarrow> acts F V s (add_damage r t)"
  by (erule acts_trans) (simp add: acts_same add_damage_def)

lemma acts_upd [acts_intros]:
  assumes "acts F V s t" "v \<in> V" "\<And>x. same_link x (f x)"
  shows "acts F V s (upd v f t)"
  using assms(1)
proof (rule acts_trans)
  have "same_link (cv t u) (cv (upd v f t) u)" for u
    using assms(3) by (cases "u = v"; cases "c_heap t u") (simp_all add: cv_def upd_def)
  then show "acts F V t (upd v f t)" using assms(2) by (auto simp: acts_def upd_def)
qed

lemma acts_notify [acts_intros]: "acts F V s t \<Longrightarrow> v \<in> V \<Longrightarrow> acts F V s (notify v n t)"
  by (erule acts_trans) (simp add: acts_def, simp add: notify_def)

lemma acts_schedule [acts_intros]: "acts F V s t \<Longrightarrow> acts F V s (schedule_updates m t)"
proof (erule acts_trans)
  obtain r k where "schedule_updates m t =
     (add_damage r t)\<lparr>c_idle := (if c_sched t = 0 then Suc (c_idle t) else c_idle t), c_sched := k\<rparr>"
    using schedule_updates_form by blast
  then show "acts F V t (schedule_updates m t)" by (simp add: acts_same add_damage_def)
qed

lemma acts_update [acts_intros]: "acts F V s t \<Longrightarrow> acts F V s (update_only v t)"
  by (simp add: update_view_def acts_schedule)

lemma acts_set_position [acts_intros]:
  "acts F V s t \<Longrightarrow> v \<in> V \<Longrightarrow> acts F V s (snd (view_set_position v x y t))"
  by (simp add: view_set_position_def acts_intros same_link_def)

lemma acts_set_size [acts_intros]:
  "acts F V s t \<Longrightarrow> v \<in> V \<Longrightarrow> acts F V s (snd (view_set_size v w h t))"
  by (simp add: view_set_size_def Let_def acts_intros same_link_def)

lemma acts_update_screens [acts_intros]:
  "acts F V s t \<Longrightarrow> v \<in> V \<Longrightarrow> acts F V s (view_update_screens v t)"
  by (simp add: view_update_screens_def view_set_screens_def Let_def acts_intros same_link_def)

lemma acts_extents [acts_intros]:
  "acts F V s t \<Longrightarrow> v \<in> V \<Longrightarrow> acts F V s (update_extents v t)"
  by (simp add: update_extents_def acts_intros same_link_def)

lemma acts_view_move [acts_intros]:
  "acts F V s t \<Longrightarrow> v \<in> V \<Longrightarrow> acts F V s (view_move v x y t)"
  unfolding view_move_def damage_below_view_def Let_def
  by (simp only: case_prod_beta) (simp add: acts_intros same_link_def)

lemma acts_attach [acts_intros]:
  "acts F V s t \<Longrightarrow> v \<in> V \<Longrightarrow> acts F V s (snd (attach r v b t))"
  unfolding attach_def Let_def
  by (simp only: case_prod_beta) (simp add: acts_intros same_link_def)

lemma acts_view_attach [acts_intros]:
  assumes "acts F V s t" "v \<in> V" shows "acts F V s (snd (view_attach r v b t))"
proof -
  have "acts F V s (snd (attach r v b t))" using assms by (rule acts_attach)
  then show ?thesis
    using assms(2) unfolding view_attach_def
    by (simp add: case_prod_beta acts_intros same_link_def)
qed

lemma acts_surf [acts_intros]:
  assumes "acts F V s t" "f \<in> F" "sf_children (g (c_surf t f)) = sf_children (c_surf t f)"
    "sf_view (g (c_surf t f)) = sf_view (c_surf t f)"
  shows "acts F V s (upd_surf f g t)"
  by (rule acts_trans[OF assms(1)]) (use assms(2-) in \<open>simp add: acts_def\<close>)

lemma acts_fold:
  assumes "\<And>x t. x \<in> set xs \<Longrightarrow> acts F V s t \<Longrightarrow> acts F V s (f x t)" "acts F V s t"
  shows "acts F V s (fold f xs t)"
  using assms by (induction xs arbitrary: t) auto

subsection \<open>Commits and holds\<close>

lemma acts_apply_pending [acts_intros]:
  assumes "acts F V s t" "f \<in> F" "\<And>v. sf_view (c_surf t f) = Some v \<Longrightarrow> v \<in> V"
  shows "acts F V s (surface_apply_pending r f t)"
  using assms unfolding surface_apply_pending_def Let_def
  by (auto split: option.split intro!: acts_intros)

text \<open>The surfaces a hold reaches.\<close>

fun surf_tree :: "nat \<Rightarrow> 'a comp_scheme \<Rightarrow> addr \<Rightarrow> addr set" where
  "surf_tree 0 s f = {}"
| "surf_tree (Suc n) s f = insert f (\<Union>g\<in>set (sf_children (c_surf s f)). surf_tree n s g)"

lemma surf_tree_cong:
  "(\<And>f. sf_children (c_surf s' f) = sf_children (c_surf s f)) \<Longrightarrow> surf_tree n s' f = surf_tree n s f"
  by (induction n arbitrary: f) auto

lemma surf_tree_children:
  "g \<in> surf_tree n s f \<Longrightarrow> g = f \<or> (\<exists>h. g \<in> set (sf_children (c_surf s h)))"
proof (induction n arbitrary: f)
  case (Suc n) then show ?case by fastforce
qed simp

lemma acts_hold:
  "surf_tree n s f \<subseteq> F \<Longrightarrow> acts F V s t \<Longrightarrow> acts F V s (surface_hold_render n f t)"
proof (induction n arbitrary: f t)
  case (Suc n)
  show ?case
  proof (cases "sf_held (c_surf t f)")
    case False
    let ?t = "upd_surf f (\<lambda>x. x\<lparr>sf_held := True\<rparr>) t"
    have a: "acts F V s ?t" using Suc.prems by (intro acts_intros) auto
    have "acts F V s (fold (surface_hold_render n) (sf_children (c_surf t f)) ?t)"
    proof (rule acts_fold[OF _ a])
      fix g u assume "g \<in> set (sf_children (c_surf t f))" and u: "acts F V s u"
      then have "g \<in> set (sf_children (c_surf s f))" using actsD(8)[OF Suc.prems(2)] by simp
      with Suc.prems(1) have "surf_tree n s g \<subseteq> F" by auto
      with u show "acts F V s (surface_hold_render n g u)" by (rule Suc.IH[rotated])
    qed
    with False show ?thesis by (simp add: Let_def)
  qed (use Suc.prems in simp)
qed simp

lemma acts_release:
  assumes "\<And>f v. f \<in> F \<Longrightarrow> sf_view (c_surf s f) = Some v \<Longrightarrow> v \<in> V"
  shows "surf_tree n s f \<subseteq> F \<Longrightarrow> acts F V s t \<Longrightarrow> acts F V s (surface_release_render r n f t)"
proof (induction n arbitrary: f t)
  case (Suc n)
  show ?case
  proof (cases "sf_held (c_surf t f)")
    case True
    have f: "f \<in> F" using Suc.prems by simp
    let ?t = "fold (surface_release_render r n) (sf_children (c_surf t f)) t"
    let ?u = "upd_surf f (\<lambda>x. x\<lparr>sf_held := False, sf_hold_attach := False, sf_hold_update := False\<rparr>) ?t"
    have "acts F V s ?t"
    proof (rule acts_fold[OF _ Suc.prems(2)])
      fix g u assume "g \<in> set (sf_children (c_surf t f))" and u: "acts F V s u"
      then have "g \<in> set (sf_children (c_surf s f))" using actsD(8)[OF Suc.prems(2)] by simp
      with Suc.prems(1) have "surf_tree n s g \<subseteq> F" by auto
      with u show "acts F V s (surface_release_render r n g u)" by (rule Suc.IH[rotated])
    qed
    then have u: "acts F V s ?u" using f by (intro acts_intros) auto
    have v: "\<And>v. sf_view (c_surf ?u f) = Some v \<Longrightarrow> v \<in> V"
      using assms[OF f] by (metis actsD(9)[OF u])
    have "acts F V s (case sf_view (c_surf ?u f) of None \<Rightarrow> ?u
       | Some v \<Rightarrow> let t = (if a then snd (view_attach (r v) v (sf_buffer (c_surf ?u f)) ?u) else ?u)
                   in if b then update_only v t else t)" for a b
      using u v by (auto simp: Let_def split: option.split intro!: acts_intros)
    with True show ?thesis unfolding surface_release_render.simps Let_def by simp
  qed (use Suc.prems in simp)
qed simp

subsection \<open>Parents and destruction\<close>

lemma requests_destroy:
  assumes "compositor_view_destroy r v t = Some t'"
  shows "comp.more t' = comp.more t"
proof -
  obtain u where u: "hide_view (walk_fuel (notify v NDestroy t)) v (notify v NDestroy t) = Some u"
    and t': "t' = (surface_set_view r (the (v_surface (cv u v))) None u)\<lparr>c_views :=
        remove1 v (c_views (surface_set_view r (the (v_surface (cv u v))) None u)),
      c_heap := (c_heap (surface_set_view r (the (v_surface (cv u v))) None u))(v := None)\<rparr>"
    using assms by (auto simp: compositor_view_destroy_def compositor_view_hide_def Let_def split: option.splits)
  have "comp.more u = comp.more t"
    using requests_hide_walk(1)[OF u] by (simp add: requests_def notify_def)
  moreover have "comp.more (surface_set_view r f None u) = comp.more u" for f
    by (simp add: surface_set_view_def Let_def upd_def upd_surf_def split: option.splits)
  ultimately show ?thesis using t' by simp
qed

lemma set_parent_more:
  assumes "compositor_view_set_parent v p s = Some t"
  shows "comp.more t = comp.more s"
proof -
  define u where "u = upd v (\<lambda>x. x\<lparr>v_parent := p\<rparr>) s"
  have u: "comp.more u = comp.more s" by (simp add: u_def upd_def)
  have "t = u \<or> hide_view (walk_fuel u) v u = Some t \<or> show_view (walk_fuel u) v u = Some t"
    using assms by (auto simp: compositor_view_set_parent_def compositor_view_hide_def compositor_view_show_def
        Let_def u_def[symmetric] split: option.splits if_splits)
  then show ?thesis
    using requests_hide_walk(1)[of "walk_fuel u" v u t] requests_show_walk(1)[of "walk_fuel u" v u t] u
    by (auto simp: requests_def)
qed

end
