(* ===== verification/Cohort.thy ===== *)
theory Cohort
  imports Window Frames
begin

text \<open>
  The commit cohort of \<open>libswc/window.c\<close> over every sequence of its operations: the lists, the
  transaction and the render holds stay consistent, a window of a cohort shows nothing new before
  the cohort is presented, and presenting puts every window at its new place with its new buffer.
\<close>

subsection \<open>Frames\<close>

lemma more_fields:
  assumes "comp.more s' = comp.more (s :: 'a wstate_scheme)"
  shows "ws_win s' = ws_win s" "ws_trans s' = ws_trans s" "ws_cohort s' = ws_cohort s"
    "ws_present s' = ws_present s" "ws_present_init s' = ws_present_init s"
    "ws_renderer s' = ws_renderer s" "ws_events s' = ws_events s" "ws_done s' = ws_done s"
    "ws_reports s' = ws_reports s" "ws_mem s' = ws_mem s" "win s' = win s" "live s' = live s"
  using assms by (cases s; cases s'; simp add: win_def live_def fun_eq_iff)+

lemma updw_frame [simp]:
  "c_heap (updw w f s) = c_heap s" "c_surf (updw w f s) = c_surf s" "c_views (updw w f s) = c_views s"
  "c_mode (updw w f s) = c_mode s" "c_notes (updw w f s) = c_notes s" "cv (updw w f s) = cv s"
  "ws_trans (updw w f s) = ws_trans s" "ws_cohort (updw w f s) = ws_cohort s"
  "ws_present (updw w f s) = ws_present s" "ws_present_init (updw w f s) = ws_present_init s"
  "ws_renderer (updw w f s) = ws_renderer s" "ws_mem (updw w f s) = ws_mem s"
  "ws_done (updw w f s) = ws_done s" "ws_reports (updw w f s) = ws_reports s"
  by (simp_all add: updw_def cv_def fun_eq_iff)

lemma ws_win_updw: "ws_win (updw w f s) u = (if u = w then map_option f (ws_win s w) else ws_win s u)"
  by (simp add: updw_def)

lemma win_updw [simp]:
  "live s w \<Longrightarrow> win (updw w f s) w = f (win s w)" "u \<noteq> w \<Longrightarrow> win (updw w f s) u = win s u"
  by (auto simp: win_def updw_def live_def)

lemma field_upd:
  assumes "\<And>x. P (f x) = P x" shows "P (cv (upd v f s) u) = P (cv s u)"
  using assms by (cases "u = v"; cases "c_heap s v") (simp_all add: cv_def upd_def)

lemma update_screens_field:
  assumes "\<And>x m. P (x\<lparr>v_screens := m\<rparr>) = P x"
  shows "P (cv (view_update_screens v s) u) = P (cv s u)"
  using assms by (simp add: view_update_screens_def view_set_screens_def Let_def field_upd)

lemma view_move_buffer [simp]: "v_buffer (cv (view_move v x y s) u) = v_buffer (cv s u)"
  unfolding view_move_def view_set_position_def update_extents_def damage_below_view_def Let_def
  by (simp add: field_upd update_screens_field)

lemma view_move_surf [simp]: "c_surf (view_move v x y s) = c_surf s"
  using actsD(11)[OF acts_view_move[OF acts_refl, of v "{v}" "{}"]] by (intro ext) auto

lemma live_updw [simp]: "live (updw w f s) u = live s u"
  by (simp add: live_def updw_def)

text \<open>What the handlers of a view and the bookkeeping of a configure may do: move the views and
  change the fields of the windows in \<open>W\<close>, but not their part in a cohort.\<close>

definition same_part :: "window \<Rightarrow> window \<Rightarrow> bool" where
  "same_part x y \<longleftrightarrow> w_view y = w_view x \<and> w_trans y = w_trans x \<and> w_trans_acked y = w_trans_acked x \<and>
     w_resize y = w_resize x"

definition calm :: "addr set \<Rightarrow> 'a wstate_scheme \<Rightarrow> 'a wstate_scheme \<Rightarrow> bool" where
  "calm W s s' \<longleftrightarrow>
     c_surf s' = c_surf s \<and> c_views s' = c_views s \<and>
     (\<forall>u. (c_heap s' u = None) = (c_heap s u = None) \<and> same_link (cv s u) (cv s' u) \<and>
          v_buffer (cv s' u) = v_buffer (cv s u)) \<and>
     (\<forall>u. c_heap s' u = c_heap s u \<or> (\<exists>w\<in>W. u = w_view (win s w))) \<and>
     ws_trans s' = ws_trans s \<and> ws_cohort s' = ws_cohort s \<and> ws_present s' = ws_present s \<and>
     ws_present_init s' = ws_present_init s \<and> ws_renderer s' = ws_renderer s \<and>
     (\<forall>w. w \<notin> W \<longrightarrow> ws_win s' w = ws_win s w) \<and>
     (\<forall>w. live s' w = live s w \<and> same_part (win s w) (win s' w))"

named_theorems calm_intros \<open>operations that leave the cohort alone\<close>

lemma same_part_refl [simp]: "same_part x x"
  by (simp add: same_part_def)

lemma calm_refl [simp, intro]: "calm W s s"
  by (simp add: calm_def)

lemma calm_trans:
  assumes "calm W s t" "calm W t u" shows "calm W s u"
proof -
  have "c_heap u v = c_heap s v \<or> (\<exists>w\<in>W. v = w_view (win s w))" for v
    using assms unfolding calm_def same_part_def by metis
  with assms show ?thesis unfolding calm_def same_link_def same_part_def by simp
qed

lemma calm_mono: "calm W s t \<Longrightarrow> W \<subseteq> W' \<Longrightarrow> calm W' s t"
  unfolding calm_def by (elim conjE, intro conjI) blast+

lemma calm_updw [calm_intros]:
  assumes "calm W s t" "w \<in> W" "\<And>x. same_part x (f x)" shows "calm W s (updw w f t)"
  using assms(1)
proof (rule calm_trans)
  have "same_part (win t u) (win (updw w f t) u)" for u
    using assms(3) by (cases "u = w"; cases "ws_win t w") (simp_all add: win_def updw_def)
  then show "calm W t (updw w f t)" using assms(2) by (simp add: calm_def ws_win_updw)
qed

lemma calm_emit [calm_intros]: "calm W s t \<Longrightarrow> calm W s (emit w e t)"
  by (erule calm_trans) (simp add: calm_def emit_def cv_def win_def live_def)

lemma calm_mode [calm_intros]: "calm W s t \<Longrightarrow> calm W s (set_window_mode w m t)"
  by (erule calm_trans) (simp add: calm_def set_window_mode_def cv_def win_def live_def)

lemma calm_serial [calm_intros]: "calm W s t \<Longrightarrow> calm W s (t\<lparr>ws_next_serial := n\<rparr>)"
  by (erule calm_trans) (simp add: calm_def cv_def win_def live_def)

lemma calm_move [calm_intros]:
  assumes "calm W s t" "w \<in> W" "v = w_view (win t w)" shows "calm W s (view_move v x y t)"
  using assms(1)
proof (rule calm_trans)
  have a: "acts {} {v} t (view_move v x y t)" by (simp add: acts_intros)
  have "c_heap (view_move v x y t) u = c_heap t u \<or> (\<exists>w\<in>W. u = w_view (win t w))" for u
    using actsD(10)[OF a, of u] assms(2,3) by (cases "u = v") auto
  then show "calm W t (view_move v x y t)"
    using actsD[OF a] more_fields[OF actsD(1)[OF a]] by (simp add: calm_def same_link_def live_def)
qed

lemma calm_state [calm_intros]:
  assumes "calm W s t" "w \<in> W"
  shows "calm W s (snd (add_state w m t))" "calm W s (snd (remove_state w m t))"
    "calm W s (snd (send_configure w a b t))"
  using assms by (simp_all add: add_state_def remove_state_def send_configure_def Let_def calm_intros same_part_def)

lemma calm_shells [calm_intros]:
  assumes "calm W s t" "w \<in> W"
  shows "calm W s (impl_move w x y t)" "calm W s (impl_configure w a b t)" "calm W s (impl_set_mode w m t)"
proof -
  show "calm W s (impl_move w x y t)"
    using assms by (simp add: impl_move_def calm_intros split: shell.split)
  have "calm W s (xdg_configure w a b t)"
    using assms unfolding xdg_configure_def Let_def case_prod_beta
    by (intro calm_intros) (simp_all add: same_part_def)
  with assms show "calm W s (impl_configure w a b t)"
    by (auto simp: impl_configure_def shell_configure_def xwl_configure_def same_part_def
        split: shell.split intro!: calm_intros)
  have "calm W s (xdg_set_mode w m t)"
    using assms unfolding xdg_set_mode_def Let_def
    by (intro calm_intros) (auto split: window_mode.split intro!: calm_intros)
  with assms show "calm W s (impl_set_mode w m t)" by (simp add: impl_set_mode_def split: shell.split)
qed

lemma calm_flush [calm_intros]:
  assumes "calm W s t" "w \<in> W" shows "calm W s (flush w t)"
proof -
  have "calm W s (impl_move w (w_move_x (win t w)) (w_move_y (win t w)) t)" (is "calm W s ?u")
    using assms by (rule calm_shells)
  moreover have "w_view (win t w) = w_view (win ?u w)"
    by (simp add: impl_move_def emit_def win_def split: shell.split)
  ultimately show ?thesis
    using assms by (auto simp: flush_def Let_def same_part_def intro!: calm_intros)
qed

lemma calm_handle_attach [calm_intros]:
  "calm W s t \<Longrightarrow> w \<in> W \<Longrightarrow> calm W s (handle_attach w t)"
  by (auto simp: handle_attach_def Let_def same_part_def intro!: calm_intros)

lemma calm_handle_resize [calm_intros]:
  "calm W s t \<Longrightarrow> w \<in> W \<Longrightarrow> calm W s (handle_resize w a b t)"
  by (auto simp: handle_resize_def Let_def intro!: calm_intros)

subsection \<open>The invariant\<close>

text \<open>The links between windows, views and surfaces: every window has a view and a surface of its
  own, and its surface is nobody's subsurface.\<close>

definition linked :: "'a wstate_scheme \<Rightarrow> bool" where
  "linked s \<longleftrightarrow>
     (\<forall>w. live s w \<longrightarrow>
        c_heap s (w_view (win s w)) \<noteq> None \<and> v_window (cv s (w_view (win s w))) = Some w \<and>
        v_surface (cv s (w_view (win s w))) \<noteq> None \<and>
        sf_view (c_surf s (win_surface s w)) = Some (w_view (win s w)) \<and>
        (\<forall>g. win_surface s w \<notin> set (sf_children (c_surf s g)))) \<and>
     (\<forall>v w. c_heap s v \<noteq> None \<and> v_window (cv s v) = Some w \<longrightarrow>
        live s w \<and> w_view (win s w) = v) \<and>
     (\<forall>f v. sf_view (c_surf s f) = Some v \<longrightarrow> v_surface (cv s v) = Some f)"

text \<open>What the view of a window shows: its committed buffer, unless the hold owes it.\<close>

definition shows_window :: "'a wstate_scheme \<Rightarrow> addr \<Rightarrow> bool" where
  "shows_window s w \<longleftrightarrow>
     (let f = c_surf s (win_surface s w)
      in (sf_hold_attach f \<longrightarrow> sf_held f) \<and>
         (\<not> sf_hold_attach f \<longrightarrow> v_buffer (cv s (w_view (win s w))) = sf_buffer f))"

definition frozen :: "'a wstate_scheme \<Rightarrow> addr \<Rightarrow> bool" where
  "frozen s w \<longleftrightarrow> sf_held (c_surf s (win_surface s w))"

definition barrier_ok :: "'a wstate_scheme \<Rightarrow> bool" where
  "barrier_ok s \<longleftrightarrow>
     (case ws_trans s of
        None \<Rightarrow> ws_cohort s = []
      | Some (a, t) \<Rightarrow>
          ws_present s = [] \<and> t_inv t \<and> \<not> transaction.complete t \<and> has_handler t \<and>
          enrolled t = set (ws_cohort s) \<and> (\<forall>w\<in>set (ws_cohort s). w_trans (win s w) = Some a))"

definition cohort_ok :: "'a wstate_scheme \<Rightarrow> bool" where
  "cohort_ok s \<longleftrightarrow>
     linked s \<and> barrier_ok s \<and> distinct (ws_cohort s) \<and> distinct (ws_present s) \<and>
     (\<forall>w. live s w \<longrightarrow> (w_trans (win s w) = None) = (w \<notin> set (ws_cohort s))) \<and>
     (\<forall>w\<in>set (ws_cohort s) \<union> set (ws_present s). live s w \<and> frozen s w) \<and>
     (\<forall>w. live s w \<longrightarrow> shows_window s w) \<and>
     (\<forall>v. 0 \<le> ws_renderer s v) \<and>
     (\<not> ws_present_init s \<longrightarrow> ws_present s = [] \<and> ws_trans s = None)"

lemma linkedD:
  assumes "linked s" "live s w"
  shows "c_heap s (w_view (win s w)) \<noteq> None" "v_window (cv s (w_view (win s w))) = Some w"
    "v_surface (cv s (w_view (win s w))) = Some (win_surface s w)"
    "sf_view (c_surf s (win_surface s w)) = Some (w_view (win s w))"
    "win_surface s w \<notin> set (sf_children (c_surf s g))"
  using assms by (auto simp: linked_def win_surface_def)

lemma linked_window: "linked s \<Longrightarrow> c_heap s v \<noteq> None \<Longrightarrow> v_window (cv s v) = Some w \<Longrightarrow>
    live s w \<and> w_view (win s w) = v"
  by (auto simp: linked_def)

lemma linked_view: "linked s \<Longrightarrow> sf_view (c_surf s f) = Some v \<Longrightarrow> v_surface (cv s v) = Some f"
  by (auto simp: linked_def)

lemma calmD:
  assumes "calm W s s'"
  shows "c_surf s' = c_surf s" "c_views s' = c_views s" "(c_heap s' u = None) = (c_heap s u = None)"
    "v_surface (cv s' u) = v_surface (cv s u)" "v_window (cv s' u) = v_window (cv s u)"
    "v_buffer (cv s' u) = v_buffer (cv s u)" "ws_trans s' = ws_trans s" "ws_cohort s' = ws_cohort s"
    "ws_present s' = ws_present s" "ws_present_init s' = ws_present_init s" "ws_renderer s' = ws_renderer s"
    "live s' w = live s w" "w_view (win s' w) = w_view (win s w)"
    "w_trans (win s' w) = w_trans (win s w)" "w_trans_acked (win s' w) = w_trans_acked (win s w)"
    "w_resize (win s' w) = w_resize (win s w)" "win_surface s' w = win_surface s w"
    "w \<notin> W \<Longrightarrow> ws_win s' w = ws_win s w" "w \<notin> W \<Longrightarrow> win s' w = win s w"
  using assms by (simp_all add: calm_def same_part_def same_link_def win_surface_def win_def)

lemma calm_view:
  assumes "calm W s s'" "linked s" "W \<subseteq> {w. live s w}" "live s w" "w \<notin> W"
  shows "c_heap s' (w_view (win s w)) = c_heap s (w_view (win s w))"
proof (rule ccontr)
  assume "\<not> ?thesis"
  then obtain u where u: "u \<in> W" "w_view (win s w) = w_view (win s u)"
    using assms(1) unfolding calm_def by metis
  with assms(3) have "live s u" by blast
  then have "v_window (cv s (w_view (win s u))) = Some u" by (rule linkedD(2)[OF assms(2)])
  with u linkedD(2)[OF assms(2,4)] have "u = w" by (metis option.inject)
  with u assms(5) show False by blast
qed

lemma calm_linked:
  assumes "calm W s s'" "linked s" shows "linked s'"
  using assms(2) unfolding linked_def by (simp only: calmD[OF assms(1)])

lemma calm_parts:
  assumes "calm W s s'"
  shows "barrier_ok s' = barrier_ok s" "shows_window s' w = shows_window s w" "frozen s' w = frozen s w"
  by (simp_all add: barrier_ok_def shows_window_def frozen_def calmD[OF assms] split: option.split)

lemma calm_ok:
  assumes "calm W s s'" "cohort_ok s" shows "cohort_ok s'"
  using assms(2) calm_linked[OF assms(1)]
  unfolding cohort_ok_def by (simp only: calm_parts[OF assms(1)] calmD[OF assms(1)]) blast

subsection \<open>Handlers run for the windows concerned only\<close>

text \<open>The windows whose handlers a list of notes reaches.\<close>

definition noted :: "'a wstate_scheme \<Rightarrow> addr set \<Rightarrow> addr set" where
  "noted s V = {w. live s w \<and> w_view (win s w) \<in> V}"

lemma calm_run_note:
  assumes "calm W s t" "linked s" "noted s {fst n} \<subseteq> W" shows "calm W s (run_note n t)"
proof (cases "c_heap t (fst n) = None \<or> v_window (cv t (fst n)) = None")
  case False
  then obtain w where w: "c_heap t (fst n) \<noteq> None" "v_window (cv t (fst n)) = Some w" by auto
  from linked_window[OF calm_linked[OF assms(1,2)] this] have "w \<in> W"
    using assms by (auto simp: noted_def calmD)
  with w assms(1) show ?thesis
    by (auto simp: run_note_def split: vnote.split intro!: calm_intros)
qed (use assms in \<open>auto simp: run_note_def\<close>)

lemma calm_run_notes:
  assumes "calm W s t" "linked s" "noted s (fst ` set ns) \<subseteq> W" shows "calm W s (fold run_note ns t)"
  using assms(1,3)
proof (induction ns arbitrary: t)
  case (Cons n ns)
  have "calm W s (run_note n t)"
    using Cons.prems assms(2) by (intro calm_run_note) (auto simp: noted_def)
  with Cons show ?case by (auto simp: noted_def)
qed simp

subsection \<open>Work on one window leaves the others alone\<close>

definition isolates :: "addr set \<Rightarrow> 'a wstate_scheme \<Rightarrow> 'a wstate_scheme \<Rightarrow> bool" where
  "isolates W s s' \<longleftrightarrow>
     linked s \<and> linked s' \<and>
     ws_trans s' = ws_trans s \<and> ws_cohort s' = ws_cohort s \<and> ws_present s' = ws_present s \<and>
     ws_present_init s' = ws_present_init s \<and> ws_renderer s' = ws_renderer s \<and>
     (\<forall>w. live s' w = live s w \<and> same_part (win s w) (win s' w)) \<and>
     (\<forall>w. win_surface s' w = win_surface s w) \<and>
     (\<forall>w. w \<notin> W \<longrightarrow> ws_win s' w = ws_win s w) \<and>
     (\<forall>w. live s w \<and> w \<notin> W \<longrightarrow>
        c_heap s' (w_view (win s w)) = c_heap s (w_view (win s w)) \<and>
        c_surf s' (win_surface s w) = c_surf s (win_surface s w))"

lemma isolatesD:
  assumes "isolates W s s'"
  shows "linked s" "linked s'" "ws_trans s' = ws_trans s" "ws_cohort s' = ws_cohort s"
    "ws_present s' = ws_present s" "ws_present_init s' = ws_present_init s" "ws_renderer s' = ws_renderer s"
    "live s' w = live s w" "w_view (win s' w) = w_view (win s w)"
    "w_trans (win s' w) = w_trans (win s w)" "w_trans_acked (win s' w) = w_trans_acked (win s w)"
    "w_resize (win s' w) = w_resize (win s w)" "win_surface s' w = win_surface s w"
    "w \<notin> W \<Longrightarrow> ws_win s' w = ws_win s w" "w \<notin> W \<Longrightarrow> win s' w = win s w"
    "live s w \<Longrightarrow> w \<notin> W \<Longrightarrow> c_heap s' (w_view (win s w)) = c_heap s (w_view (win s w))"
    "live s w \<Longrightarrow> w \<notin> W \<Longrightarrow> cv s' (w_view (win s w)) = cv s (w_view (win s w))"
    "live s w \<Longrightarrow> w \<notin> W \<Longrightarrow> c_surf s' (win_surface s w) = c_surf s (win_surface s w)"
  using assms by (simp_all add: isolates_def same_part_def win_def cv_def)

lemma isolates_refl: "linked s \<Longrightarrow> isolates W s s"
  by (simp add: isolates_def)

lemma isolates_trans:
  assumes a: "isolates W s t" and b: "isolates W t u" shows "isolates W s u"
proof -
  have "c_heap u (w_view (win s w)) = c_heap s (w_view (win s w)) \<and>
      c_surf u (win_surface s w) = c_surf s (win_surface s w)" if "live s w" "w \<notin> W" for w
    using isolatesD(16,18)[OF a that] isolatesD(16,18)[OF b, of w] that
    by (simp add: isolatesD(8,9,13)[OF a])
  then show ?thesis
    using isolatesD(1)[OF a] isolatesD(2)[OF b]
    by (simp add: isolates_def same_part_def isolatesD(3-14)[OF a] isolatesD(3-14)[OF b])
qed

lemma isolates_mono: "isolates W s t \<Longrightarrow> W \<subseteq> W' \<Longrightarrow> isolates W' s t"
  unfolding isolates_def by (elim conjE, intro conjI) blast+

lemma calm_isolates:
  assumes "calm W s s'" "linked s" "W \<subseteq> {w. live s w}" shows "isolates W s s'"
  unfolding isolates_def
  using assms(2) calm_linked[OF assms(1,2)] calmD[OF assms(1)] calm_view[OF assms]
  by (simp add: same_part_def)

text \<open>The views of a set of surfaces, and windows whose surface is not in the set.\<close>

definition views_of :: "'a comp_scheme \<Rightarrow> addr set \<Rightarrow> addr set" where
  "views_of s F = {v. \<exists>f\<in>F. sf_view (c_surf s f) = Some v}"

lemma noted_views:
  assumes "linked s" "w \<in> noted s (views_of s F)" shows "win_surface s w \<in> F"
proof -
  from assms(2) obtain f where f: "live s w" "f \<in> F" "sf_view (c_surf s f) = Some (w_view (win s w))"
    by (auto simp: noted_def views_of_def)
  from linked_view[OF assms(1) f(3)] linkedD(3)[OF assms(1) f(1)] f(2) show ?thesis by simp
qed

lemma win_surface_inj:
  assumes "linked s" "live s w" "live s u" "win_surface s w = win_surface s u"
  shows "w = u"
proof -
  have "w_view (win s w) = w_view (win s u)"
    using linkedD(4)[OF assms(1,2)] linkedD(4)[OF assms(1,3)] assms(4) by simp
  then show ?thesis
    using linkedD(2)[OF assms(1,2)] linkedD(2)[OF assms(1,3)] by (metis option.inject)
qed

lemma acts_wstate:
  assumes "acts F V s s'"
  shows "ws_win s' = ws_win s" "win s' = win s" "ws_trans s' = ws_trans s" "ws_cohort s' = ws_cohort s"
    "ws_present s' = ws_present s" "ws_present_init s' = ws_present_init s" "ws_renderer s' = ws_renderer s"
    "live s' = live s" "win_surface s' w = win_surface s w"
  using more_fields[OF actsD(1)[OF assms]] actsD(5)[OF assms] by (simp_all add: win_surface_def)

lemma acts_linked:
  assumes "acts F V s s'" "linked s" shows "linked s'"
  using assms(2) unfolding linked_def by (simp only: actsD[OF assms(1)] acts_wstate[OF assms(1)])

lemma acts_isolates:
  assumes "acts F (views_of s F) s s'" "linked s" "\<And>w. live s w \<Longrightarrow> win_surface s w \<in> F \<Longrightarrow> w \<in> W"
  shows "isolates W s s'"
proof -
  have "w_view (win s w) \<notin> views_of s F \<and> win_surface s w \<notin> F" if "live s w" "w \<notin> W" for w
    using noted_views[OF assms(2), of w F] assms(3)[OF that(1)] that by (auto simp: noted_def)
  then show ?thesis
    unfolding isolates_def
    using assms(2) acts_linked[OF assms(1,2)] acts_wstate[OF assms(1)] actsD(10,11)[OF assms(1)]
    by (simp add: same_part_def)
qed

lemma tree_windows:
  assumes "linked s" "live s w" "win_surface s w \<in> surf_tree n s f" shows "win_surface s w = f"
  using surf_tree_children[OF assms(3)] linkedD(5)[OF assms(1,2)] by blast

text \<open>What isolated work on windows has to show for the invariant.\<close>

lemma isolates_ok:
  assumes "isolates W s s'" "cohort_ok s"
    and "\<And>w. w \<in> W \<Longrightarrow> live s w \<Longrightarrow> shows_window s' w \<and>
      (w \<in> set (ws_cohort s) \<union> set (ws_present s) \<longrightarrow> frozen s' w)"
  shows "cohort_ok s'"
proof -
  note D = isolatesD[OF assms(1)]
  have b: "barrier_ok s' = barrier_ok s" by (simp add: barrier_ok_def D split: option.split)
  have "shows_window s' w \<and> (w \<in> set (ws_cohort s) \<union> set (ws_present s) \<longrightarrow> frozen s' w)"
    if "live s w" for w
  proof (cases "w \<in> W")
    case False
    with that have "shows_window s' w = shows_window s w" "frozen s' w = frozen s w"
      by (simp_all add: shows_window_def frozen_def D)
    with that assms(2) show ?thesis by (auto simp: cohort_ok_def)
  qed (use that assms(3) in blast)
  with assms(2) D(2) b show ?thesis
    unfolding cohort_ok_def by (simp only: D(3-13)) blast
qed

subsection \<open>Holding and releasing a window\<close>

definition held_more :: "csurface \<Rightarrow> csurface \<Rightarrow> bool" where
  "held_more x y \<longleftrightarrow> sf_hold_attach y = sf_hold_attach x \<and> sf_buffer y = sf_buffer x \<and> (sf_held x \<longrightarrow> sf_held y)"

lemma held_more_trans: "held_more x y \<Longrightarrow> held_more y z \<Longrightarrow> held_more x z"
  by (simp add: held_more_def)

lemma hold_fields:
  "c_heap (surface_hold_render n f s) = c_heap s \<and>
   (\<forall>g. held_more (c_surf s g) (c_surf (surface_hold_render n f s) g))"
proof (induction n arbitrary: f s)
  case (Suc n)
  have fold: "c_heap (fold (surface_hold_render n) xs t) = c_heap t \<and>
    (\<forall>g. held_more (c_surf t g) (c_surf (fold (surface_hold_render n) xs t) g))"
    for xs and t :: "'a comp_scheme"
  proof (induction xs arbitrary: t)
    case (Cons x xs)
    show ?case
      using Cons[of "surface_hold_render n x t"] Suc.IH[of x t] held_more_trans by (simp, blast)
  qed (simp add: held_more_def)
  let ?t = "upd_surf f (\<lambda>x. x\<lparr>sf_held := True\<rparr>) s"
  let ?u = "fold (surface_hold_render n) (sf_children (c_surf s f)) ?t"
  have e: "surface_hold_render (Suc n) f s = (if sf_held (c_surf s f) then s else ?u)"
    by (simp add: Let_def)
  have "held_more (c_surf s g) (c_surf ?t g)" for g by (simp add: held_more_def)
  then have "held_more (c_surf s g) (c_surf ?u g)" for g
    using fold[of "sf_children (c_surf s f)" ?t] held_more_trans by blast
  moreover have "c_heap ?u = c_heap s" using fold[of "sf_children (c_surf s f)" ?t] by simp
  ultimately show ?case unfolding e by (simp add: held_more_def)
qed (simp add: held_more_def)

lemma hold_held: "sf_held (c_surf (surface_hold_render (Suc n) f s) f)"
proof (cases "sf_held (c_surf s f)")
  case False
  let ?t = "upd_surf f (\<lambda>x. x\<lparr>sf_held := True\<rparr>) s"
  have "sf_held (c_surf (fold (surface_hold_render n) xs t) f)" if "sf_held (c_surf t f)"
    for xs and t :: "'a comp_scheme"
    using that
  proof (induction xs arbitrary: t)
    case (Cons x xs)
    have "sf_held (c_surf (surface_hold_render n x t) f)"
      using hold_fields[of n x t] Cons.prems unfolding held_more_def by blast
    with Cons.IH show ?case by simp
  qed simp
  from this[of ?t] False show ?thesis by (simp add: Let_def)
qed simp

lemma hold_window_effect:
  assumes "linked s" "live s w"
  shows "isolates {w} s (hold_window w s)" "frozen (hold_window w s) w"
    "shows_window s w \<Longrightarrow> shows_window (hold_window w s) w" "ws_win (hold_window w s) = ws_win s"
    "c_heap (hold_window w s) = c_heap s"
proof -
  let ?n = "Suc (length (c_views s))" and ?f = "win_surface s w"
  let ?F = "surf_tree ?n s ?f"
  have a: "acts ?F (views_of s ?F) s (hold_window w s)"
    unfolding hold_window_def by (intro acts_hold acts_refl order_refl)
  show i: "isolates {w} s (hold_window w s)"
  proof (rule acts_isolates[OF a assms(1)])
    fix u assume u: "live s u" "win_surface s u \<in> ?F"
    from tree_windows[OF assms(1) this] show "u \<in> {w}"
      using win_surface_inj[OF assms(1) u(1) assms(2)] by simp
  qed
  note h = hold_fields[of ?n ?f s]
  have held: "sf_held (c_surf (hold_window w s) ?f)"
    unfolding hold_window_def by (rule hold_held)
  then show "frozen (hold_window w s) w" by (simp add: frozen_def isolatesD(13)[OF i])
  show hp: "c_heap (hold_window w s) = c_heap s" using h by (simp add: hold_window_def)
  show "ws_win (hold_window w s) = ws_win s" by (rule acts_wstate(1)[OF a])
  have "sf_hold_attach (c_surf (hold_window w s) ?f) = sf_hold_attach (c_surf s ?f) \<and>
    sf_buffer (c_surf (hold_window w s) ?f) = sf_buffer (c_surf s ?f)"
    using h unfolding hold_window_def held_more_def by blast
  with held hp show "shows_window s w \<Longrightarrow> shows_window (hold_window w s) w"
    by (simp add: shows_window_def Let_def isolatesD(9,13)[OF i] cv_def)
qed

definition place :: "cview \<Rightarrow> i32 \<times> i32" where
  "place x = (r_x (v_geom x), r_y (v_geom x))"

lemma place_fields [simp]:
  "place (x\<lparr>v_geom := (v_geom x)\<lparr>r_w := a, r_h := b\<rparr>\<rparr>) = place x"
  "place (x\<lparr>v_off_x := i, v_off_y := j\<rparr>) = place x" "place (x\<lparr>v_buffer := c\<rparr>) = place x"
  "place (x\<lparr>v_screens := m\<rparr>) = place x"
  "place (x\<lparr>v_extents := e, v_dmg1 := d, v_dmg2 := d', v_decor_damaged := d''\<rparr>) = place x"
  by (simp_all add: place_def)

lemma set_size_place [simp]: "place (cv (snd (view_set_size v w h s)) u) = place (cv s u)"
  by (simp add: view_set_size_def Let_def field_upd)

lemma extents_place [simp]: "place (cv (update_extents v s) u) = place (cv s u)"
  by (simp add: update_extents_def field_upd)

lemma attach_place [simp]: "place (cv (snd (attach r v b s)) u) = place (cv s u)"
  unfolding attach_def Let_def
  by (simp only: case_prod_beta) (simp add: field_upd update_screens_field)

lemma view_attach_place [simp]: "place (cv (snd (view_attach r v b s)) u) = place (cv s u)"
proof -
  have "place (cv (snd (attach r v b s)) u) = place (cv s u)" by simp
  then show ?thesis by (simp add: view_attach_def case_prod_beta field_upd del: attach_place)
qed

lemma release_root:
  fixes s :: "'a comp_scheme"
  assumes "0 \<le> r v" "sf_view (c_surf s f) = Some v" "c_heap s v \<noteq> None"
    and "sf_hold_attach (c_surf s f) \<Longrightarrow> sf_held (c_surf s f)"
    and "\<not> sf_hold_attach (c_surf s f) \<Longrightarrow> v_buffer (cv s v) = sf_buffer (c_surf s f)"
    and away: "f \<notin> F" "v \<notin> views_of s F" "F = (\<Union>g\<in>set (sf_children (c_surf s f)). surf_tree n s g)"
  defines "s' \<equiv> surface_release_render r (Suc n) f s"
  shows "\<not> sf_held (c_surf s' f)" "\<not> sf_hold_attach (c_surf s' f)"
    "v_buffer (cv s' v) = sf_buffer (c_surf s' f)" "sf_buffer (c_surf s' f) = sf_buffer (c_surf s f)"
    "place (cv s' v) = place (cv s v)"
proof -
  have goal: "\<not> sf_held (c_surf s' f) \<and> \<not> sf_hold_attach (c_surf s' f) \<and>
    v_buffer (cv s' v) = sf_buffer (c_surf s' f) \<and> sf_buffer (c_surf s' f) = sf_buffer (c_surf s f) \<and>
    place (cv s' v) = place (cv s v)"
  proof (cases "sf_held (c_surf s f)")
    case False
    with assms show ?thesis by auto
  next
    case True
    let ?t = "fold (surface_release_render r n) (sf_children (c_surf s f)) s"
    let ?u = "upd_surf f (\<lambda>x. x\<lparr>sf_held := False, sf_hold_attach := False, sf_hold_update := False\<rparr>) ?t"
    have t: "acts F (views_of s F) s ?t"
    proof (rule acts_fold[OF _ acts_refl])
      fix g u assume g: "g \<in> set (sf_children (c_surf s f))" and u: "acts F (views_of s F) s u"
      show "acts F (views_of s F) s (surface_release_render r n g u)"
        by (rule acts_release[OF _ _ u]) (use g away(3) in \<open>auto simp: views_of_def\<close>)
    qed
    have tf: "c_surf ?t f = c_surf s f" "cv ?t v = cv s v" "c_heap ?t v \<noteq> None"
      using actsD(4,10,11,12)[OF t] away assms(3) by simp_all
    let ?v = "if sf_hold_attach (c_surf s f) then snd (view_attach (r v) v (sf_buffer (c_surf s f)) ?u) else ?u"
    have s': "s' = (if sf_hold_update (c_surf s f) then update_only v ?v else ?v)"
      using True tf assms(2) unfolding s'_def by (simp add: Let_def)
    have "c_heap ?u v \<noteq> None" using tf by simp
    with assms(1) have "v_buffer (cv ?v v) = sf_buffer (c_surf s f)"
      using assms(5) tf by simp
    moreover have "place (cv ?v v) = place (cv s v)" using tf by simp
    moreover have "c_surf ?v f = (c_surf s f)\<lparr>sf_held := False, sf_hold_attach := False, sf_hold_update := False\<rparr>"
      using tf by simp
    ultimately show ?thesis unfolding s' by (cases "sf_hold_update (c_surf s f)") (simp_all only: if_True if_False update_only_frame, simp_all)
  qed
  from goal show "\<not> sf_held (c_surf s' f)" "\<not> sf_hold_attach (c_surf s' f)"
    "v_buffer (cv s' v) = sf_buffer (c_surf s' f)" "sf_buffer (c_surf s' f) = sf_buffer (c_surf s f)"
    "place (cv s' v) = place (cv s v)" by blast+
qed

text \<open>A window that has no move to make stays where it is when its handlers run.\<close>

definition settled_in :: "window \<Rightarrow> bool" where
  "settled_in x \<longleftrightarrow> \<not> ia_active (w_resize x) \<and> (w_acknowledged x \<longrightarrow> \<not> w_move_pending x)"

definition stays :: "addr \<Rightarrow> 'a wstate_scheme \<Rightarrow> 'a wstate_scheme \<Rightarrow> bool" where
  "stays w s s' \<longleftrightarrow>
     c_heap s' = c_heap s \<and> settled_in (win s' w) \<and> w_move_pending (win s' w) = w_move_pending (win s w) \<and>
     (w_pending (win s w) = False \<longrightarrow> w_pending (win s' w) = False)"

lemma run_note_stays:
  assumes "live s w" "settled_in (win s w)" "\<And>u. c_heap s (fst n) \<noteq> None \<Longrightarrow> v_window (cv s (fst n)) = Some u \<Longrightarrow> u = w"
  shows "stays w s (run_note n s)"
proof (cases "c_heap s (fst n) = None \<or> v_window (cv s (fst n)) = None")
  case False
  with assms(3) have "c_heap s (fst n) \<noteq> None" "v_window (cv s (fst n)) = Some w" by auto
  moreover have "stays w s (handle_attach w s)"
    using assms by (auto simp: stays_def handle_attach_def flush_def settled_in_def Let_def)
  moreover have "stays w s (handle_resize w a b s)" for a b
    using assms by (simp add: stays_def handle_resize_def settled_in_def Let_def)
  ultimately show ?thesis using assms(2) by (auto simp: run_note_def stays_def split: vnote.split)
qed (use assms in \<open>auto simp: run_note_def stays_def\<close>)

lemma run_notes_stay:
  assumes "linked s" "live s w" "settled_in (win s w)" "noted s (fst ` set ns) \<subseteq> {w}"
  shows "stays w s (fold run_note ns s)"
  using assms
proof (induction ns arbitrary: s)
  case (Cons n ns)
  have n: "noted s {fst n} \<subseteq> {w}" using Cons.prems(4) by (auto simp: noted_def)
  have c: "calm {w} s (run_note n s)"
    using calm_run_note[OF calm_refl Cons.prems(1) n] .
  have "u = w" if "c_heap s (fst n) \<noteq> None" "v_window (cv s (fst n)) = Some u" for u
    using linked_window[OF Cons.prems(1) that] n by (auto simp: noted_def)
  then have s: "stays w s (run_note n s)" using Cons.prems by (intro run_note_stays) auto
  have "stays w (run_note n s) (fold run_note ns (run_note n s))"
  proof (rule Cons.IH)
    show "linked (run_note n s)" by (rule calm_linked[OF c Cons.prems(1)])
    show "live (run_note n s) w" using Cons.prems(2) calmD(12)[OF c] by simp
    show "settled_in (win (run_note n s) w)" using s by (simp add: stays_def)
    show "noted (run_note n s) (fst ` set ns) \<subseteq> {w}"
      using Cons.prems(4) by (auto simp: noted_def calmD(12,13)[OF c])
  qed
  with s show ?case by (simp add: stays_def)
qed (simp add: stays_def)

lemma release_window_effect:
  assumes "linked s" "live s w" "shows_window s w" "\<And>v. 0 \<le> ws_renderer s v"
  defines "s' \<equiv> release_window w s"
  shows "isolates {w} s s'" "\<not> frozen s' w" "shows_window s' w"
    "v_buffer (cv s' (w_view (win s w))) = sf_buffer (c_surf s (win_surface s w))"
    "sf_buffer (c_surf s' (win_surface s w)) = sf_buffer (c_surf s (win_surface s w))"
    "settled_in (win s w) \<Longrightarrow> place (cv s' (w_view (win s w))) = place (cv s (w_view (win s w)))"
    "settled_in (win s w) \<Longrightarrow> w_move_pending (win s' w) = w_move_pending (win s w)"
    "settled_in (win s w) \<Longrightarrow> \<not> w_pending (win s w) \<Longrightarrow> \<not> w_pending (win s' w)"
proof -
  let ?n = "length (c_views s)" and ?f = "win_surface s w" and ?v = "w_view (win s w)"
  define t where "t = surface_release_render (ws_renderer s) (Suc ?n) ?f s"
  let ?F = "surf_tree (Suc ?n) s ?f"
  let ?C = "\<Union>g\<in>set (sf_children (c_surf s ?f)). surf_tree ?n s g"
  note L = linkedD[OF assms(1,2)]
  have a: "acts ?F (views_of s ?F) s t"
    unfolding t_def by (rule acts_release) (auto simp: views_of_def)
  have F: "u = w" if "live s u" "win_surface s u \<in> ?F" for u
    using win_surface_inj[OF assms(1) that(1) assms(2) tree_windows[OF assms(1) that]] .
  have away: "?f \<notin> ?C"
  proof
    assume "?f \<in> ?C"
    then obtain g where "g \<in> set (sf_children (c_surf s ?f))" "?f \<in> surf_tree ?n s g" by blast
    with tree_windows[OF assms(1,2)] L(5) show False by metis
  qed
  have away': "?v \<notin> views_of s ?C"
    using away linked_view[OF assms(1)] L(3) by (auto simp: views_of_def)
  have sync: "sf_hold_attach (c_surf s ?f) \<Longrightarrow> sf_held (c_surf s ?f)"
    "\<not> sf_hold_attach (c_surf s ?f) \<Longrightarrow> v_buffer (cv s ?v) = sf_buffer (c_surf s ?f)"
    using assms(3) by (simp_all add: shows_window_def Let_def)
  note R = release_root[where n = "?n" and r = "ws_renderer s", OF assms(4) L(4) L(1) sync away away' refl, folded t_def]
  obtain ns where ns: "c_notes t = c_notes s @ ns" "fst ` set ns \<subseteq> views_of s ?F"
    using a by (auto simp: acts_def)
  have s': "s' = fold run_note ns t"
    unfolding s'_def release_window_def with_handlers_def Let_def t_def[symmetric] by (simp add: ns)
  have lu: "linked t" "live t w" by (rule acts_linked[OF a assms(1)]) (simp add: assms(2) acts_wstate[OF a])
  have no: "noted t (fst ` set ns) \<subseteq> {w}"
  proof
    fix x assume "x \<in> noted t (fst ` set ns)"
    with ns(2) have x: "x \<in> noted s (views_of s ?F)"
      using acts_wstate(2,7,8)[OF a] by (auto simp: noted_def)
    then have "live s x" by (simp add: noted_def)
    with F noted_views[OF assms(1) x] show "x \<in> {w}" by blast
  qed
  have c: "calm {w} t s'" unfolding s' by (rule calm_run_notes[OF calm_refl lu(1) no])
  have i1: "isolates {w} s t" by (rule acts_isolates[OF a assms(1)]) (use F in blast)
  have i2: "isolates {w} t s'" by (rule calm_isolates[OF c lu(1)]) (use lu(2) in simp)
  show i: "isolates {w} s s'" by (rule isolates_trans[OF i1 i2])
  have surf: "c_surf s' = c_surf t" and buf: "v_buffer (cv s' ?v) = v_buffer (cv t ?v)"
    using calmD[OF c] by blast+
  show nf: "\<not> frozen s' w" using R(1) by (simp add: frozen_def isolatesD(13)[OF i] surf)
  show b: "v_buffer (cv s' ?v) = sf_buffer (c_surf s ?f)" using R(3,4) buf by simp
  show "sf_buffer (c_surf s' ?f) = sf_buffer (c_surf s ?f)" using R(4) surf by simp
  show "shows_window s' w"
    using R(2,3) buf by (simp add: shows_window_def Let_def isolatesD(9,13)[OF i] surf)
  have wu: "win t w = win s w" by (simp add: acts_wstate[OF a])
  assume "settled_in (win s w)"
  with run_notes_stay[OF lu _ no] have st: "stays w t s'" unfolding s' wu by simp
  then have "cv s' ?v = cv t ?v" by (simp add: stays_def cv_def)
  with R(5) show "place (cv s' ?v) = place (cv s ?v)" by simp
  from st wu show "w_move_pending (win s' w) = w_move_pending (win s w)"
    "\<not> w_pending (win s w) \<Longrightarrow> \<not> w_pending (win s' w)"
    by (simp_all add: stays_def)
qed

subsection \<open>The barrier and its completion\<close>

text \<open>The invariant without the barrier.\<close>

definition rest_ok :: "'a wstate_scheme \<Rightarrow> bool" where
  "rest_ok s \<longleftrightarrow>
     linked s \<and> distinct (ws_cohort s) \<and> distinct (ws_present s) \<and>
     (\<forall>w. live s w \<longrightarrow> (w_trans (win s w) = None) = (w \<notin> set (ws_cohort s))) \<and>
     (\<forall>w\<in>set (ws_cohort s) \<union> set (ws_present s). live s w \<and> frozen s w) \<and>
     (\<forall>w. live s w \<longrightarrow> shows_window s w) \<and>
     (\<forall>v. 0 \<le> ws_renderer s v) \<and>
     (\<not> ws_present_init s \<longrightarrow> ws_present s = [] \<and> ws_trans s = None)"

lemma cohort_ok_split: "cohort_ok s \<longleftrightarrow> rest_ok s \<and> barrier_ok s"
  by (auto simp: cohort_ok_def rest_ok_def)

definition parked :: "addr transaction option \<Rightarrow> addr \<Rightarrow> window \<Rightarrow> window" where
  "parked t w x = x\<lparr>w_trans_acked := transaction_acked t w, w_trans := None\<rparr>"

lemma park_fold:
  assumes "distinct ws"
  shows "fold (park_window t) ws s =
     s\<lparr>ws_win := (\<lambda>u. if u \<in> set ws then map_option (parked t u) (ws_win s u) else ws_win s u),
       ws_cohort := fold remove1 ws (ws_cohort s), ws_present := rev ws @ ws_present s\<rparr>"
  using assms
proof (induction ws arbitrary: s)
  case (Cons w ws)
  from Cons.prems have "w \<notin> set ws" "distinct ws" by auto
  with Cons.IH show ?case by (simp add: park_window_def parked_def[abs_def] Let_def updw_def fun_eq_iff)
qed simp

lemma fold_remove1_self: "fold remove1 xs xs = []"
proof -
  have "fold remove1 xs (xs @ ys) = ys" for ys by (induction xs) simp_all
  from this[of "[]"] show ?thesis by simp
qed

lemma transaction_done_form:
  assumes "distinct (ws_cohort s)"
  shows "transaction_done b s =
    s\<lparr>ws_win := (\<lambda>u. if u \<in> set (ws_cohort s) then map_option (parked (map_option snd (ws_trans s)) u) (ws_win s u)
                     else ws_win s u),
      ws_cohort := [], ws_present := rev (ws_cohort s) @ ws_present s, ws_trans := None,
      ws_done := None,
      ws_reports := ws_reports s @ (case ws_done s of None \<Rightarrow> [] | Some cb \<Rightarrow> [(cb, b)])\<rparr>"
  unfolding transaction_done_def Let_def park_fold[OF assms] fold_remove1_self
  by (cases s; cases "ws_done s") simp_all

lemma transaction_done_fields:
  fixes b :: bool
  assumes "distinct (ws_cohort s)" defines "s' \<equiv> transaction_done b s"
  shows "live s' u = live s u" "live s u \<Longrightarrow> w_view (win s' u) = w_view (win s u)"
    "live s u \<Longrightarrow> w_trans (win s' u) = (if u \<in> set (ws_cohort s) then None else w_trans (win s u))"
    "ws_cohort s' = []" "ws_present s' = rev (ws_cohort s) @ ws_present s" "ws_trans s' = None"
    "ws_present_init s' = ws_present_init s" "ws_renderer s' = ws_renderer s"
    "c_heap s' = c_heap s" "c_surf s' = c_surf s" "cv s' = cv s"
    "live s u \<Longrightarrow> win_surface s' u = win_surface s u"
  unfolding s'_def transaction_done_form[OF assms(1)]
  by (auto simp: live_def win_def win_surface_def parked_def cv_def)

lemma transaction_done_ok:
  assumes "rest_ok s" "ws_present s = []" "ws_present_init s" shows "cohort_ok (transaction_done b s)"
proof -
  define s' where "s' = transaction_done b s"
  have d: "distinct (ws_cohort s)" using assms(1) by (simp add: rest_ok_def)
  note F = transaction_done_fields[OF d, where b = b, folded s'_def]
  have "linked s'"
    using assms(1) unfolding rest_ok_def linked_def by (simp add: F)
  moreover have "shows_window s' u = shows_window s u" "frozen s' u = frozen s u" if "live s u" for u
    using that by (simp_all add: shows_window_def frozen_def F)
  moreover have "w_trans (win s' u) = None" if "live s u" for u
    using that assms(1) unfolding rest_ok_def by (cases "u \<in> set (ws_cohort s)") (simp_all add: F(3))
  ultimately have "cohort_ok s'"
    using assms unfolding cohort_ok_def rest_ok_def barrier_ok_def
    by (simp add: F(1,2,4-))
  then show ?thesis by (simp add: s'_def)
qed

lemma settled_step_ok:
  assumes "rest_ok s" "ws_trans s = Some (a, t)" "t_inv t" "\<not> transaction.complete t" "has_handler t"
    "ws_present s = []" "\<forall>w\<in>set (ws_cohort s). w_trans (win s w) = Some a"
    "enrolled (fst (t_step t e)) = set (ws_cohort s)"
  shows "cohort_ok (settled (apfst Some (t_step t e)) s)"
proof -
  let ?t = "fst (t_step t e)" and ?s = "s\<lparr>ws_trans := Some (a, fst (t_step t e))\<rparr>"
  have r: "rest_ok ?s"
    using assms(1,2)
    unfolding rest_ok_def linked_def shows_window_def frozen_def win_surface_def by (simp add: cv_def win_def live_def)
  have i: "ws_present_init s" using assms(1,2) by (auto simp: rest_ok_def)
  have c: "(snd (t_step t e) \<noteq> None) = transaction.complete ?t"
    using t_step_report[OF assms(5)] assms(4) by simp
  show ?thesis
  proof (cases "snd (t_step t e)")
    case None
    with c have "barrier_ok ?s"
      using assms t_inv_step[OF assms(3)] by (simp add: barrier_ok_def frame_simps win_def)
    with r None assms(2) show ?thesis by (simp add: settled_def cohort_ok_split)
  next
    case (Some b)
    have "cohort_ok (transaction_done b ?s)"
      by (rule transaction_done_ok[OF r]) (use assms(6) i in simp_all)
    with Some assms(2) show ?thesis by (simp add: settled_def)
  qed
qed

lemma settled_frame:
  assumes "distinct (ws_cohort s)"
  shows "c_heap (settled r s) = c_heap s" "c_surf (settled r s) = c_surf s" "cv (settled r s) = cv s"
    "live (settled r s) u = live s u" "live s u \<Longrightarrow> w_view (win (settled r s) u) = w_view (win s u)"
    "live s u \<Longrightarrow> win_surface (settled r s) u = win_surface s u"
proof -
  define t where
    "t = s\<lparr>ws_trans := (case (ws_trans s, fst r) of (Some (a, _), Some t) \<Rightarrow> Some (a, t) | (old, _) \<Rightarrow> old)\<rparr>"
  have d: "distinct (ws_cohort t)" using assms by (simp add: t_def)
  note F = transaction_done_fields[OF d]
  have w: "live t u = live s u" "win t u = win s u" "win_surface t u = win_surface s u" "cv t = cv s"
    "c_heap t = c_heap s" "c_surf t = c_surf s" for u
    by (simp_all add: t_def live_def win_def win_surface_def cv_def fun_eq_iff)
  have e: "settled r s = (case snd r of None \<Rightarrow> t | Some b \<Rightarrow> transaction_done b t)"
    by (simp only: settled_def Let_def t_def)
  show "c_heap (settled r s) = c_heap s" "c_surf (settled r s) = c_surf s" "cv (settled r s) = cv s"
    "live (settled r s) u = live s u" "live s u \<Longrightarrow> w_view (win (settled r s) u) = w_view (win s u)"
    "live s u \<Longrightarrow> win_surface (settled r s) u = win_surface s u"
    unfolding e by (cases "snd r"; simp add: F w)+
qed

lemma cohort_okD:
  assumes "cohort_ok s"
  shows "linked s" "distinct (ws_cohort s)" "distinct (ws_present s)" "rest_ok s"
    "live s w \<Longrightarrow> (w_trans (win s w) = None) = (w \<notin> set (ws_cohort s))"
    "w \<in> set (ws_cohort s) \<union> set (ws_present s) \<Longrightarrow> live s w \<and> frozen s w"
    "live s w \<Longrightarrow> shows_window s w" "0 \<le> ws_renderer s v"
    "\<not> ws_present_init s \<Longrightarrow> ws_present s = []"
proof -
  show "rest_ok s" using assms by (simp add: cohort_ok_split)
  show "w \<in> set (ws_cohort s) \<union> set (ws_present s) \<Longrightarrow> live s w \<and> frozen s w"
    using assms unfolding cohort_ok_def by (elim conjE) (rule bspec)
qed (use assms in \<open>simp_all add: cohort_ok_def\<close>)

lemma cohort_open:
  assumes "cohort_ok s" "ws_trans s = Some (a, t)"
  shows "ws_present s = []" "t_inv t" "\<not> transaction.complete t" "has_handler t"
    "enrolled t = set (ws_cohort s)" "\<forall>w\<in>set (ws_cohort s). w_trans (win s w) = Some a"
  using assms by (auto simp: cohort_ok_def barrier_ok_def)

lemma enrolled_ack: "t_inv t \<Longrightarrow> enrolled (fst (t_step t (Ack k n))) = enrolled t"
  using t_abs_ack[of t k n] by (simp add: t_abs_def abs_settle_def abs_release_def split: if_splits)

lemma enrolled_same: "enrolled (fst (t_step t Timeout)) = enrolled t"
    "enrolled (fst (t_step t (Transaction.Commit m ms))) = enrolled t"
  by (simp_all add: t_step.simps enrolled_def transaction_commit_def handle_timeout_def Let_def frame_simps)

lemma enrolled_remove: "t_inv t \<Longrightarrow> enrolled (fst (t_step t (Remove k))) = enrolled t - {k}"
  using t_abs_remove[of t k] by (simp add: t_abs_def abs_settle_def abs_release_def split: if_splits)

lemma the_apfst: "fst r \<noteq> None \<Longrightarrow> apfst Some (apfst the r) = r"
  by (cases r) auto

lemma step_forms:
  "transaction_ack (Some t) k n = apfst Some (t_step t (Ack k n))"
  "transaction_remove (Some t) k = apfst Some (t_step t (Remove k))"
  "transaction_commit m (Some t) ms = apfst Some (t_step t (Transaction.Commit m ms))"
  by (simp_all only: t_step.simps, simp_all add: the_apfst transaction_ack_def transaction_remove_def
      transaction_commit_def Let_def split: option.split)

lemma cohort_in_trans:
  assumes "cohort_ok s" "live s w" "w_trans (win s w) = Some b"
  obtains t where "ws_trans s = Some (b, t)" "w \<in> set (ws_cohort s)"
proof -
  have w: "w \<in> set (ws_cohort s)" using cohort_okD(5)[OF assms(1,2)] assms(3) by simp
  with assms(1) obtain a t where t: "ws_trans s = Some (a, t)"
    by (cases "ws_trans s") (auto simp: cohort_ok_def barrier_ok_def)
  with cohort_open(6)[OF assms(1) t] w assms(3) that show thesis by auto
qed

lemma settled_ack_ok:
  assumes "cohort_ok s" "ws_trans s = Some (a, t)"
  shows "cohort_ok (settled (transaction_ack (Some t) w n) s)"
  unfolding step_forms
  by (rule settled_step_ok[OF cohort_okD(4)[OF assms(1)] assms(2) cohort_open(2,3,4,1,6)[OF assms]])
     (simp only: enrolled_ack[OF cohort_open(2)[OF assms]] cohort_open(5)[OF assms])

lemma ack_ok:
  assumes "cohort_ok s" "live s w" shows "cohort_ok (window_ack_configure w s)"
proof -
  let ?s = "updw w (\<lambda>x. x\<lparr>w_acknowledged := True\<rparr>) s"
  have c: "calm {w} s ?s" by (intro calm_intros) (auto simp: same_part_def)
  have ok: "cohort_ok ?s" by (rule calm_ok[OF c assms(1)])
  show ?thesis
  proof (cases "w_trans (win ?s w)")
    case None
    with ok show ?thesis by (simp add: window_ack_configure_def Let_def)
  next
    case (Some b)
    then obtain t where t: "ws_trans ?s = Some (b, t)"
      using cohort_in_trans[OF ok _ Some] assms(2) by auto
    have "window_ack_configure w s = settled (transaction_ack (Some t) w (w_serial (win ?s w))) ?s"
      using Some t by (simp add: window_ack_configure_def Let_def the_trans_def)
    with settled_ack_ok[OF ok t] show ?thesis by simp
  qed
qed

subsection \<open>Joining and leaving\<close>

text \<open>Bookkeeping that touches no view and no surface.\<close>

definition same_views :: "'a wstate_scheme \<Rightarrow> 'a wstate_scheme \<Rightarrow> bool" where
  "same_views s s' \<longleftrightarrow>
     c_heap s' = c_heap s \<and> c_surf s' = c_surf s \<and>
     (\<forall>u. live s' u = live s u \<and> (live s u \<longrightarrow> w_view (win s' u) = w_view (win s u)))"

lemma same_viewsD:
  assumes "same_views s s'"
  shows "c_heap s' = c_heap s" "c_surf s' = c_surf s" "cv s' = cv s" "live s' u = live s u"
    "live s u \<Longrightarrow> w_view (win s' u) = w_view (win s u)" "live s u \<Longrightarrow> win_surface s' u = win_surface s u"
    "live s u \<Longrightarrow> frozen s' u = frozen s u" "live s u \<Longrightarrow> shows_window s' u = shows_window s u"
  using assms by (simp_all add: same_views_def win_surface_def cv_def frozen_def shows_window_def fun_eq_iff)

lemma same_views_linked:
  assumes "same_views s s'" "linked s" shows "linked s'"
  using assms(2) unfolding linked_def by (simp add: same_viewsD[OF assms(1)])

lemma settled_same_views: "distinct (ws_cohort s) \<Longrightarrow> same_views s (settled r s)"
  by (simp add: same_views_def settled_frame)

lemma join_ok:
  assumes ok: "cohort_ok s" and w: "live s w" shows "cohort_ok (join_transaction w b s)"
proof (cases "ws_trans s = None \<or> w_trans (win s w) \<noteq> None")
  case True
  with ok show ?thesis by (cases "ws_trans s") (auto simp: join_transaction_def)
next
  case False
  then obtain a t where t: "ws_trans s = Some (a, t)" and wt: "w_trans (win s w) = None" by auto
  note O = cohort_open[OF ok t]
  let ?n = "w_serial (win s w)"
  obtain t' added where add: "transaction_add (ws_mem s) (Some t) w ?n = (t', added)" by force
  show ?thesis
  proof (cases added)
    case False
    with add t wt ok show ?thesis by (simp add: join_transaction_def Let_def)
  next
    case True
    define u where "u = fst (t_step t (Add (ws_mem s) w ?n))"
    have t': "t' = Some u" using add True
      by (auto simp: u_def t_step.simps transaction_add_def split: if_splits)
    have u: "t_inv u" "has_handler u" "\<not> transaction.complete u" "enrolled u = insert w (set (ws_cohort s))"
    proof -
      show "t_inv u" unfolding u_def by (rule t_inv_step[OF O(2)])
      have f: "participants u = \<lparr>p_key = w, p_serial = ?n, p_acked = False\<rparr> # participants t"
        "has_handler u = has_handler t" "transaction.complete u = transaction.complete t"
        using add True by (auto simp: u_def t_step.simps transaction_add_def split: if_splits)
      then show "enrolled u = insert w (set (ws_cohort s))" using O(5) by (simp add: enrolled_def)
      from f O show "has_handler u" "\<not> transaction.complete u" by simp_all
    qed
    define s2 where "s2 = (updw w (\<lambda>x. x\<lparr>w_trans := Some a\<rparr>) (s\<lparr>ws_trans := Some (a, u)\<rparr>))
        \<lparr>ws_cohort := w # ws_cohort s\<rparr>"
    have s2: "ws_trans s2 = Some (a, u)" "ws_cohort s2 = w # ws_cohort s" "ws_present s2 = []"
      "ws_present_init s2 = ws_present_init s" "ws_renderer s2 = ws_renderer s"
      "w_trans (win s2 w) = Some a" "\<And>v. v \<noteq> w \<Longrightarrow> win s2 v = win s v"
      using w O(1) by (simp_all add: s2_def updw_def win_def live_def)
        (auto simp: s2_def updw_def win_def live_def)
    have sv: "same_views s s2"
      by (auto simp: same_views_def s2_def updw_def live_def win_def)
    note V = same_viewsD[OF sv]
    have l2: "linked s2" by (rule same_views_linked[OF sv cohort_okD(1)[OF ok]])
    have w2: "live s2 w" using w V by simp
    note H = hold_window_effect[OF l2 w2]
    define s3 where "s3 = hold_window w s2"
    note I = isolatesD[OF H(1)[folded s3_def]]
    have w3: "win s3 = win s2" using H(4) by (simp add: s3_def win_def fun_eq_iff)
    have nw: "w \<notin> set (ws_cohort s)" using cohort_okD(5)[OF ok w] wt by simp
    have fr: "frozen s3 v" if "v \<in> set (w # ws_cohort s)" for v
    proof (cases "v = w")
      case True then show ?thesis using H(2) by (simp add: s3_def)
    next
      case False
      with that have v: "live s v" "frozen s v" using cohort_okD(6)[OF ok, of v] by auto
      then have "live s2 v" by (simp add: V)
      with False v show ?thesis using I(18)[of v] V(6,2) by (simp add: frozen_def I(13))
    qed
    have sh: "shows_window s3 v" if "live s v" for v
    proof (cases "v = w")
      case True
      have "shows_window s2 w" using cohort_okD(7)[OF ok w] V(8)[OF w] by simp
      from H(3)[OF this] True show ?thesis by (simp add: s3_def)
    next
      case False
      from that have "live s2 v" by (simp add: V)
      then have "shows_window s3 v = shows_window s2 v"
        using False I(17,18)[of v] by (simp add: shows_window_def I(9,13))
      with that cohort_okD(7)[OF ok that] show ?thesis by (simp add: V)
    qed
    have tr: "(w_trans (win s3 v) = None) = (v \<notin> set (w # ws_cohort s))" if "live s v" for v
      using cohort_okD(5)[OF ok that] s2(6,7) by (cases "v = w") (simp_all add: w3)
    have inits: "ws_present_init s" using ok t by (auto simp: cohort_ok_def)
    have "rest_ok s3"
      unfolding rest_ok_def using w I(2) cohort_okD[OF ok] nw fr sh tr inits
      by (simp add: I(3-8) s2 V)
    moreover have "barrier_ok s3"
      using O(6) u nw s2(7) unfolding barrier_ok_def by (auto simp: I(3-5) s2(1-6) w3) (metis s2(7))
    ultimately have ok3: "cohort_ok s3" by (simp add: cohort_ok_split)
    have "join_transaction w b s = (if b then s3 else settled (transaction_ack (Some u) w ?n) s3)"
      using t wt add True t' s2(1) I(3)
      by (simp add: join_transaction_def Let_def s3_def s2_def the_trans_def)
    with ok3 settled_ack_ok[OF ok3, of a u] s2(1) I(3) show ?thesis by simp
  qed
qed

lemma unlink_ok:
  assumes ok: "cohort_ok s" and w: "live s w" and wt: "w_trans (win s w) = None"
  shows "cohort_ok (unlink w s)"
proof -
  let ?s = "unlink w s"
  have sv: "same_views s ?s" by (simp add: same_views_def unlink_def live_def win_def)
  note V = same_viewsD[OF sv]
  have nw: "w \<notin> set (ws_cohort s)" using cohort_okD(5)[OF ok w] wt by simp
  have f: "ws_cohort ?s = ws_cohort s" "ws_present ?s = remove1 w (ws_present s)" "ws_trans ?s = ws_trans s"
    "ws_present_init ?s = ws_present_init s" "ws_renderer ?s = ws_renderer s" "win ?s = win s"
    using nw by (simp_all add: unlink_def remove1_idem win_def fun_eq_iff)
  have l: "linked ?s" by (rule same_views_linked[OF sv cohort_okD(1)[OF ok]])
  have "barrier_ok ?s"
    using ok unfolding cohort_ok_def barrier_ok_def f by (cases "ws_trans s") auto
  moreover have "live ?s v \<and> frozen ?s v" if "v \<in> set (ws_cohort ?s) \<union> set (ws_present ?s)" for v
  proof -
    from that have "v \<in> set (ws_cohort s) \<union> set (ws_present s)"
      unfolding f by (auto dest: notin_set_remove1)
    from cohort_okD(6)[OF ok this] show ?thesis using V(4,7)[of v] by simp
  qed
  ultimately have "cohort_ok ?s"
    using ok l unfolding cohort_ok_def by (simp add: f V) blast
  then show ?thesis .
qed

lemma leave_ok:
  assumes ok: "cohort_ok s" and w: "live s w" shows "cohort_ok (leave_transaction w s)"
proof (cases "w_trans (win s w)")
  case None
  with unlink_ok[OF ok w] show ?thesis by (simp add: leave_transaction_def)
next
  case (Some a)
  obtain t where t: "ws_trans s = Some (a, t)" and wc: "w \<in> set (ws_cohort s)"
    by (rule cohort_in_trans[OF ok w Some])
  note O = cohort_open[OF ok t]
  define s1 where "s1 = unlink w (updw w (\<lambda>x. x\<lparr>w_trans := None\<rparr>) s)"
  have s1: "ws_trans s1 = Some (a, t)" "ws_cohort s1 = remove1 w (ws_cohort s)" "ws_present s1 = []"
    "ws_present_init s1 = ws_present_init s" "ws_renderer s1 = ws_renderer s"
    "w_trans (win s1 w) = None" "\<And>v. v \<noteq> w \<Longrightarrow> win s1 v = win s v"
    using w O(1) t by (simp_all add: s1_def unlink_def updw_def win_def live_def)
      (auto simp: s1_def unlink_def updw_def win_def live_def)
  have sv: "same_views s s1"
    by (auto simp: same_views_def s1_def unlink_def updw_def live_def win_def)
  note V = same_viewsD[OF sv]
  have l1: "linked s1" by (rule same_views_linked[OF sv cohort_okD(1)[OF ok]])
  have w1: "live s1 w" using w V by simp
  have sh1: "shows_window s1 w" using cohort_okD(7)[OF ok w] V(8)[OF w] by simp
  have r1: "\<And>v. 0 \<le> ws_renderer s1 v" using cohort_okD(8)[OF ok] s1(5) by simp
  define s2 where "s2 = release_window w s1"
  note R = release_window_effect[OF l1 w1 sh1 r1, folded s2_def]
  note I = isolatesD[OF R(1)]
  have d: "distinct (ws_cohort s)" by (rule cohort_okD(2)[OF ok])
  have oth: "frozen s2 v = frozen s v" "shows_window s2 v = shows_window s v" "win s2 v = win s v"
    if "live s v" "v \<noteq> w" for v
  proof -
    from that have v: "live s1 v" "v \<notin> {w}" by (auto simp: V)
    then show "win s2 v = win s v" using I(15) s1(7) that by simp
    have "frozen s2 v = frozen s1 v" "shows_window s2 v = shows_window s1 v"
      using I(17,18)[OF v] by (simp_all add: shows_window_def frozen_def I(9,13))
    with that show "frozen s2 v = frozen s v" "shows_window s2 v = shows_window s v" by (simp_all add: V)
  qed
  have c2: "v \<in> set (ws_cohort s) \<and> v \<noteq> w" if "v \<in> set (ws_cohort s2)" for v
    using that d by (auto simp: I(4) s1)
  have sh: "shows_window s2 v" if "live s v" for v
    using oth(2)[OF that] cohort_okD(7)[OF ok that] R(3) by (cases "v = w") simp_all
  have tr: "(w_trans (win s2 v) = None) = (v \<notin> set (ws_cohort s2))" if "live s v" for v
    using cohort_okD(5)[OF ok that] oth(3)[OF that] d s1(6)
    by (cases "v = w") (simp_all add: I(4,10) s1)
  have r: "rest_ok s2"
    unfolding rest_ok_def
  proof (intro conjI)
    show "\<forall>v\<in>set (ws_cohort s2) \<union> set (ws_present s2). live s2 v \<and> frozen s2 v"
    proof
      fix v assume "v \<in> set (ws_cohort s2) \<union> set (ws_present s2)"
      then have "v \<in> set (ws_cohort s)" "v \<noteq> w" using c2 by (auto simp: I(5) s1)
      with cohort_okD(6)[OF ok, of v] oth(1)[of v] show "live s2 v \<and> frozen s2 v" by (simp add: I(8) V)
    qed
  qed (use I(2) ok tr sh d t in \<open>simp_all add: I(3-8) s1 V cohort_ok_def\<close>)
  have tr2: "ws_trans s2 = Some (a, t)" by (simp add: I(3) s1)
  have e: "leave_transaction w s = settled (apfst Some (t_step t (Remove w))) s2"
    using Some tr2 by (simp add: leave_transaction_def Let_def s2_def s1_def the_trans_def step_forms)
  show ?thesis
    unfolding e
  proof (rule settled_step_ok[OF r tr2 O(2-4)])
    show "ws_present s2 = []" by (simp add: I(5) s1)
    show "\<forall>v\<in>set (ws_cohort s2). w_trans (win s2 v) = Some a"
      using c2 O(6) oth(3) cohort_okD(6)[OF ok] by simp
    show "enrolled (fst (t_step t (Remove w))) = set (ws_cohort s2)"
      using enrolled_remove[OF O(2), of w] O(5) d by (simp add: I(4) s1)
  qed
qed

subsection \<open>Presenting\<close>

lemma view_move_place:
  fixes s :: "'a comp_scheme"
  assumes v: "c_heap s v \<noteq> None"
  shows "place (cv (view_move v x y s) v) = (x, y)"
proof -
  have "place (cv (snd (view_set_position v x y t)) v) = (x, y)" if "c_heap t v \<noteq> None"
    for t :: "'a comp_scheme"
    using that by (auto simp: view_set_position_def place_def)
  moreover have "place (w\<lparr>v_clip := []\<rparr>) = place w" for w by (simp add: place_def)
  ultimately show ?thesis
    using v unfolding view_move_def Let_def case_prod_beta
    by (simp add: update_screens_field field_upd damage_below_view_def)
qed

definition untouched :: "'a wstate_scheme \<Rightarrow> 'a wstate_scheme \<Rightarrow> addr \<Rightarrow> bool" where
  "untouched s s' w \<longleftrightarrow>
     win s' w = win s w \<and> win_surface s' w = win_surface s w \<and>
     c_heap s' (w_view (win s w)) = c_heap s (w_view (win s w)) \<and>
     c_surf s' (win_surface s w) = c_surf s (win_surface s w)"

text \<open>A presented window: its committed buffer is on its view, and when it acknowledged its
  configure it is where it was to be moved.\<close>

definition landed :: "'a wstate_scheme \<Rightarrow> 'a wstate_scheme \<Rightarrow> addr \<Rightarrow> bool" where
  "landed s s' w \<longleftrightarrow>
     (let x = win s w; v = w_view x
      in \<not> frozen s' w \<and> v_buffer (cv s' v) = sf_buffer (c_surf s (win_surface s w)) \<and>
         (\<not> ia_active (w_resize x) \<longrightarrow>
            (if w_trans_acked x
             then place (cv s' v) = (if w_move_pending x then (w_move_x x, w_move_y x) else place (cv s v)) \<and>
                  \<not> w_move_pending (win s' w) \<and> \<not> w_pending (win s' w)
             else \<not> w_acknowledged x \<longrightarrow>
                  place (cv s' v) = place (cv s v) \<and> w_move_pending (win s' w) = w_move_pending x)))"

lemma present_window_effect:
  assumes ok: "cohort_ok s" and wp: "w \<in> set (ws_present s)"
  defines "s' \<equiv> present_window w s"
  shows "cohort_ok s'" "ws_present s' = remove1 w (ws_present s)" "landed s s' w"
    "live s u \<Longrightarrow> u \<noteq> w \<Longrightarrow> untouched s s' u" "live s' u = live s u"
    "w_view (win s' w) = w_view (win s w)" "ws_trans s' = ws_trans s \<and> ws_present_init s' = ws_present_init s"
proof -
  have w: "live s w" using cohort_okD(6)[OF ok] wp by blast
  have "ws_trans s = None" using ok wp by (cases "ws_trans s") (auto simp: cohort_ok_def barrier_ok_def)
  with ok have c: "ws_cohort s = []" by (simp add: cohort_ok_def barrier_ok_def)
  then have wt: "w_trans (win s w) = None" using cohort_okD(5)[OF ok w] by simp
  define s1 where "s1 = unlink w s"
  have e1: "s1 = s\<lparr>ws_present := remove1 w (ws_present s)\<rparr>" using c by (simp add: s1_def unlink_def)
  have ok1: "cohort_ok s1" unfolding s1_def by (rule unlink_ok[OF ok w wt])
  have sv: "same_views s s1" by (simp add: same_views_def e1 live_def win_def)
  note V = same_viewsD[OF sv]
  have w1: "live s1 w" "win s1 = win s" using w V by (simp_all add: e1 win_def fun_eq_iff)
  define s2 where "s2 = (if w_trans_acked (win s1 w)
               then updw w (\<lambda>x. x\<lparr>w_pending := False\<rparr>) (flush w s1) else s1)"
  have cl: "calm {w} s1 s2" unfolding s2_def by (auto intro!: calm_intros simp: same_part_def)
  have ok2: "cohort_ok s2" by (rule calm_ok[OF cl ok1])
  have w2: "live s2 w" using w1 calmD(12)[OF cl] by simp
  have s': "s' = release_window w s2" by (simp add: s'_def present_window_def Let_def s2_def e1)
  note R = release_window_effect[OF cohort_okD(1)[OF ok2] w2 cohort_okD(7)[OF ok2 w2] cohort_okD(8)[OF ok2], folded s']
  note I = isolatesD[OF R(1)]
  have pr: "ws_present s2 = remove1 w (ws_present s)" "ws_cohort s2 = []"
    using c by (simp_all add: calmD[OF cl] e1)
  have nw: "w \<notin> set (ws_present s2)" using cohort_okD(3)[OF ok] pr(1) by simp
  show "cohort_ok s'"
    by (rule isolates_ok[OF R(1) ok2]) (use R(3) nw pr(2) in auto)
  show "ws_present s' = remove1 w (ws_present s)" by (simp add: I(5) pr(1))
  show "live s' u = live s u" by (simp add: I(8) calmD[OF cl] V)
  have sub: "{w} \<subseteq> {w. live s1 w}" using w1 by simp
  show "untouched s s' u" if u: "live s u" "u \<noteq> w"
  proof -
    have u1: "live s1 u" "u \<notin> {w}" using u by (simp_all add: V)
    have u2: "live s2 u" using u1 calmD(12)[OF cl] by simp
    have "c_heap s' (w_view (win s u)) = c_heap s1 (w_view (win s u))"
      using I(16)[OF u2 u1(2)] calm_view[OF cl cohort_okD(1)[OF ok1] sub u1] w1(2) calmD(13)[OF cl, of u]
      by simp
    moreover have "c_surf s' (win_surface s u) = c_surf s1 (win_surface s u)"
      using I(18)[OF u2 u1(2)] calmD(1,17)[OF cl] V(6)[OF u(1)] by simp
    moreover have "win s' u = win s u" using I(15)[OF u1(2)] calmD(19)[OF cl u1(2)] w1(2) by simp
    moreover have "win_surface s' u = win_surface s u"
      using I(13)[of u] calmD(17)[OF cl, of u] V(6)[OF u(1)] by simp
    ultimately show ?thesis by (simp add: untouched_def V)
  qed
  have vw: "w_view (win s2 w) = w_view (win s w)" "win_surface s2 w = win_surface s w"
    "c_surf s2 = c_surf s" "w_resize (win s2 w) = w_resize (win s w)"
    using w1(2) V(6)[OF w] by (simp_all add: calmD[OF cl] V)
  have hv: "c_heap s1 (w_view (win s w)) \<noteq> None"
    using linkedD(1)[OF cohort_okD(1)[OF ok1] w1(1)] w1(2) by simp
  have acked: "place (cv s2 (w_view (win s w))) =
      (if w_move_pending (win s w) then (w_move_x (win s w), w_move_y (win s w)) else place (cv s (w_view (win s w)))) \<and>
      \<not> w_move_pending (win s2 w) \<and> \<not> w_pending (win s2 w)" if "w_trans_acked (win s w)"
  proof -
    have im: "c_heap (impl_move w x y s1) = c_heap s1" "live (impl_move w x y s1) w"
      "w_move_pending (win (impl_move w x y s1) w) = w_move_pending (win s1 w)" for x y
      using w1(1) by (simp_all add: impl_move_def emit_def live_def win_def split: shell.split)
    have lv: "live (view_move v x y t) w = live t w" "win (view_move v x y t) = win t" for v x y and t :: "'a wstate_scheme"
      using acts_wstate[OF acts_view_move[OF acts_refl, of v "{v}" "{}" t x y]] by simp_all
    show ?thesis
      using that w1 im hv V(3) lv by (auto simp: s2_def flush_def Let_def view_move_place)
  qed
  show "w_view (win s' w) = w_view (win s w)" by (simp add: I(9) vw)
  show "ws_trans s' = ws_trans s \<and> ws_present_init s' = ws_present_init s"
    by (simp add: I(3,6) calmD[OF cl] e1)
  show "landed s s' w"
    unfolding landed_def Let_def
  proof (intro conjI impI)
    show "\<not> frozen s' w" by (rule R(2))
    show "v_buffer (cv s' (w_view (win s w))) = sf_buffer (c_surf s (win_surface s w))"
      using R(4) by (simp add: vw)
    assume ia: "\<not> ia_active (w_resize (win s w))"
    show "if w_trans_acked (win s w)
      then place (cv s' (w_view (win s w))) = (if w_move_pending (win s w) then (w_move_x (win s w), w_move_y (win s w))
             else place (cv s (w_view (win s w)))) \<and> \<not> w_move_pending (win s' w) \<and> \<not> w_pending (win s' w)
      else \<not> w_acknowledged (win s w) \<longrightarrow> place (cv s' (w_view (win s w))) = place (cv s (w_view (win s w))) \<and>
             w_move_pending (win s' w) = w_move_pending (win s w)"
    proof (cases "w_trans_acked (win s w)")
      case True
      have "settled_in (win s2 w)" using ia acked[OF True] by (simp add: settled_in_def vw)
      with acked[OF True] R(6-8) True show ?thesis by (simp add: vw)
    next
      case False
      have s2s: "s2 = s1" using False w1 by (simp add: s2_def)
      show ?thesis
      proof (cases "w_acknowledged (win s w)")
        case False
        have "settled_in (win s2 w)" using ia False w1 by (simp add: settled_in_def s2s)
        with R(6,7) \<open>\<not> w_trans_acked (win s w)\<close> w1 show ?thesis by (simp add: s2s V)
      qed (use False in simp)
    qed
  qed
qed

lemma landed_later: "landed s t w \<Longrightarrow> untouched t s' w \<Longrightarrow> w_view (win t w) = w_view (win s w) \<Longrightarrow> landed s s' w"
  by (simp add: landed_def untouched_def frozen_def Let_def cv_def split: if_splits)

lemma untouched_landed:
  assumes "untouched s t w" "landed t s' w" shows "landed s s' w"
proof -
  have e: "win t w = win s w" "cv t (w_view (win s w)) = cv s (w_view (win s w))"
    "c_surf t (win_surface t w) = c_surf s (win_surface s w)"
    using assms(1) by (simp_all add: untouched_def cv_def)
  show ?thesis using assms(2) unfolding landed_def Let_def e .
qed

lemma untouched_trans: "untouched s t w \<Longrightarrow> untouched t u w \<Longrightarrow> untouched s u w"
  by (simp add: untouched_def)

lemma present_windows_effect:
  assumes "cohort_ok s" "distinct xs" "set xs \<subseteq> set (ws_present s)"
  shows "cohort_ok (fold present_window xs s) \<and>
    ws_present (fold present_window xs s) = fold remove1 xs (ws_present s) \<and>
    (\<forall>w\<in>set xs. landed s (fold present_window xs s) w) \<and>
    (\<forall>u. live s u \<and> u \<notin> set xs \<longrightarrow> untouched s (fold present_window xs s) u) \<and>
    (\<forall>u. live (fold present_window xs s) u = live s u) \<and>
    ws_trans (fold present_window xs s) = ws_trans s \<and>
    ws_present_init (fold present_window xs s) = ws_present_init s"
  using assms
proof (induction xs arbitrary: s)
  case (Cons x xs)
  let ?t = "present_window x s"
  have x: "x \<in> set (ws_present s)" using Cons.prems(3) by simp
  note E = present_window_effect[OF Cons.prems(1) x]
  have d: "x \<notin> set xs" "distinct xs" using Cons.prems(2) by auto
  have sub: "set xs \<subseteq> set (ws_present ?t)" using Cons.prems(3) d cohort_okD(3)[OF Cons.prems(1)] by (auto simp: E(2))
  note IH = Cons.IH[OF E(1) d(2) sub]
  have lv: "live s u" if "u \<in> set (x # xs)" for u
    using that Cons.prems(3) cohort_okD(6)[OF Cons.prems(1), of u] by auto
  have "landed s (fold present_window xs ?t) w" if "w \<in> set (x # xs)" for w
  proof (cases "w = x")
    case True
    have "untouched ?t (fold present_window xs ?t) x" using IH d(1) lv E(5) by simp
    with True landed_later[OF E(3) _ E(6)] show ?thesis by simp
  next
    case False
    with that lv E(4) have "untouched s ?t w" by simp
    moreover have "landed ?t (fold present_window xs ?t) w" using IH False that by simp
    ultimately show ?thesis by (rule untouched_landed)
  qed
  moreover have "untouched s (fold present_window xs ?t) u" if "live s u" "u \<notin> set (x # xs)" for u
  proof -
    have "untouched s ?t u" using E(4) that by simp
    moreover have "untouched ?t (fold present_window xs ?t) u" using IH that E(5) by simp
    ultimately show ?thesis by (rule untouched_trans)
  qed
  ultimately show ?case using IH E(2,5,7) by simp
qed (simp add: untouched_def)

lemma present_cohort_effect:
  assumes "cohort_ok s"
  shows "cohort_ok (present_cohort s)" "ws_present (present_cohort s) = []"
    "w \<in> set (ws_present s) \<Longrightarrow> landed s (present_cohort s) w"
    "live s u \<Longrightarrow> u \<notin> set (ws_present s) \<Longrightarrow> untouched s (present_cohort s) u"
    "live (present_cohort s) u = live s u" "ws_trans (present_cohort s) = ws_trans s"
    "ws_present_init (present_cohort s) = ws_present_init s"
  using present_windows_effect[OF assms cohort_okD(3)[OF assms] order_refl]
  by (simp_all add: present_cohort_def fold_remove1_self)

subsection \<open>Every operation\<close>

lemma begin_ok: "cohort_ok s \<Longrightarrow> cohort_ok (snd (swc_transaction_begin mem s))"
proof -
  assume ok: "cohort_ok s"
  let ?s = "if \<not> ws_present_init s then s\<lparr>ws_present := [], ws_present_init := True\<rparr> else s"
  have ok1: "cohort_ok ?s"
    using ok unfolding cohort_ok_def barrier_ok_def linked_def shows_window_def frozen_def win_surface_def
    by (cases "ws_trans s") (auto simp: cv_def win_def live_def)
  have tr: "ws_trans ?s = ws_trans s" by simp
  note P = present_cohort_effect[OF ok1]
  show ?thesis
  proof (cases "ws_trans s = None \<and> mem \<noteq> None")
    case False
    then show ?thesis
      using ok1 P(1) by (auto simp: swc_transaction_begin_def Let_def transaction_create_def)
  next
    case True
    then obtain a where a: "mem = Some a" by blast
    define t where "t = present_cohort ?s"
    let ?x = "\<lparr>has_handler = True, participants = [], timer = None, t_size = 0, t_pending = 0,
      committed = False, complete = False\<rparr> :: addr transaction"
    have x: "transaction_create True True True = Some ?x" by (simp add: transaction_create_def)
    have okt: "cohort_ok t" "ws_present t = []" using P(1,2) by (simp_all add: t_def)
    have "ws_trans t = None" using P(6) True by (simp add: t_def)
    with okt have c: "ws_cohort t = []" by (simp add: cohort_ok_def barrier_ok_def)
    have e: "snd (swc_transaction_begin mem s) = t\<lparr>ws_trans := Some (a, ?x), ws_cohort := []\<rparr>" (is "_ = ?t")
      using True a x by (simp add: swc_transaction_begin_def Let_def t_def)
    have sv: "same_views t ?t" by (simp add: same_views_def live_def win_def)
    note V = same_viewsD[OF sv]
    have w: "win ?t = win t" by (simp add: win_def fun_eq_iff)
    have "linked ?t" by (rule same_views_linked[OF sv cohort_okD(1)[OF okt(1)]])
    moreover have "barrier_ok ?t"
      using t_inv_create[OF x] okt(2) by (simp add: barrier_ok_def enrolled_def)
    moreover have "ws_present_init t" using P(7) by (simp add: t_def)
    ultimately have "cohort_ok ?t"
      using okt c unfolding cohort_ok_def by (simp add: V w)
    then show ?thesis unfolding e .
  qed
qed


lemma present_ok: "cohort_ok s \<Longrightarrow> cohort_ok (swc_transaction_present s)"
  by (simp add: swc_transaction_present_def present_cohort_effect(1))

lemma commit_ok:
  assumes "cohort_ok s" shows "cohort_ok (swc_transaction_commit ms done s)"
proof (cases "ws_trans s")
  case (Some at)
  then obtain a t where t: "ws_trans s = Some (a, t)" by (metis surj_pair)
  let ?s = "s\<lparr>ws_done := done\<rparr>"
  have "calm {} s ?s" by (simp add: calm_def cv_def live_def win_def)
  then have ok: "cohort_ok ?s" by (rule calm_ok[OF _ assms])
  have t': "ws_trans ?s = Some (a, t)" using t by simp
  note O = cohort_open[OF ok t']
  have "cohort_ok (settled (apfst Some (t_step t (Transaction.Commit (ws_mem s) ms))) ?s)"
    by (rule settled_step_ok[OF cohort_okD(4)[OF ok] t' O(2-4) O(1) O(6)])
       (simp only: enrolled_same O(5))
  with t show ?thesis by (simp add: swc_transaction_commit_def Let_def step_forms)
qed (use assms in \<open>simp add: swc_transaction_commit_def\<close>)

lemma timeout_ok:
  assumes "cohort_ok s" shows "cohort_ok (transaction_timeout s)"
proof (cases "ws_trans s")
  case (Some at)
  then obtain a t where t: "ws_trans s = Some (a, t)" by (metis surj_pair)
  note O = cohort_open[OF assms t]
  have "cohort_ok (settled (apfst Some (t_step t Timeout)) s)"
    by (rule settled_step_ok[OF cohort_okD(4)[OF assms] t O(2-4) O(1) O(6)])
       (simp only: enrolled_same O(5))
  with t assms show ?thesis
    by (cases "timer_armed t") (simp_all add: transaction_timeout_def t_step.simps)
qed (use assms in \<open>simp add: transaction_timeout_def\<close>)

lemma position_ok:
  assumes ok: "cohort_ok s" and w: "live s w" shows "cohort_ok (swc_window_set_position (Some w) x y s)"
proof -
  let ?f = "updw w (\<lambda>z. z\<lparr>w_move_x := x, w_move_y := y, w_move_pending := True\<rparr>)"
  have c: "calm {w} s (updw w (\<lambda>z. z\<lparr>w_move_pending := False\<rparr>) s)" "calm {w} s (?f s)"
    "calm {w} s (flush w (?f s))"
    by (intro calm_intros; simp add: same_part_def)+
  note k = calm_ok[OF c(1) ok] calm_ok[OF c(2) ok] calm_ok[OF c(3) ok]
  show ?thesis
    using k join_ok[OF k(2)] w by (simp add: swc_window_set_position_def Let_def)
qed

lemma calm_reconfigured: "calm {w} s (reconfigured w a b s)"
  by (auto simp: reconfigured_def Let_def same_part_def intro!: calm_intros)

lemma set_size_cases:
  obtains "swc_window_set_size (Some w) width height s = s"
  | a b t where "t = reconfigured w a b s" "swc_window_set_size (Some w) width height s =
      (if ws_trans t \<noteq> None then join_transaction w (\<not> w_acknowledged (win t w)) t else t)"
proof -
  obtain a b where c: "clamp_window_size (win s w) width height = (a, b)" by force
  let ?same = "w_pending (win s w) \<and> a = w_conf_w (win s w) \<and> b = w_conf_h (win s w) \<or>
    \<not> w_pending (win s w) \<and> a = r_w (geom s w) \<and> b = r_h (geom s w)"
  show thesis
  proof (cases ?same)
    case True
    with c show thesis by (intro that(1)) (simp add: swc_window_set_size_def Let_def)
  next
    case False
    then have "swc_window_set_size (Some w) width height s =
      (let s = reconfigured w a b s
       in if ws_trans s \<noteq> None then join_transaction w (\<not> w_acknowledged (win s w)) s else s)"
      unfolding swc_window_set_size_def by (simp only: c Let_def option.case prod.case if_False)
    then show thesis by (intro that(2)[OF refl]) (simp only: Let_def)
  qed
qed

lemma size_ok:
  assumes ok: "cohort_ok s" and w: "live s w" shows "cohort_ok (swc_window_set_size (Some w) a b s)"
proof (cases rule: set_size_cases[of w a b s])
  case (2 c d t)
  have "cohort_ok t" "live t w"
    using calm_ok[OF calm_reconfigured ok] calmD(12)[OF calm_reconfigured] w unfolding 2(1) by blast+
  then show ?thesis unfolding 2(2) by (simp add: join_ok)
qed (use ok in simp)

lemma stacked_ok:
  assumes ok: "cohort_ok s" shows "cohort_ok (swc_window_set_stacked w s)"
proof -
  have "calm {w} s (swc_window_set_stacked w s)"
    by (auto simp: swc_window_set_stacked_def Let_def same_part_def intro!: calm_intros)
  then show ?thesis by (rule calm_ok[OF _ ok])
qed

subsection \<open>Commits of surfaces\<close>

lemma apply_pending_fields:
  assumes "0 \<le> r" "c_heap s v \<noteq> None" "sf_view (c_surf s f) = Some v"
    and "sf_hold_attach (c_surf s f) \<longrightarrow> sf_held (c_surf s f)"
    and "\<not> sf_hold_attach (c_surf s f) \<longrightarrow> v_buffer (cv s v) = sf_buffer (c_surf s f)"
  defines "s' \<equiv> surface_apply_pending r f s"
  shows "sf_held (c_surf s' f) = sf_held (c_surf s f)"
    "sf_hold_attach (c_surf s' f) \<longrightarrow> sf_held (c_surf s' f)"
    "\<not> sf_hold_attach (c_surf s' f) \<longrightarrow> v_buffer (cv s' v) = sf_buffer (c_surf s' f)"
  using assms by (auto simp: surface_apply_pending_def Let_def)

lemma apply_pending_held:
  assumes "sf_held (c_surf s f)" shows "c_heap (surface_apply_pending r f s) = c_heap s"
  using assms by (auto simp: surface_apply_pending_def Let_def split: option.split)

lemma commit_effect:
  fixes f :: addr and r :: int
  assumes "linked s" "0 \<le> r" "\<forall>w. live s w \<longrightarrow> shows_window s w"
  defines "W \<equiv> {w. live s w \<and> win_surface s w = f}" and "s' \<equiv> window_commit r f s"
  shows "isolates W s s'" "w \<in> W \<Longrightarrow> shows_window s' w \<and> (frozen s' w = frozen s w)"
    "w \<in> W \<Longrightarrow> frozen s w \<Longrightarrow> v_buffer (cv s' (w_view (win s w))) = v_buffer (cv s (w_view (win s w)))"
proof -
  define t where "t = surface_apply_pending r f s"
  have a: "acts {f} (views_of s {f}) s t"
    unfolding t_def by (intro acts_intros acts_refl) (auto simp: views_of_def)
  obtain ns where ns: "c_notes t = c_notes s @ ns" "fst ` set ns \<subseteq> views_of s {f}"
    using a by (auto simp: acts_def)
  have s': "s' = fold run_note ns t"
    unfolding s'_def window_commit_def with_handlers_def Let_def t_def[symmetric] by (simp add: ns)
  have lt: "linked t" by (rule acts_linked[OF a assms(1)])
  have no: "noted t (fst ` set ns) \<subseteq> W"
  proof
    fix x assume "x \<in> noted t (fst ` set ns)"
    with ns(2) have x: "x \<in> noted s (views_of s {f})"
      using acts_wstate(2,8)[OF a] by (auto simp: noted_def)
    then have "live s x" by (simp add: noted_def)
    with noted_views[OF assms(1) x] show "x \<in> W" by (simp add: W_def)
  qed
  have c: "calm W t s'" unfolding s' by (rule calm_run_notes[OF calm_refl lt no])
  have i1: "isolates W s t" by (rule acts_isolates[OF a assms(1)]) (simp add: W_def)
  have i2: "isolates W t s'"
    by (rule calm_isolates[OF c lt]) (auto simp: W_def acts_wstate[OF a])
  show i: "isolates W s s'" by (rule isolates_trans[OF i1 i2])
  assume w: "w \<in> W"
  then have f: "live s w" "win_surface s w = f" by (simp_all add: W_def)
  note L = linkedD[OF assms(1) f(1)]
  have sh: "sf_hold_attach (c_surf s f) \<longrightarrow> sf_held (c_surf s f)"
    "\<not> sf_hold_attach (c_surf s f) \<longrightarrow> v_buffer (cv s (w_view (win s w))) = sf_buffer (c_surf s f)"
    using assms(3)[rule_format, OF f(1)] f(2) by (simp_all add: shows_window_def Let_def)
  have v: "sf_view (c_surf s f) = Some (w_view (win s w))" using L(4) f(2) by simp
  note P = apply_pending_fields[OF assms(2) L(1) v sh, folded t_def]
  show "shows_window s' w \<and> (frozen s' w = frozen s w)"
    using P f(2) isolatesD(9,13)[OF i, of w] calmD(1,6)[OF c]
    by (simp add: shows_window_def frozen_def Let_def)
  assume "frozen s w"
  then have "c_heap t = c_heap s" unfolding t_def using f(2) by (intro apply_pending_held) (simp add: frozen_def)
  then show "v_buffer (cv s' (w_view (win s w))) = v_buffer (cv s (w_view (win s w)))"
    using calmD(6)[OF c] by (simp add: cv_def)
qed

lemma surface_ok:
  assumes ok: "cohort_ok s" and r: "0 \<le> r" shows "cohort_ok (window_commit r f s)"
proof -
  have "\<forall>w. live s w \<longrightarrow> shows_window s w" using cohort_okD(7)[OF ok] by blast
  note C = commit_effect[where f = f, OF cohort_okD(1)[OF ok] r this]
  show ?thesis
  proof (rule isolates_ok[OF C(1) ok])
    fix w assume "w \<in> {w. live s w \<and> win_surface s w = f}"
    from C(2)[OF this] cohort_okD(6)[OF ok, of w]
    show "shows_window (window_commit r f s) w \<and>
      (w \<in> set (ws_cohort s) \<union> set (ws_present s) \<longrightarrow> frozen (window_commit r f s) w)" by blast
  qed
qed

subsection \<open>Runs\<close>

datatype wop =
    Begin "addr option" | EndCohort u32 "nat option" | Present | TimerFires | AckConfigure addr
  | SetPosition addr i32 i32 | SetSize addr u32 u32 | SetStacked addr | SurfaceCommit int addr
  | Leave addr

fun wstep :: "wop \<Rightarrow> 'a wstate_scheme \<Rightarrow> 'a wstate_scheme" where
  "wstep (Begin mem) s = snd (swc_transaction_begin mem s)"
| "wstep (EndCohort ms done) s = swc_transaction_commit ms done s"
| "wstep Present s = swc_transaction_present s"
| "wstep TimerFires s = transaction_timeout s"
| "wstep (AckConfigure w) s = window_ack_configure w s"
| "wstep (SetPosition w x y) s = swc_window_set_position (Some w) x y s"
| "wstep (SetSize w a b) s = swc_window_set_size (Some w) a b s"
| "wstep (SetStacked w) s = swc_window_set_stacked w s"
| "wstep (SurfaceCommit r f) s = window_commit r f s"
| "wstep (Leave w) s = leave_transaction w s"

text \<open>The operation is on a window that exists, and the renderer succeeds.\<close>

fun allowed :: "'a wstate_scheme \<Rightarrow> wop \<Rightarrow> bool" where
  "allowed s (AckConfigure w) = live s w"
| "allowed s (SetPosition w x y) = live s w"
| "allowed s (SetSize w a b) = live s w"
| "allowed s (SetStacked w) = live s w"
| "allowed s (SurfaceCommit r f) = (0 \<le> r)"
| "allowed s (Leave w) = live s w"
| "allowed s op = True"

lemma wstep_ok: "cohort_ok s \<Longrightarrow> allowed s op \<Longrightarrow> cohort_ok (wstep op s)"
  by (cases op) (simp_all add: begin_ok commit_ok present_ok timeout_ok ack_ok position_ok size_ok
    stacked_ok surface_ok leave_ok)

text \<open>An operation that leaves the view of \<open>w\<close> as it is, and \<open>w\<close> in the cohort, open or parked.\<close>

definition parts :: "'a wstate_scheme \<Rightarrow> addr set" where
  "parts s = set (ws_cohort s) \<union> set (ws_present s)"

definition spares :: "addr \<Rightarrow> 'a wstate_scheme \<Rightarrow> 'a wstate_scheme \<Rightarrow> bool" where
  "spares w s s' \<longleftrightarrow>
     (w \<in> parts s \<longrightarrow> w \<in> parts s') \<and>
     live s' w = live s w \<and> w_view (win s' w) = w_view (win s w) \<and>
     c_heap s' (w_view (win s w)) = c_heap s (w_view (win s w))"

lemma spares_trans: "spares w s t \<Longrightarrow> spares w t u \<Longrightarrow> spares w s u"
  by (simp add: spares_def)

lemma spares_refl [simp]: "spares w s s"
  by (simp add: spares_def)

lemma same_views_spares: "same_views s s' \<Longrightarrow> parts s \<subseteq> parts s' \<Longrightarrow> live s w \<Longrightarrow> spares w s s'"
  by (auto simp: same_views_def spares_def)

lemma settled_parts:
  assumes "distinct (ws_cohort s)" shows "parts (settled r s) = parts s"
proof -
  define t where
    "t = s\<lparr>ws_trans := (case (ws_trans s, fst r) of (Some (a, _), Some t) \<Rightarrow> Some (a, t) | (old, _) \<Rightarrow> old)\<rparr>"
  have d: "distinct (ws_cohort t)" "parts t = parts s" using assms by (simp_all add: t_def parts_def)
  have "settled r s = (case snd r of None \<Rightarrow> t | Some b \<Rightarrow> transaction_done b t)"
    by (simp only: settled_def Let_def t_def)
  then show ?thesis
    using d by (cases "snd r") (auto simp: parts_def transaction_done_fields[OF d(1)])
qed

lemma settled_distinct_spares: "distinct (ws_cohort s) \<Longrightarrow> live s w \<Longrightarrow> spares w s (settled r s)"
  using same_views_spares[OF settled_same_views] settled_parts by blast

lemma isolates_spares: "isolates W s s' \<Longrightarrow> live s w \<Longrightarrow> w \<notin> W \<Longrightarrow> spares w s s'"
  by (simp add: spares_def parts_def isolatesD)

lemma calm_spares:
  assumes "calm W s s'" "cohort_ok s" "W \<subseteq> {w. live s w}" "live s w" "w \<notin> W" shows "spares w s s'"
  by (rule isolates_spares[OF calm_isolates[OF assms(1) cohort_okD(1)[OF assms(2)] assms(3)] assms(4,5)])

lemma settled_spares: "cohort_ok s \<Longrightarrow> live s w \<Longrightarrow> spares w s (settled r s)"
  using settled_distinct_spares cohort_okD(2) by blast

lemma hold_spares: "spares w s (hold_window u s)"
proof -
  have a: "acts (surf_tree (Suc (length (c_views s))) s (win_surface s u)) {} s (hold_window u s)"
    unfolding hold_window_def by (intro acts_hold acts_refl order_refl)
  show ?thesis using acts_wstate[OF a] actsD(10)[OF a] by (simp add: spares_def parts_def)
qed

lemma join_spares:
  assumes ok: "cohort_ok s" and u: "live s u" and w: "live s w" shows "spares w s (join_transaction u b s)"
proof (cases "ws_trans s = None \<or> w_trans (win s u) \<noteq> None")
  case True
  then show ?thesis by (cases "ws_trans s") (auto simp: join_transaction_def)
next
  case False
  then obtain a t where t: "ws_trans s = Some (a, t)" and ut: "w_trans (win s u) = None" by auto
  obtain t' added where add: "transaction_add (ws_mem s) (Some t) u (w_serial (win s u)) = (t', added)" by force
  define s1 where "s1 = (updw u (\<lambda>x. x\<lparr>w_trans := Some a\<rparr>) (s\<lparr>ws_trans := map_option (Pair a) t'\<rparr>))
      \<lparr>ws_cohort := u # ws_cohort s\<rparr>"
  have "same_views s s1" by (auto simp: same_views_def s1_def updw_def live_def win_def)
  moreover have "parts s \<subseteq> parts s1" by (auto simp: parts_def s1_def)
  ultimately have s1: "spares w s s1" using w by (rule same_views_spares)
  define s2 where "s2 = hold_window u s1"
  have s2: "spares w s s2" unfolding s2_def by (rule spares_trans[OF s1 hold_spares])
  have a2: "acts (surf_tree (Suc (length (c_views s1))) s1 (win_surface s1 u)) {} s1 s2"
    unfolding s2_def hold_window_def by (intro acts_hold acts_refl order_refl)
  have "u \<notin> set (ws_cohort s)" using cohort_okD(5)[OF ok u] ut by simp
  then have "distinct (ws_cohort s2)"
    using cohort_okD(2)[OF ok] by (simp add: acts_wstate[OF a2] s1_def)
  moreover have "live s2 w" using s2 w by (simp add: spares_def)
  ultimately have "spares w s2 (settled r s2)" for r
    using settled_distinct_spares by blast
  from spares_trans[OF s2 this] s2 have "spares w s (if b then s2 else settled r s2)" for r by simp
  moreover have "join_transaction u b s = (if \<not> added then s else if b then s2
      else settled (transaction_ack (the_trans (Some a) s2) u (w_serial (win s u))) s2)"
    using t ut add by (simp add: join_transaction_def Let_def s2_def s1_def)
  ultimately show ?thesis by simp
qed


lemma calm_updw_spares:
  assumes "\<And>x. w_view (f x) = w_view x" shows "spares w s (updw u f s)"
  using assms by (cases "ws_win s u") (auto simp: spares_def parts_def updw_def live_def win_def)

lemma calm_buffer: "calm W s s' \<Longrightarrow> v_buffer (cv s' u) = v_buffer (cv s u)"
  by (simp add: calmD)

lemma join_buffer:
  assumes "cohort_ok s" "live s u" "live s w"
  shows "v_buffer (cv (join_transaction u b s) (w_view (win s w))) = v_buffer (cv s (w_view (win s w)))"
  using join_spares[OF assms] by (simp add: spares_def cv_def)

lemma configure_heap: "c_heap (impl_configure w a b s) = c_heap s"
  by (simp add: impl_configure_def xdg_configure_def shell_configure_def xwl_configure_def send_configure_def
      emit_def Let_def split: shell.split)

lemma reconfigured_spares: "spares w s (reconfigured u a b s)"
proof -
  have c: "calm {u} s (reconfigured u a b s)" by (rule calm_reconfigured)
  have "c_heap (reconfigured u a b s) = c_heap s"
    by (simp add: reconfigured_def Let_def configure_heap)
  then show ?thesis by (simp add: spares_def parts_def calmD[OF c])
qed

lemma commit_held_spares:
  assumes "sf_held (c_surf s f)" shows "spares w s (window_commit r f s)"
proof -
  let ?t = "surface_apply_pending r f s"
  have n: "c_notes ?t = c_notes s"
    using assms by (auto simp: surface_apply_pending_def Let_def split: option.split)
  have a: "acts {f} (views_of s {f}) s ?t"
    by (intro acts_intros acts_refl) (auto simp: views_of_def)
  have "window_commit r f s = ?t" by (simp add: window_commit_def with_handlers_def Let_def n)
  then show ?thesis
    using apply_pending_held[OF assms] acts_wstate[OF a] by (simp add: spares_def parts_def)
qed

lemma leave_spares:
  assumes ok: "cohort_ok s" and u: "live s u" and w: "live s w" "w \<noteq> u"
  shows "spares w s (leave_transaction u s)"
proof -
  have un: "spares w s (unlink u t)" if "spares w s t" for t
    using that w(2) by (auto simp: spares_def parts_def unlink_def live_def win_def)
  show ?thesis
  proof (cases "w_trans (win s u)")
    case None
    with un[of s] show ?thesis by (simp add: leave_transaction_def)
  next
    case (Some a)
    define s1 where "s1 = unlink u (updw u (\<lambda>x. x\<lparr>w_trans := None\<rparr>) s)"
    have s1: "spares w s s1" unfolding s1_def by (intro un calm_updw_spares) simp
    have sv: "same_views s s1" by (auto simp: same_views_def s1_def unlink_def updw_def live_def win_def)
    note V = same_viewsD[OF sv]
    have l1: "linked s1" by (rule same_views_linked[OF sv cohort_okD(1)[OF ok]])
    have u1: "live s1 u" "live s1 w" using u w V by simp_all
    have sh: "shows_window s1 u" using cohort_okD(7)[OF ok u] V(8)[OF u] by simp
    have r: "\<And>v. 0 \<le> ws_renderer s1 v"
      using cohort_okD(8)[OF ok] by (simp add: s1_def unlink_def)
    note R = isolatesD[OF release_window_effect(1)[OF l1 u1(1) sh r]]
    define s2 where "s2 = release_window u s1"
    have s2: "spares w s1 s2"
      unfolding s2_def by (rule isolates_spares[OF release_window_effect(1)[OF l1 u1(1) sh r] u1(2)]) (use w in simp)
    have d: "distinct (ws_cohort s2)" "live s2 w"
      using cohort_okD(2)[OF ok] R(4,8) u1 by (simp_all add: s2_def s1_def unlink_def)
    have "leave_transaction u s = settled (transaction_remove (the_trans (Some a) s2) u) s2"
      using Some by (simp add: leave_transaction_def Let_def s2_def s1_def)
    with spares_trans[OF spares_trans[OF s1 s2] settled_distinct_spares[OF d]] show ?thesis by simp
  qed
qed

subsection \<open>The invariant holds of a desktop\<close>

lemma running_ok: "cohort_ok (running m sh gs)"
proof -
  let ?s = "running m sh gs"
  have mp: "map_of (map (\<lambda>(n, g). (n, window_at n (r_x g) (r_y g) (r_w g) (r_h g))) gs) u =
     map_option (\<lambda>g. window_at u (r_x g) (r_y g) (r_w g) (r_h g)) (map_of gs u)" for u
    by (induction gs) auto
  have h: "c_heap ?s u = map_option (\<lambda>g. window_at u (r_x g) (r_y g) (r_w g) (r_h g)) (map_of gs u)"
    "c_surf ?s u = (case map_of gs u of None \<Rightarrow> surface_new
           | Some g \<Rightarrow> surface_new\<lparr>sf_view := Some u, sf_buffer := Some (r_w g, r_h g)\<rparr>)"
    "ws_win ?s u = map_option (\<lambda>_. fresh_window sh u) (map_of gs u)" for u
    by (simp_all add: running_def Let_def desktop_def mp)
  have v: "map_of gs u = Some g \<Longrightarrow> cv ?s u = window_at u (r_x g) (r_y g) (r_w g) (r_h g)"
    "map_of gs u = Some g \<Longrightarrow> win ?s u = fresh_window sh u" for u g
    by (simp_all add: cv_def win_def h)
  have l: "live ?s u \<longleftrightarrow> (\<exists>g. map_of gs u = Some g)" for u by (auto simp: live_def h)
  have sf: "map_of gs u = Some g \<Longrightarrow> win_surface ?s u = u" for u g
    by (simp add: win_surface_def v fresh_window_def window_at_def initial_view_def)
  have "linked ?s"
    unfolding linked_def
    by (auto simp: l h v sf surface_new_def fresh_window_def window_at_def initial_view_def
        split: option.splits) (metis not_None_eq sf)
  moreover have "shows_window ?s u" if "live ?s u" for u
    using that by (auto simp: l shows_window_def sf h v fresh_window_def window_at_def surface_new_def)
  moreover have "w_trans (win ?s u) = None" if "live ?s u" for u
    using that by (auto simp: l v fresh_window_def)
  ultimately show ?thesis
    by (auto simp: cohort_ok_def barrier_ok_def running_def Let_def)
qed

subsection \<open>The cohort over a run\<close>

fun allowed_run :: "'a wstate_scheme \<Rightarrow> wop list \<Rightarrow> bool" where
  "allowed_run s [] = True"
| "allowed_run s (op # ops) = (allowed s op \<and> allowed_run (wstep op s) ops)"

text \<open>The operations that may put a window of a cohort on screen, and those that move it.\<close>

fun reveals :: "addr \<Rightarrow> wop \<Rightarrow> bool" where
  "reveals w (Begin mem) = True"
| "reveals w Present = True"
| "reveals w (Leave u) = (u = w)"
| "reveals w op = False"

fun moves :: "addr \<Rightarrow> wop \<Rightarrow> bool" where
  "moves w (SetPosition u x y) = (u = w)"
| "moves w (SetStacked u) = (u = w)"
| "moves w op = False"

lemma done_spares: "spares w s (s\<lparr>ws_done := d\<rparr>)"
  by (simp add: spares_def parts_def live_def win_def)

lemma step_spares:
  assumes ok: "cohort_ok s" and al: "allowed s op" and w: "live s w" "frozen s w"
    and op: "\<not> reveals w op" "\<not> moves w op"
  shows "spares w s (wstep op s)"
proof (cases op)
  case (EndCohort ms d)
  show ?thesis
  proof (cases "ws_trans s")
    case (Some at)
    let ?s = "s\<lparr>ws_done := d\<rparr>"
    have "live ?s w" using w by (simp add: live_def)
    moreover have "distinct (ws_cohort ?s)" using cohort_okD(2)[OF ok] by simp
    ultimately have "spares w ?s (settled r ?s)" for r by (intro settled_distinct_spares)
    then have "spares w s (settled r ?s)" for r by (rule spares_trans[OF done_spares])
    with Some show ?thesis by (simp add: EndCohort swc_transaction_commit_def Let_def split: prod.split)
  qed (simp add: EndCohort swc_transaction_commit_def)
next
  case TimerFires
  then show ?thesis
    using settled_spares[OF ok w(1)] by (auto simp: transaction_timeout_def split: option.split)
next
  case (AckConfigure u)
  let ?s = "updw u (\<lambda>x. x\<lparr>w_acknowledged := True\<rparr>) s"
  have c: "calm {u} s ?s" by (intro calm_intros) (auto simp: same_part_def)
  have "spares w s ?s" by (rule calm_updw_spares) simp
  moreover have "spares w ?s (settled r ?s)" for r
    using settled_spares[OF calm_ok[OF c ok]] w by simp
  ultimately have "spares w s ?s" "spares w s (settled r ?s)" for r
    using spares_trans by blast+
  then show ?thesis by (simp add: AckConfigure window_ack_configure_def Let_def)
next
  case (SetPosition u x y)
  let ?t = "updw u (\<lambda>z. z\<lparr>w_move_x := x, w_move_y := y, w_move_pending := True\<rparr>) s"
  have u: "live s u" "w \<noteq> u" using al op SetPosition by auto
  have c: "calm {u} s (updw u (\<lambda>z. z\<lparr>w_move_pending := False\<rparr>) s)" "calm {u} s ?t" "calm {u} s (flush u ?t)"
    by (intro calm_intros; simp add: same_part_def)+
  have sub: "{u} \<subseteq> {w. live s w}" using u by simp
  note sp = calm_spares[OF c(1) ok sub w(1)] calm_spares[OF c(2) ok sub w(1)] calm_spares[OF c(3) ok sub w(1)]
  have "spares w ?t (join_transaction u b ?t)" for b
    using u w by (intro join_spares calm_ok[OF c(2) ok]) simp_all
  then have "spares w s (join_transaction u b ?t)" for b
    using spares_trans[OF sp(2)] u(2) by blast
  with sp u(2) show ?thesis by (simp add: SetPosition swc_window_set_position_def Let_def)
next
  case (SetSize u a b)
  have u: "live s u" using al SetSize by simp
  have "spares w s (swc_window_set_size (Some u) a b s)"
  proof (cases rule: set_size_cases[of u a b s])
    case (2 c d t)
    have "cohort_ok t" "live t u" "live t w"
      using calm_ok[OF calm_reconfigured ok] calmD(12)[OF calm_reconfigured] u w unfolding 2(1) by blast+
    then have "spares w t (join_transaction u x t)" for x by (rule join_spares)
    then have "spares w s (join_transaction u x t)" "spares w s t" for x
      using spares_trans reconfigured_spares[of w s u c d] unfolding 2(1) by blast+
    then show ?thesis unfolding 2(2) by simp
  qed simp
  with SetSize show ?thesis by simp
next
  case (SetStacked u)
  have u: "live s u" "w \<noteq> u" using al op SetStacked by auto
  have "calm {u} s (swc_window_set_stacked u s)"
    by (auto simp: swc_window_set_stacked_def Let_def same_part_def intro!: calm_intros)
  from calm_spares[OF this ok _ w(1)] u SetStacked show ?thesis by simp
next
  case (SurfaceCommit r f)
  have all: "\<forall>w. live s w \<longrightarrow> shows_window s w" using cohort_okD(7)[OF ok] by blast
  show ?thesis
  proof (cases "win_surface s w = f")
    case True
    with w(2) commit_held_spares[of s f w r] SurfaceCommit show ?thesis by (simp add: frozen_def)
  next
    case False
    have "0 \<le> r" using al SurfaceCommit by simp
    from commit_effect(1)[OF cohort_okD(1)[OF ok] this all, of f] isolates_spares w(1) False SurfaceCommit
    show ?thesis by auto
  qed
next
  case (Leave u)
  with leave_spares[OF ok _ w(1)] al op show ?thesis by auto
qed (use op in simp_all)

lemma if_cases3:
  "(if P then a else if Q then f b else if R then c else d) = a \<or>
   (\<exists>x. (if P then a else if Q then f b else if R then c else d) = f x) \<or>
   (if P then a else if Q then f b else if R then c else d) = c \<or>
   (if P then a else if Q then f b else if R then c else d) = d"
  by auto

lemma step_buffer:
  assumes ok: "cohort_ok s" and al: "allowed s op" and w: "live s w" "frozen s w"
    and op: "\<not> reveals w op"
  shows "(w \<in> parts s \<longrightarrow> w \<in> parts (wstep op s)) \<and> live (wstep op s) w \<and>
    w_view (win (wstep op s) w) = w_view (win s w) \<and>
    v_buffer (cv (wstep op s) (w_view (win s w))) = v_buffer (cv s (w_view (win s w)))"
proof (cases "moves w op")
  case False
  with step_spares[OF ok al w op] w(1) show ?thesis by (simp add: spares_def cv_def)
next
  case True
  then consider (pos) x y where "op = SetPosition w x y" | (stk) "op = SetStacked w"
    by (cases op) auto
  then show ?thesis
  proof cases
    case pos
    let ?t = "updw w (\<lambda>z. z\<lparr>w_move_x := x, w_move_y := y, w_move_pending := True\<rparr>) s"
    have c: "calm {w} s (updw w (\<lambda>z. z\<lparr>w_move_pending := False\<rparr>) s)" "calm {w} s ?t" "calm {w} s (flush w ?t)"
      by (intro calm_intros; simp add: same_part_def)+
    have m: ?thesis if "wstep op s = t" "calm {w} s t" for t
      using w(1) unfolding that(1) by (simp add: calmD[OF that(2)] parts_def)
    have j: "spares w ?t (join_transaction w b ?t)" for b
      using w by (intro join_spares calm_ok[OF c(2) ok]) simp_all
    have "spares w s (join_transaction w b ?t)" for b
      by (rule spares_trans[OF calm_updw_spares j]) simp
    then have n: ?thesis if "wstep op s = join_transaction w b ?t" for b
      using w(1) unfolding that by (simp add: spares_def cv_def)
    have "wstep op s = updw w (\<lambda>z. z\<lparr>w_move_pending := False\<rparr>) s \<or>
      (\<exists>b. wstep op s = join_transaction w b ?t) \<or> wstep op s = flush w ?t \<or> wstep op s = ?t"
      unfolding pos wstep.simps swc_window_set_position_def option.case Let_def by (rule if_cases3)
    with m[OF _ c(1)] m[OF _ c(3)] m[OF _ c(2)] n show ?thesis by blast
  next
    case stk
    have c: "calm {w} s (swc_window_set_stacked w s)"
      by (auto simp: swc_window_set_stacked_def Let_def same_part_def intro!: calm_intros)
    show ?thesis using w(1) by (simp add: stk calmD[OF c] parts_def)
  qed
qed

lemma cohort_run_ok: "cohort_ok s \<Longrightarrow> allowed_run s ops \<Longrightarrow> cohort_ok (fold wstep ops s)"
  by (induction ops arbitrary: s) (simp_all add: wstep_ok)



text \<open>C22: presenting a completed cohort shows it as one: every window of it is released and shows
  its committed buffer, every window that acknowledged its configure is exactly where it was last
  asked to be, a window that did not answer stays where it was with its move still pending, and no
  other window's view changes. Nothing stays parked.\<close>

theorem cohort_lands_together:
  assumes "cohort_ok s" "ws_present_init s"
  shows "let s' = swc_transaction_present s in
    cohort_ok s' \<and> ws_present s' = [] \<and>
    (\<forall>w\<in>set (ws_present s). let x = win s w; v = w_view x in
       \<not> frozen s' w \<and> v_buffer (cv s' v) = sf_buffer (c_surf s (win_surface s w)) \<and>
       (\<not> ia_active (w_resize x) \<and> w_trans_acked x \<longrightarrow>
          place (cv s' v) = (if w_move_pending x then (w_move_x x, w_move_y x) else place (cv s v))) \<and>
       (\<not> ia_active (w_resize x) \<and> \<not> w_trans_acked x \<and> \<not> w_acknowledged x \<longrightarrow>
          place (cv s' v) = place (cv s v) \<and> w_move_pending (win s' w) = w_move_pending x)) \<and>
    (\<forall>w. live s w \<and> w \<notin> set (ws_present s) \<longrightarrow>
       c_heap s' (w_view (win s w)) = c_heap s (w_view (win s w)))"
proof -
  note P = present_cohort_effect[OF assms(1)]
  have e: "swc_transaction_present s = present_cohort s"
    using assms(2) by (simp add: swc_transaction_present_def)
  show ?thesis
    unfolding Let_def e
  proof (intro conjI ballI allI impI)
    fix w assume "w \<in> set (ws_present s)"
    note l = P(3)[OF this, unfolded landed_def Let_def]
    then show "\<not> frozen (present_cohort s) w"
      "v_buffer (cv (present_cohort s) (w_view (win s w))) = sf_buffer (c_surf s (win_surface s w))" by blast+
    assume "\<not> ia_active (w_resize (win s w)) \<and> w_trans_acked (win s w)"
    with l show "place (cv (present_cohort s) (w_view (win s w))) =
      (if w_move_pending (win s w) then (w_move_x (win s w), w_move_y (win s w))
       else place (cv s (w_view (win s w))))" by simp
  next
    fix w assume "w \<in> set (ws_present s)"
      "\<not> ia_active (w_resize (win s w)) \<and> \<not> w_trans_acked (win s w) \<and> \<not> w_acknowledged (win s w)"
    with P(3)[OF this(1), unfolded landed_def Let_def]
    show "place (cv (present_cohort s) (w_view (win s w))) = place (cv s (w_view (win s w)))"
      "w_move_pending (win (present_cohort s) w) = w_move_pending (win s w)" by simp_all
  next
    fix w assume "live s w \<and> w \<notin> set (ws_present s)"
    with P(4) show "c_heap (present_cohort s) (w_view (win s w)) = c_heap s (w_view (win s w))"
      by (simp add: untouched_def)
  qed (rule P(1,2))+
qed

text \<open>Two tiled windows side by side.\<close>

abbreviation (input) pair :: wstate where
  "pair \<equiv> running WINDOW_MODE_TILED Xdg
     [(7, \<lparr>r_x = 0, r_y = 0, r_w = 100, r_h = 100\<rparr>), (8, \<lparr>r_x = 100, r_y = 0, r_w = 100, r_h = 100\<rparr>)]"



theorem cohort_lands_together_witness:
  "let s = fold wstep [Begin (Some 100), SetPosition 7 300 0, SetPosition 8 50 0, EndCohort 1000 None] pair;
       s' = swc_transaction_present s
   in place (cv s' 7) = (300, 0) \<and> place (cv s' 8) = (50, 0)"
proof -
  let ?s = "fold wstep [Begin (Some 100), SetPosition 7 300 0, SetPosition 8 50 0, EndCohort 1000 None] pair"
  have al: "allowed_run pair [Begin (Some 100), SetPosition 7 300 0, SetPosition 8 50 0, EndCohort 1000 None]"
    unfolding live_def[abs_def] allowed_run.simps allowed.simps by code_simp
  have i: "ws_present_init ?s" by code_simp
  have w: "7 \<in> set (ws_present ?s)" "8 \<in> set (ws_present ?s)"
    "\<forall>w\<in>{7, 8}. w_view (win ?s w) = w \<and> \<not> ia_active (w_resize (win ?s w)) \<and> w_trans_acked (win ?s w) \<and>
       w_move_pending (win ?s w) \<and> w_move_y (win ?s w) = 0"
    "w_move_x (win ?s 7) = 300" "w_move_x (win ?s 8) = 50" by code_simp+
  obtain s where s: "?s = s" by simp
  note w = w[unfolded s]
  have A: "\<forall>w\<in>set (ws_present s). \<not> ia_active (w_resize (win s w)) \<and> w_trans_acked (win s w) \<longrightarrow>
      place (cv (swc_transaction_present s) (w_view (win s w))) =
      (if w_move_pending (win s w) then (w_move_x (win s w), w_move_y (win s w)) else place (cv s (w_view (win s w))))"
    using cohort_lands_together[OF cohort_run_ok[OF running_ok al] i] unfolding Let_def s by blast
  from bspec[OF A w(1)] bspec[OF A w(2)] w show ?thesis unfolding Let_def s by simp
qed

text \<open>C23: a window that is configured again while it is enrolled can never acknowledge: its serial
  is bumped, but the barrier keeps waiting for the old one, so the acknowledgement of the new
  configure is ignored, however often it comes, and the cohort can only time out.\<close>

theorem reconfigured_window_never_acks:
  assumes "cohort_ok s" "live s w" "ws_trans s = Some (a, t)" "w_trans (win s w) = Some a"
    and "outstanding t w = Some (w_serial (win s w))" "w_impl (win s w) = Xdg"
    and "swc_window_set_size (Some w) width height s \<noteq> s"
  shows "let s' = swc_window_set_size (Some w) width height s
    in ws_trans ((window_ack_configure w ^^ n) s') = Some (a, t) \<and>
       outstanding t w = Some (w_serial (win s w)) \<and>
       w_serial (win ((window_ack_configure w ^^ n) s') w) = w_serial (win s w) + 1"
proof -
  let ?inv = "\<lambda>u. live u w \<and> ws_trans u = Some (a, t) \<and> w_trans (win u w) = Some a \<and>
    w_serial (win u w) = w_serial (win s w) + 1"
  obtain p where p: "find_participant t w = Some p" "p_serial p = w_serial (win s w)" "\<not> p_acked p"
    using assms(5) by (auto simp: outstanding_def split: option.splits if_splits)
  have r: "?inv (reconfigured w c d s)" for c d
    using assms(2-4,6) calmD(7,12,14)[OF calm_reconfigured[of w s c d]]
    by (simp add: reconfigured_def Let_def impl_configure_def xdg_configure_def send_configure_def
        emit_def updw_def win_def live_def split: if_splits)
  have start: "?inv (swc_window_set_size (Some w) width height s)"
  proof (cases rule: set_size_cases[of w width height s])
    case (2 c d u)
    with r[of c d] show ?thesis by (simp add: join_transaction_def)
  qed (use assms(7) in simp)
  have keep: "?inv (window_ack_configure w u)" if "?inv u" for u
  proof -
    let ?u = "updw w (\<lambda>x. x\<lparr>w_acknowledged := True\<rparr>) u"
    have u: "?inv ?u" using that by (auto simp: updw_def win_def live_def)
    then have "window_ack_configure w u = settled (Some t, None) ?u"
      using p unfolding window_ack_configure_def Let_def
      by (simp add: the_trans_def transaction_ack_def del: win_updw)
    with u show ?thesis by (simp add: settled_def win_def live_def)
  qed
  have "?inv ((window_ack_configure w ^^ n) (swc_window_set_size (Some w) width height s))"
  proof (induction n)
    case (Suc n)
    from keep[OF Suc] show ?case by simp
  qed (use start in simp)
  with assms(5) show ?thesis by (simp add: Let_def)
qed

theorem reconfigured_window_never_acks_witness:
  "let s = fold wstep [Begin (Some 100), SetSize 7 50 100] pair
   in \<exists>t. ws_trans (window_ack_configure 7 (swc_window_set_size (Some 7) 60 100 s)) = Some (100, t) \<and>
          outstanding t 7 = Some 1"
proof -
  let ?s = "fold wstep [Begin (Some 100), SetSize 7 50 100] pair"
  have al: "allowed_run pair [Begin (Some 100), SetSize 7 50 100]"
    unfolding live_def[abs_def] allowed_run.simps allowed.simps by code_simp
  obtain t where t: "ws_trans ?s = Some (100, t)" "outstanding t 7 = Some 1"
  proof -
    have "map_option (\<lambda>(a, t). (a, outstanding t 7)) (ws_trans ?s) = Some (100, Some 1)" by code_simp
    with that show thesis by auto
  qed
  have w: "live ?s 7" unfolding live_def by code_simp
  have f: "w_trans (win ?s 7) = Some 100" "w_serial (win ?s 7) = 1" "w_impl (win ?s 7) = Xdg"
    "w_serial (win (swc_window_set_size (Some 7) 60 100 ?s) 7) = 2" by code_simp+
  then have ne: "swc_window_set_size (Some 7) 60 100 ?s \<noteq> ?s" by auto
  from t(2) f(2) have o: "outstanding t 7 = Some (w_serial (win ?s 7))" by simp
  from reconfigured_window_never_acks[OF cohort_run_ok[OF running_ok al] w t(1) f(1) o f(3) ne, of 1] t(2)
  show ?thesis unfolding Let_def by auto
qed

text \<open>a window that is moved while a committed cohort it is not part of still waits for its
  windows, is not moved at all: it cannot join, the move is left pending, and neither the end of
  the cohort nor its presentation applies it, although the window owes no configure.\<close>

theorem move_during_settling_not_applied:
  assumes "cohort_ok s" "live s w" "ws_trans s = Some (a, t)" "committed t" "timer_armed t"
    and "w_trans (win s w) = None" "\<not> w_pending (win s w)" "(x, y) \<noteq> place (cv s (w_view (win s w)))"
  shows "let s' = swc_transaction_present (transaction_timeout (swc_window_set_position (Some w) x y s))
    in ws_trans s' = None \<and> ws_present s' = [] \<and> w_move_pending (win s' w) \<and>
       c_heap s' (w_view (win s w)) = c_heap s (w_view (win s w))"
proof -
  define s1 where "s1 = updw w (\<lambda>z. z\<lparr>w_move_x := x, w_move_y := y, w_move_pending := True\<rparr>) s"
  have p: "swc_window_set_position (Some w) x y s = s1"
    using assms(2-4,6,8)
    by (auto simp: swc_window_set_position_def place_def s1_def Let_def join_transaction_def transaction_add_def)
  have c: "calm {w} s s1" unfolding s1_def by (intro calm_intros) (simp_all add: same_part_def)
  have ok1: "cohort_ok s1" by (rule calm_ok[OF c assms(1)])
  have s1: "live s1 w" "ws_trans s1 = Some (a, t)" "w_move_pending (win s1 w)" "w \<notin> parts s1"
    "c_heap s1 = c_heap s" "w_view (win s1 w) = w_view (win s w)"
    using assms(2,3,6) cohort_okD(5)[OF assms(1,2)] cohort_open(1)[OF assms(1,3)]
    by (auto simp: s1_def parts_def)
  note O = cohort_open[OF ok1 s1(2)]
  define s2 where "s2 = transaction_timeout s1"
  have ok2: "cohort_ok s2" unfolding s2_def by (rule timeout_ok[OF ok1])
  define s1' where "s1' = s1\<lparr>ws_trans := Some (a, fst (Transaction.handle_timeout t))\<rparr>"
  have d: "distinct (ws_cohort s1')" using cohort_okD(2)[OF ok1] by (simp add: s1'_def)
  have s2: "s2 = transaction_done True s1'"
    using s1(2) assms(5) O(3,4)
    by (simp add: s2_def transaction_timeout_def settled_def Let_def handle_timeout_def finish_def s1'_def
        split: option.split)
  note F = transaction_done_fields[OF d, where b = True, folded s2]
  have lw: "live s1' w" "win s1' w = win s1 w" using s1(1) by (simp_all add: s1'_def live_def win_def)
  have f2: "live s2 w" "w_view (win s2 w) = w_view (win s w)" "ws_trans s2 = None" "w \<notin> set (ws_present s2)"
    "c_heap s2 = c_heap s"
    using F(1,2,5,6,9) lw s1 by (simp_all add: s1'_def parts_def)
  have mp: "w_move_pending (win s2 w)"
    using s1(3,4) lw unfolding s2 transaction_done_form[OF d]
    by (auto simp: win_def s1'_def parts_def parked_def)
  have i: "ws_present_init s2"
    using F(7) ok1 s1(2) by (simp add: s1'_def cohort_ok_def)
  note P = present_cohort_effect[OF ok2]
  have u: "untouched s2 (present_cohort s2) w" by (rule P(4)[OF f2(1,4)])
  show ?thesis
    unfolding Let_def p s2_def[symmetric] swc_transaction_present_def
    using i P(2,6) u f2 mp by (simp add: untouched_def)
qed

theorem move_during_settling_not_applied_witness:
  "let s = fold wstep [Begin (Some 100), SetSize 7 50 100, EndCohort 1000 None] pair
   in place (cv (swc_transaction_present (transaction_timeout (swc_window_set_position (Some 8) 50 0 s))) 8)
        = (100, 0)"
proof -
  let ?s = "fold wstep [Begin (Some 100), SetSize 7 50 100, EndCohort 1000 None] pair"
  have al: "allowed_run pair [Begin (Some 100), SetSize 7 50 100, EndCohort 1000 None]"
    unfolding live_def[abs_def] allowed_run.simps allowed.simps by code_simp
  obtain t where t: "ws_trans ?s = Some (100, t)" "committed t" "timer_armed t"
  proof -
    have "map_option (\<lambda>(a, t). (a, committed t, timer_armed t)) (ws_trans ?s) = Some (100, True, True)" by code_simp
    with that show thesis by auto
  qed
  have w: "live ?s 8" unfolding live_def by code_simp
  have f: "w_trans (win ?s 8) = None" "\<not> w_pending (win ?s 8)" "w_view (win ?s 8) = 8"
    "place (cv ?s 8) = (100, 0)" by code_simp+
  then have ne: "(50, 0) \<noteq> place (cv ?s (w_view (win ?s 8)))" by simp
  from move_during_settling_not_applied[OF cohort_run_ok[OF running_ok al] w t f(1,2) ne] f(3,4)
  show ?thesis unfolding Let_def by (simp add: cv_def)
qed

end
