(* ===== verification/Interactive.thy ===== *)
theory Interactive
  imports Window Frames
begin

text \<open>
  The rest of \<open>libswc/window.c\<close>: focus and modes, interactive moves and resizes through handlers
  hooked into the pointer (\<open>libswc/pointer.c\<close>), and the life of a window, with the requests of
  \<open>xdg_toplevel\<close> (\<open>libswc/xdg_shell.c\<close>) that reach it.

  A call of the window manager's handler is recorded, not run. An access to a freed window and a
  null dereference are faults; the recursion of \<open>end_interaction\<close> through the chain of original
  handlers has fuel, and one call more than there are linked handlers has met a handler twice.
\<close>

subsection \<open>Interactions\<close>

fun the_interaction :: "hid \<Rightarrow> 'a wstate_scheme \<Rightarrow> interaction option" where
  "the_interaction (HMove w) s = map_option w_move (ws_win s w)"
| "the_interaction (HResize w) s = map_option w_resize (ws_win s w)"
| "the_interaction (HOther k) s = None"

fun set_interaction :: "hid \<Rightarrow> (interaction \<Rightarrow> interaction) \<Rightarrow> 'a wstate_scheme \<Rightarrow> 'a wstate_scheme" where
  "set_interaction (HMove w) f s = updw w (\<lambda>x. x\<lparr>w_move := f (w_move x)\<rparr>) s"
| "set_interaction (HResize w) f s = updw w (\<lambda>x. x\<lparr>w_resize := f (w_resize x)\<rparr>) s"
| "set_interaction (HOther k) f s = s"

text \<open>\<open>pointer_get_button\<close>: the first pressed button with the serial, by its index.\<close>

fun button_index :: "u32 \<Rightarrow> nat \<Rightarrow> button list \<Rightarrow> nat option" where
  "button_index serial i [] = None"
| "button_index serial i (b # bs) = (if bt_serial b = serial then Some i else button_index serial (Suc i) bs)"

definition pointer_get_button :: "u32 \<Rightarrow> 'a wstate_scheme \<Rightarrow> nat option" where
  "pointer_get_button serial s = button_index serial 0 (ws_buttons s)"

definition call_pointer :: "nat \<Rightarrow> nat \<Rightarrow> 'a wstate_scheme \<Rightarrow> 'a wstate_scheme" where
  "call_pointer k b s = s\<lparr>ws_ptr_calls := ws_ptr_calls s @ [(k, bt_value (ws_buttons s ! b))]\<rparr>"

definition begin_interaction :: "hid \<Rightarrow> nat option \<Rightarrow> 'a wstate_scheme \<Rightarrow> 'a wstate_scheme" where
  "begin_interaction h button s =
     (let s = (case button of
                 Some b \<Rightarrow>
                   let bt = ws_buttons s ! b;
                       s = set_interaction h (\<lambda>ia. ia\<lparr>ia_serial := bt_serial bt, ia_original := bt_handler bt\<rparr>) s
                   in s\<lparr>ws_buttons := (ws_buttons s)[b := bt\<lparr>bt_handler := Some h\<rparr>]\<rparr>
               | None \<Rightarrow> set_interaction h (\<lambda>ia. ia\<lparr>ia_original := None\<rparr>) s);
          s = set_interaction h (\<lambda>ia. ia\<lparr>ia_active := True\<rparr>) s
      in s\<lparr>ws_handlers := h # ws_handlers s\<rparr>)"

definition remove_interaction :: "hid \<Rightarrow> 'a wstate_scheme \<Rightarrow> 'a wstate_scheme" where
  "remove_interaction h s =
     (let s = set_interaction h (\<lambda>ia. ia\<lparr>ia_active := False\<rparr>) s
      in s\<lparr>ws_handlers := remove1 h (ws_handlers s)\<rparr>)"

text \<open>\<open>handle_button\<close> of the original handler, when that handler is the one of an interaction, is
  \<open>end_interaction\<close> again.\<close>

fun end_interaction :: "nat \<Rightarrow> hid \<Rightarrow> nat option \<Rightarrow> 'a wstate_scheme \<Rightarrow> 'a wstate_scheme result" where
  "end_interaction 0 h button s = Inl OutOfFuel"
| "end_interaction (Suc n) h button s =
     (case the_interaction h s of
        None \<Rightarrow> Inl UseAfterFree
      | Some ia \<Rightarrow>
          if \<not> ia_active ia then Inr s
          else
            case ia_original ia of
              None \<Rightarrow> Inr (remove_interaction h s)
            | Some orig \<Rightarrow>
                case (case button of Some b \<Rightarrow> Some b | None \<Rightarrow> pointer_get_button (ia_serial ia) s) of
                  None \<Rightarrow> Inr (remove_interaction h s)
                | Some b \<Rightarrow>
                    case orig of
                      HOther k \<Rightarrow> Inr (remove_interaction h (call_pointer k b s))
                    | _ \<Rightarrow>
                        case the_interaction orig s of
                          None \<Rightarrow> Inl UseAfterFree
                        | Some oia \<Rightarrow>
                            if ia_original oia = None then Inr (remove_interaction h s)
                            else andThen (end_interaction n orig (Some b) s)
                                   (\<lambda>s. Inr (remove_interaction h s)))"

definition window_handle_button ::
  "nat \<Rightarrow> hid \<Rightarrow> nat \<Rightarrow> bool \<Rightarrow> 'a wstate_scheme \<Rightarrow> (bool \<times> 'a wstate_scheme) result" where
  "window_handle_button n h b released s =
     (case the_interaction h s of
        None \<Rightarrow> Inl UseAfterFree
      | Some ia \<Rightarrow>
          if \<not> released \<or> ia_original ia = None then Inr (False, s)
          else andThen (end_interaction n h (Some b) s) (\<lambda>s. Inr (True, s)))"

definition handler_fuel :: "'a wstate_scheme \<Rightarrow> nat" where
  "handler_fuel s = Suc (length (ws_handlers s))"

text \<open>\<open>wl_fixed_to_int\<close> divides by 256, towards zero.\<close>

definition fixed_to_int :: "i32 \<Rightarrow> i32" where
  "fixed_to_int f = word_of_int (if sint f < 0 then - (- sint f div 256) else sint f div 256)"

definition window_begin_move :: "addr \<Rightarrow> nat option \<Rightarrow> 'a wstate_scheme \<Rightarrow> 'a wstate_scheme" where
  "window_begin_move w button s =
     (let s = (if c_mode s w \<noteq> WINDOW_MODE_STACKED then call_handler w HMoveRequest s else s)
      in if c_mode s w \<noteq> WINDOW_MODE_STACKED \<or> ia_active (w_move (win s w)) then s
         else
           let g = geom s w; px = fixed_to_int (ws_px s); py = fixed_to_int (ws_py s);
               s = begin_interaction (HMove w) button s
           in updw w (\<lambda>x. x\<lparr>w_move_last := 0, w_move_off_x := r_x g - px, w_move_off_y := r_y g - py\<rparr>) s)"

text \<open>Comparing a coordinate with \<open>geometry->x + geometry->width / 2\<close> is unsigned, since the
  width is.\<close>

definition window_begin_resize :: "addr \<Rightarrow> u32 \<Rightarrow> nat option \<Rightarrow> 'a wstate_scheme \<Rightarrow> 'a wstate_scheme" where
  "window_begin_resize w edges button s =
     (let s = (if c_mode s w \<noteq> WINDOW_MODE_STACKED then call_handler w HResizeRequest s else s)
      in if c_mode s w \<noteq> WINDOW_MODE_STACKED \<or> ia_active (w_resize (win s w)) then s
         else
           let g = geom s w; px = fixed_to_int (ws_px s); py = fixed_to_int (ws_py s);
               s = begin_interaction (HResize w) button s;
               edges = (if edges = 0
                        then (if px < r_x g + r_w g div 2 then EDGE_LEFT else EDGE_RIGHT) OR
                             (if py < r_y g + r_h g div 2 then EDGE_TOP else EDGE_BOTTOM)
                        else edges)
           in updw w (\<lambda>x. x\<lparr>w_resize_last := 0,
                w_resize_off_x := r_x g - px + (if edges AND EDGE_RIGHT \<noteq> 0 then r_w g else 0),
                w_resize_off_y := r_y g - py + (if edges AND EDGE_BOTTOM \<noteq> 0 then r_h g else 0),
                w_edges := edges\<rparr>) s)"

definition swc_window_begin_move :: "addr \<Rightarrow> 'a wstate_scheme \<Rightarrow> 'a wstate_scheme" where
  "swc_window_begin_move w s = window_begin_move w None s"

definition swc_window_end_move :: "addr \<Rightarrow> 'a wstate_scheme \<Rightarrow> 'a wstate_scheme result" where
  "swc_window_end_move w s = end_interaction (handler_fuel s) (HMove w) None s"

definition swc_window_begin_resize :: "addr \<Rightarrow> u32 \<Rightarrow> 'a wstate_scheme \<Rightarrow> 'a wstate_scheme" where
  "swc_window_begin_resize w edges s = window_begin_resize w edges None s"

definition swc_window_end_resize :: "addr \<Rightarrow> 'a wstate_scheme \<Rightarrow> 'a wstate_scheme result" where
  "swc_window_end_resize w s = end_interaction (handler_fuel s) (HResize w) None s"

definition move_motion :: "addr \<Rightarrow> u32 \<Rightarrow> i32 \<Rightarrow> i32 \<Rightarrow> 'a wstate_scheme \<Rightarrow> bool \<times> 'a wstate_scheme" where
  "move_motion w time fx fy s =
     (let x = win s w; (skip, last_time) = should_throttle_motion (w_throttle x) (w_move_last x) time;
          s = updw w (\<lambda>x. x\<lparr>w_move_last := last_time\<rparr>) s
      in if skip then (True, s)
         else (True, view_move (w_view x) (fixed_to_int fx + w_move_off_x x) (fixed_to_int fy + w_move_off_y x) s))"

definition resize_motion :: "addr \<Rightarrow> u32 \<Rightarrow> i32 \<Rightarrow> i32 \<Rightarrow> 'a wstate_scheme \<Rightarrow> bool \<times> 'a wstate_scheme" where
  "resize_motion w time fx fy s =
     (let x = win s w; g = geom s w;
          (skip, last_time) = should_throttle_motion (w_throttle x) (w_resize_last x) time;
          s = updw w (\<lambda>x. x\<lparr>w_resize_last := last_time\<rparr>) s
      in if skip then (True, s)
         else
           let dx = fixed_to_int fx + w_resize_off_x x - r_x g;
               dy = fixed_to_int fy + w_resize_off_y x - r_y g;
               width = (if w_edges x AND EDGE_LEFT \<noteq> 0 then r_w g - dx
                        else if w_edges x AND EDGE_RIGHT \<noteq> 0 then dx else r_w g);
               height = (if w_edges x AND EDGE_TOP \<noteq> 0 then r_h g - dy
                         else if w_edges x AND EDGE_BOTTOM \<noteq> 0 then dy else r_h g);
               (width, height) = clamp_window_size x width height
           in (True, impl_configure w width height s))"

subsection \<open>The pointer\<close>

text \<open>A handler in the list, called for a press, a motion or a frame. \<open>takes k\<close> tells whether handler
  \<open>k\<close> of the compositor consumes the event.\<close>

fun dispatch_press :: "hid list \<Rightarrow> nat \<Rightarrow> (nat \<Rightarrow> bool) \<Rightarrow> 'a wstate_scheme \<Rightarrow>
    (hid option \<times> 'a wstate_scheme) result" where
  "dispatch_press [] b takes s = Inr (None, s)"
| "dispatch_press (h # hs) b takes s =
     (case h of
        HOther k \<Rightarrow>
          let s = call_pointer k b s in if takes k then Inr (Some h, s) else dispatch_press hs b takes s
      | _ \<Rightarrow> (case the_interaction h s of
                None \<Rightarrow> Inl UseAfterFree
              | Some _ \<Rightarrow> dispatch_press hs b takes s))"

fun dispatch_motion :: "hid list \<Rightarrow> u32 \<Rightarrow> (nat \<Rightarrow> bool) \<Rightarrow> 'a wstate_scheme \<Rightarrow> 'a wstate_scheme result"
where
  "dispatch_motion [] time takes s = Inr s"
| "dispatch_motion (h # hs) time takes s =
     (case h of
        HOther k \<Rightarrow> if takes k then Inr s else dispatch_motion hs time takes s
      | HMove w \<Rightarrow>
          (case ws_win s w of None \<Rightarrow> Inl UseAfterFree
           | Some _ \<Rightarrow> Inr (snd (move_motion w time (ws_px s) (ws_py s) s)))
      | HResize w \<Rightarrow>
          (case ws_win s w of None \<Rightarrow> Inl UseAfterFree
           | Some _ \<Rightarrow> Inr (snd (resize_motion w time (ws_px s) (ws_py s) s))))"

definition drop_nth :: "nat \<Rightarrow> 'b list \<Rightarrow> 'b list" where
  "drop_nth i xs = take i xs @ drop (Suc i) xs"

fun value_index :: "u32 \<Rightarrow> nat \<Rightarrow> button list \<Rightarrow> nat option" where
  "value_index v i [] = None"
| "value_index v i (b # bs) = (if bt_value b = v then Some i else value_index v (Suc i) bs)"

definition pointer_handle_button ::
  "(nat \<Rightarrow> bool) \<Rightarrow> u32 \<Rightarrow> bool \<Rightarrow> 'a wstate_scheme \<Rightarrow> 'a wstate_scheme result" where
  "pointer_handle_button takes v released s =
     (let serial = ws_next_serial s; s = s\<lparr>ws_next_serial := serial + 1\<rparr>
      in if released then
           case value_index v 0 (ws_buttons s) of
             None \<Rightarrow> Inr s
           | Some i \<Rightarrow>
               let b = ws_buttons s ! i in
               andThen
                 (case bt_handler b of
                    None \<Rightarrow> Inr s
                  | Some h \<Rightarrow>
                      let s = s\<lparr>ws_buttons := (ws_buttons s)[i := b\<lparr>bt_serial := serial\<rparr>]\<rparr>
                      in case h of
                           HOther k \<Rightarrow> Inr (call_pointer k i s)
                         | _ \<Rightarrow> andThen (window_handle_button (handler_fuel s) h i True s) (\<lambda>r. Inr (snd r)))
                 (\<lambda>s. Inr (s\<lparr>ws_buttons := drop_nth i (ws_buttons s)\<rparr>))
         else if \<not> ws_mem s then Inr s
         else
           let i = length (ws_buttons s);
               s = s\<lparr>ws_buttons := ws_buttons s @ [\<lparr>bt_value = v, bt_serial = serial, bt_handler = None\<rparr>]\<rparr>
           in andThen (dispatch_press (ws_handlers s) i takes s)
                (\<lambda>(h, s). Inr (case h of
                   None \<Rightarrow> s
                 | Some _ \<Rightarrow> s\<lparr>ws_buttons := (ws_buttons s)[i := (ws_buttons s ! i)\<lparr>bt_handler := h\<rparr>]\<rparr>)))"

text \<open>\<open>x\<close> and \<open>y\<close> are the position \<open>clip_position\<close> arrives at.\<close>

definition pointer_handle_absolute_motion ::
  "(nat \<Rightarrow> bool) \<Rightarrow> u32 \<Rightarrow> i32 \<Rightarrow> i32 \<Rightarrow> 'a wstate_scheme \<Rightarrow> 'a wstate_scheme result" where
  "pointer_handle_absolute_motion takes time x y s =
     (let s = s\<lparr>ws_px := x, ws_py := y\<rparr> in dispatch_motion (ws_handlers s) time takes s)"

subsection \<open>Focus and modes\<close>

definition handle_window_enter :: "addr option \<Rightarrow> addr option \<Rightarrow> 'a wstate_scheme \<Rightarrow> 'a wstate_scheme" where
  "handle_window_enter old new s =
     (let win_of = (\<lambda>v. case v of None \<Rightarrow> None | Some v \<Rightarrow> v_window (cv s v));
          s = (case win_of old of None \<Rightarrow> s | Some w \<Rightarrow> call_handler w HLeft s)
      in case win_of new of None \<Rightarrow> s | Some w \<Rightarrow> call_handler w HEntered s)"

definition swc_window_close :: "addr \<Rightarrow> 'a wstate_scheme \<Rightarrow> 'a wstate_scheme" where
  "swc_window_close w s = impl_close w s"

definition swc_window_show :: "addr \<Rightarrow> 'a wstate_scheme \<Rightarrow> 'a wstate_scheme option" where
  "swc_window_show w s = compositor_view_show (w_view (win s w)) s"

definition swc_window_hide :: "addr \<Rightarrow> 'a wstate_scheme \<Rightarrow> 'a wstate_scheme option" where
  "swc_window_hide w s = compositor_view_hide (w_view (win s w)) s"

text \<open>\<open>keyboard_set_focus\<close> stores the view; what it sends to clients is not modelled here.\<close>

definition swc_window_focus :: "addr option \<Rightarrow> 'a wstate_scheme \<Rightarrow> 'a wstate_scheme" where
  "swc_window_focus base s =
     (let new = map_option (\<lambda>w. w_view (win s w)) base; old = ws_focus s
      in if new = old then s
         else
           let s = (case base of None \<Rightarrow> s | Some w \<Rightarrow> impl_focus w s);
               s = (case old of
                      None \<Rightarrow> s
                    | Some v \<Rightarrow> (case v_window (cv s v) of None \<Rightarrow> s | Some w \<Rightarrow> impl_unfocus w s))
           in s\<lparr>ws_focus := new\<rparr>)"

definition swc_window_set_tiled :: "addr \<Rightarrow> 'a wstate_scheme \<Rightarrow> 'a wstate_scheme result" where
  "swc_window_set_tiled w s =
     andThen (end_interaction (handler_fuel s) (HMove w) None s) (\<lambda>s.
     andThen (end_interaction (handler_fuel s) (HResize w) None s) (\<lambda>s.
       Inr (set_window_mode w WINDOW_MODE_TILED (impl_set_mode w WINDOW_MODE_TILED s))))"

text \<open>\<open>screen\<close> is the usable geometry of the screen to fill.\<close>

definition swc_window_set_fullscreen :: "addr option \<Rightarrow> rect option \<Rightarrow> 'a wstate_scheme \<Rightarrow> 'a wstate_scheme"
where
  "swc_window_set_fullscreen base screen s =
     (case base of
        None \<Rightarrow> s
      | Some w \<Rightarrow>
          let g = geom s w
          in if c_mode s w \<noteq> WINDOW_MODE_FULLSCREEN then
               (case screen of
                  None \<Rightarrow> s
                | Some usable \<Rightarrow>
                    let s = updw w (\<lambda>x. x\<lparr>w_prev_geom := g, w_prev_mode := c_mode s w\<rparr>) s;
                        s = swc_window_set_geometry (Some w) usable s;
                        s = impl_set_mode w WINDOW_MODE_FULLSCREEN s
                    in compositor_damage_all (set_window_mode w WINDOW_MODE_FULLSCREEN s))
             else
               let s = swc_window_set_geometry (Some w) (w_prev_geom (win s w)) s
               in compositor_damage_all (set_window_mode w (w_prev_mode (win s w)) s))"

definition swc_window_set_clip_box :: "addr option \<Rightarrow> i32 \<Rightarrow> i32 \<Rightarrow> u32 \<Rightarrow> u32 \<Rightarrow> 'a wstate_scheme \<Rightarrow> 'a wstate_scheme"
where
  "swc_window_set_clip_box base x y width height s =
     (case base of None \<Rightarrow> s | Some w \<Rightarrow> compositor_view_set_clip_box (w_view (win s w)) x y width height s)"

definition swc_window_set_content_clip_box ::
  "addr option \<Rightarrow> i32 \<Rightarrow> i32 \<Rightarrow> u32 \<Rightarrow> u32 \<Rightarrow> 'a wstate_scheme \<Rightarrow> 'a wstate_scheme" where
  "swc_window_set_content_clip_box base x y width height s =
     (case base of None \<Rightarrow> s
      | Some w \<Rightarrow> compositor_view_set_content_clip_box (w_view (win s w)) x y width height s)"

definition swc_window_set_border :: "addr \<Rightarrow> u32 \<Rightarrow> u32 \<Rightarrow> u32 \<Rightarrow> u32 \<Rightarrow> 'a wstate_scheme \<Rightarrow> 'a wstate_scheme" where
  "swc_window_set_border w inner_color inner_width outer_color outer_width s =
     (let v = w_view (win s w); s = compositor_view_set_border_color v outer_color inner_color s
      in compositor_view_set_border_width v outer_width inner_width s)"

definition swc_window_set_handler :: "addr \<Rightarrow> (hfun \<Rightarrow> bool) \<Rightarrow> 'a wstate_scheme \<Rightarrow> 'a wstate_scheme" where
  "swc_window_set_handler w handler s = updw w (\<lambda>x. x\<lparr>w_handler := handler\<rparr>) s"

subsection \<open>The life of a window\<close>

text \<open>\<open>old\<close> is the uninitialized memory of the window, \<open>mem\<close> the address of a new view.\<close>

definition window_initialize ::
  "addr \<Rightarrow> window \<Rightarrow> shell \<Rightarrow> addr \<Rightarrow> addr option \<Rightarrow> 'a wstate_scheme \<Rightarrow> bool \<times> 'a wstate_scheme" where
  "window_initialize w old impl surface mem s =
     (let (view, s) =
            (case sf_view (c_surf s surface) of
               Some v \<Rightarrow> (if v_window (cv s v) \<noteq> None then None else Some v, s)
             | None \<Rightarrow> compositor_create_view (ws_renderer s (the mem)) mem surface s)
      in case view of
           None \<Rightarrow> (False, s)
         | Some v \<Rightarrow>
             let x = old\<lparr>w_title := None, w_app_id := None, w_parent := None, w_impl := impl,
                   w_handler := null_handler, w_view := v, w_throttle := 16, w_min_w := 0, w_min_h := 0,
                   w_max_w := 0, w_max_h := 0, w_managed := False, w_move_pending := False,
                   w_move_last := 0, w_move := (w_move old)\<lparr>ia_active := False\<rparr>, w_pending := False,
                   w_acknowledged := False, w_conf_w := 0, w_conf_h := 0, w_serial := 0, w_trans := None,
                   w_resize := (w_resize old)\<lparr>ia_active := False\<rparr>, w_resize_last := 0\<rparr>;
                 s = s\<lparr>ws_win := (ws_win s)(w \<mapsto> x)\<rparr>;
                 s = upd v (\<lambda>y. y\<lparr>v_window := Some w\<rparr>) s
             in (True, set_window_mode w WINDOW_MODE_STACKED s))"

definition window_manage :: "addr \<Rightarrow> 'a wstate_scheme \<Rightarrow> 'a wstate_scheme" where
  "window_manage w s =
     (if w_managed (win s w) then s
      else updw w (\<lambda>x. x\<lparr>w_managed := True\<rparr>) (emit w NewWindow s))"

definition window_unmanage :: "addr \<Rightarrow> 'a wstate_scheme \<Rightarrow> 'a wstate_scheme" where
  "window_unmanage w s =
     (if \<not> w_managed (win s w) then s
      else updw w (\<lambda>x. x\<lparr>w_handler := null_handler, w_managed := False\<rparr>) (call_handler w HDestroy s))"

definition window_finalize :: "addr \<Rightarrow> 'a wstate_scheme \<Rightarrow> 'a wstate_scheme option" where
  "window_finalize w s =
     (let s = leave_transaction w s;
          s = window_unmanage w s
      in case compositor_view_destroy (ws_renderer s (w_view (win s w))) (w_view (win s w)) s of
           None \<Rightarrow> None
         | Some s \<Rightarrow> Some (updw w (\<lambda>x. x\<lparr>w_title := None, w_app_id := None\<rparr>) s))"

definition window_request_maximize :: "addr \<Rightarrow> 'a wstate_scheme \<Rightarrow> 'a wstate_scheme" where
  "window_request_maximize w s = call_handler w HMaximize s"

definition window_request_unmaximize :: "addr \<Rightarrow> 'a wstate_scheme \<Rightarrow> 'a wstate_scheme" where
  "window_request_unmaximize w s = call_handler w HUnmaximize s"

definition window_request_minimize :: "addr \<Rightarrow> 'a wstate_scheme \<Rightarrow> 'a wstate_scheme" where
  "window_request_minimize w s = call_handler w HMinimize s"

definition window_request_window_menu :: "addr \<Rightarrow> i32 \<Rightarrow> i32 \<Rightarrow> 'a wstate_scheme \<Rightarrow> 'a wstate_scheme" where
  "window_request_window_menu w x y s =
     (if w_handler (win s w) HWindowMenu then emit w (WindowMenu x y) s else s)"

text \<open>\<open>strndup\<close> of at most \<open>length\<close> characters; -1 as a \<open>size_t\<close> is no limit.\<close>

definition window_set_title :: "addr \<Rightarrow> string \<Rightarrow> nat option \<Rightarrow> 'a wstate_scheme \<Rightarrow> 'a wstate_scheme" where
  "window_set_title w title len s =
     (let t = (case len of None \<Rightarrow> title | Some n \<Rightarrow> take n title);
          s = updw w (\<lambda>x. x\<lparr>w_title := (if ws_mem s then Some t else None)\<rparr>) s
      in call_handler w HTitle s)"

definition window_set_app_id :: "addr \<Rightarrow> string \<Rightarrow> 'a wstate_scheme \<Rightarrow> 'a wstate_scheme" where
  "window_set_app_id w app_id s =
     (let s = updw w (\<lambda>x. x\<lparr>w_app_id := (if ws_mem s then Some app_id else None)\<rparr>) s
      in call_handler w HAppId s)"

text \<open>\<open>base\<close> is the first member of \<open>struct window\<close>: \<open>&parent->base\<close> of a null pointer is null.\<close>

definition window_set_parent :: "addr \<Rightarrow> addr option \<Rightarrow> 'a wstate_scheme \<Rightarrow> 'a wstate_scheme result" where
  "window_set_parent w parent s =
     (if w_parent (win s w) = parent then Inr s
      else case parent of
             None \<Rightarrow> Inl NullDereference
           | Some p \<Rightarrow>
               andThen (fuelled (compositor_view_set_parent (w_view (win s w)) (Some (w_view (win s p))) s))
                 (\<lambda>s. Inr (call_handler w HParent (updw w (\<lambda>x. x\<lparr>w_parent := Some p\<rparr>) s))))"

subsection \<open>Pressing, moving, releasing\<close>

declare the_interaction.simps [simp del]

lemma the_interaction_live:
  "live s w \<Longrightarrow> the_interaction (HMove w) s = Some (w_move (win s w))"
  "live s w \<Longrightarrow> the_interaction (HResize w) s = Some (w_resize (win s w))"
  by (auto simp: the_interaction.simps live_def win_def)

text \<open>A desktop where no interaction is under way: every handler is one of the compositor.\<close>

definition idle_pointer :: "'a wstate_scheme \<Rightarrow> bool" where
  "idle_pointer s \<longleftrightarrow> (\<forall>h\<in>set (ws_handlers s). \<exists>k. h = HOther k)"

lemma dispatch_press_idle:
  assumes "\<forall>h\<in>set hs. \<exists>k. h = HOther k"
  shows "\<exists>cs. dispatch_press hs b takes s =
    Inr (List.find (\<lambda>h. case h of HOther k \<Rightarrow> takes k | _ \<Rightarrow> False) hs, s\<lparr>ws_ptr_calls := ws_ptr_calls s @ cs\<rparr>)"
  using assms
proof (induction hs arbitrary: s)
  case Nil
  show ?case by (intro exI[of _ "[]"]) simp
next
  case (Cons h hs)
  then obtain k where h: "h = HOther k" by auto
  let ?s = "call_pointer k b s"
  obtain cs where cs: "dispatch_press hs b takes ?s =
    Inr (List.find (\<lambda>h. case h of HOther k \<Rightarrow> takes k | _ \<Rightarrow> False) hs, ?s\<lparr>ws_ptr_calls := ws_ptr_calls ?s @ cs\<rparr>)"
    using Cons.IH[of ?s] Cons.prems by auto
  show ?case
  proof (cases "takes k")
    case True
    then show ?thesis
      by (intro exI[of _ "[(k, bt_value (ws_buttons s ! b))]"]) (simp add: h call_pointer_def)
  next
    case False
    with cs show ?thesis
      by (intro exI[of _ "(k, bt_value (ws_buttons s ! b)) # cs"]) (simp add: h call_pointer_def)
  qed
qed

lemma button_index_update [simp]:
  "j < length bs \<Longrightarrow> bt_serial b = bt_serial (bs ! j) \<Longrightarrow> button_index n i (bs[j := b]) = button_index n i bs"
  by (induction bs arbitrary: i j) (auto simp: less_Suc_eq_0_disj split: nat.split)

lemma value_index_append:
  "v \<notin> bt_value ` set bs \<Longrightarrow> bt_value b = v \<Longrightarrow> value_index v i (bs @ [b]) = Some (i + length bs)"
  by (induction bs arbitrary: i) auto

lemma drop_nth_last [simp]: "drop_nth (length xs) (xs @ [x]) = xs"
  by (simp add: drop_nth_def)

lemma win_updw' [simp]:
  "live s w \<Longrightarrow> win (updw w f s) w = f (win s w)"
  by (auto simp: win_def updw_def live_def)


text \<open>C26: a client that asks to move its window again with the same press, after the window manager
  ended the first move, hangs the compositor: the interaction's original handler is now the
  interaction itself, and ending it, by the window manager or by the release of the button, calls
  itself without end.\<close>

theorem second_move_never_ends:
  assumes "live s w" "c_mode s w = WINDOW_MODE_STACKED" "\<not> ia_active (w_move (win s w))"
    and "i < length (ws_buttons s)" "bt_handler (ws_buttons s ! i) = Some (HOther k)"
    and "pointer_get_button (bt_serial (ws_buttons s ! i)) s = Some i"
  shows "\<exists>s2. swc_window_end_move w (window_begin_move w (Some i) s) = Inr s2 \<and>
    (\<forall>n. end_interaction n (HMove w) None (window_begin_move w (Some i) s2) = Inl OutOfFuel) \<and>
    (\<forall>n. window_handle_button n (HMove w) i True (window_begin_move w (Some i) s2) = Inl OutOfFuel)"
proof -
  let ?b = "ws_buttons s ! i"
  define s1 where "s1 = window_begin_move w (Some i) s"
  have s1: "ws_buttons s1 = (ws_buttons s)[i := ?b\<lparr>bt_handler := Some (HMove w)\<rparr>]"
    "live s1 w" "c_mode s1 = c_mode s"
    "w_move (win s1 w) = \<lparr>ia_active = True, ia_serial = bt_serial ?b, ia_original = Some (HOther k)\<rparr>"
    using assms(1-5)
    by (simp_all add: s1_def window_begin_move_def begin_interaction_def Let_def updw_def win_def live_def)
       (auto simp: interaction.defs)
  have t1: "the_interaction (HMove w) s1 = Some (w_move (win s1 w))"
    using s1(2) by (rule the_interaction_live)
  define s2 where "s2 = remove_interaction (HMove w) (call_pointer k i s1)"
  have e: "swc_window_end_move w s1 = Inr s2"
    using s1(1,4) t1 assms(4,6) by (simp add: swc_window_end_move_def handler_fuel_def s2_def pointer_get_button_def)
  have s2: "ws_buttons s2 = ws_buttons s1" "live s2 w" "c_mode s2 = c_mode s"
    "\<not> ia_active (w_move (win s2 w))"
    using s1(2,3) by (auto simp: s2_def remove_interaction_def call_pointer_def Let_def updw_def win_def live_def)
  define s3 where "s3 = window_begin_move w (Some i) s2"
  have s3: "ws_buttons s3 = ws_buttons s1" "live s3 w"
    "w_move (win s3 w) = \<lparr>ia_active = True, ia_serial = bt_serial ?b, ia_original = Some (HMove w)\<rparr>"
    using s2 s1(1) assms(2,4)
    by (simp_all add: s3_def window_begin_move_def begin_interaction_def Let_def updw_def win_def live_def)
       (auto simp: interaction.defs)
  have t3: "the_interaction (HMove w) s3 = Some (w_move (win s3 w))"
    using s3(2) by (rule the_interaction_live)
  have g: "pointer_get_button (bt_serial ?b) s3 = Some i"
    using assms(4,6) s3(1) s1(1) by (simp add: pointer_get_button_def)
  have loop: "end_interaction n (HMove w) (Some i) s3 = Inl OutOfFuel" for n
    by (induction n) (use t3 s3(3) in simp_all)
  have "end_interaction n (HMove w) None s3 = Inl OutOfFuel" for n
    using t3 s3(3) g loop by (cases n) simp_all
  moreover have "window_handle_button n (HMove w) i True s3 = Inl OutOfFuel" for n
    using t3 s3(3) loop by (simp add: window_handle_button_def)
  ultimately show ?thesis using e unfolding s1_def s3_def by blast
qed


theorem second_move_never_ends_witness:
  "\<exists>s2 :: wstate. \<forall>n. end_interaction n (HMove 1) None (window_begin_move 1 (Some 0) s2) = Inl OutOfFuel"
proof -
  let ?s = "(running WINDOW_MODE_STACKED Xdg [(1, \<lparr>r_x = 0, r_y = 0, r_w = 80, r_h = 60\<rparr>)])
    \<lparr>ws_buttons := [\<lparr>bt_value = 272, bt_serial = 1, bt_handler = Some (HOther 0)\<rparr>]\<rparr>"
  have "live ?s 1" "c_mode ?s 1 = WINDOW_MODE_STACKED" "\<not> ia_active (w_move (win ?s 1))"
    "0 < length (ws_buttons ?s)" "bt_handler (ws_buttons ?s ! 0) = Some (HOther 0)"
    "pointer_get_button (bt_serial (ws_buttons ?s ! 0)) ?s = Some 0"
    by (simp_all add: running_def live_def win_def fresh_window_def pointer_get_button_def Let_def)
  from second_move_never_ends[OF this] show ?thesis by blast
qed

subsection \<open>Destroying a window that is being moved\<close>

text \<open>\<open>destroy_toplevel\<close> of \<open>xdg_shell.c\<close>: the window is finalized and freed.\<close>

definition destroy_toplevel :: "addr \<Rightarrow> 'a wstate_scheme \<Rightarrow> 'a wstate_scheme result" where
  "destroy_toplevel w s =
     andThen (fuelled (window_finalize w s)) (\<lambda>s. Inr (s\<lparr>ws_win := (ws_win s)(w := None)\<rparr>))"

text \<open>C25: a toplevel destroyed by its client while it is being moved leaves the handler of the move,
  which lies in the freed window, in the pointer's list: the next motion of the pointer reads freed
  memory.\<close>

theorem destroyed_while_moving:
  assumes "live s w" "c_mode s w = WINDOW_MODE_STACKED" "\<not> ia_active (w_move (win s w))"
    and "w_trans (win s w) = None"
    and "destroy_toplevel w (window_begin_move w button s) = Inr s'"
  shows "hd (ws_handlers s') = HMove w \<and> ws_win s' w = None \<and>
    pointer_handle_absolute_motion takes time x y s' = Inl UseAfterFree"
proof -
  define s1 where "s1 = window_begin_move w button s"
  have s1: "ws_handlers s1 = HMove w # ws_handlers s" "w_trans (win s1 w) = None"
    using assms(1-4)
    by (auto simp: s1_def window_begin_move_def begin_interaction_def Let_def updw_def win_def live_def split: option.split)
  define s2 where "s2 = window_unmanage w (unlink w s1)"
  have s2: "ws_handlers s2 = ws_handlers s1"
    by (simp add: s2_def window_unmanage_def unlink_def call_handler_def emit_def updw_def)
  obtain s3 where s3: "compositor_view_destroy (ws_renderer s2 (w_view (win s2 w))) (w_view (win s2 w)) s2 = Some s3"
    and s': "s' = (updw w (\<lambda>x. x\<lparr>w_title := None, w_app_id := None\<rparr>) s3)\<lparr>ws_win :=
      (ws_win (updw w (\<lambda>x. x\<lparr>w_title := None, w_app_id := None\<rparr>) s3))(w := None)\<rparr>"
    using assms(5) s1(2) unfolding s1_def[symmetric]
    by (auto simp: destroy_toplevel_def window_finalize_def leave_transaction_def s2_def[symmetric] andThen_Inr
        Let_def split: option.splits)
  have "ws_handlers s3 = ws_handlers s2"
    using requests_destroy[OF s3] by (cases s3, cases s2) simp
  then have "ws_handlers s' = HMove w # ws_handlers s" "ws_win s' w = None"
    by (simp_all add: s' s2 s1 updw_def)
  then show ?thesis by (simp add: pointer_handle_absolute_motion_def)
qed

theorem destroyed_while_moving_witness:
  "\<exists>s'. destroy_toplevel 1 (window_begin_move 1 None (running WINDOW_MODE_STACKED Xdg
      [(1, \<lparr>r_x = 0, r_y = 0, r_w = 80, r_h = 60\<rparr>)])) = Inr s' \<and>
    pointer_handle_absolute_motion (\<lambda>_. False) 7 0 0 s' = Inl UseAfterFree"
proof -
  let ?s = "running WINDOW_MODE_STACKED Xdg [(1, \<lparr>r_x = 0, r_y = 0, r_w = 80, r_h = 60\<rparr>)]"
  have h: "live ?s 1" "c_mode ?s 1 = WINDOW_MODE_STACKED" "\<not> ia_active (w_move (win ?s 1))" "w_trans (win ?s 1) = None"
    by (simp_all add: running_def live_def win_def fresh_window_def Let_def)
  have "(case destroy_toplevel 1 (window_begin_move 1 None ?s) of Inr _ \<Rightarrow> True | _ \<Rightarrow> False)"
    by code_simp
  then obtain s' where "destroy_toplevel 1 (window_begin_move 1 None ?s) = Inr s'"
    by (auto split: sum.splits)
  with destroyed_while_moving[OF h this, of "\<lambda>_. False" 7 0 0] show ?thesis by blast
qed

subsection \<open>Removing a parent\<close>

text \<open>once a toplevel has a parent, \<open>xdg_toplevel.set_parent\<close> with no parent, which the protocol
  defines as removing it, dereferences a null pointer.\<close>

theorem removing_parent_faults:
  assumes "live s w" "window_set_parent w (Some p) s = Inr s'"
  shows "window_set_parent w None s' = Inl NullDereference"
proof (cases "w_parent (win s w) = Some p")
  case True
  with assms(2) show ?thesis by (simp add: window_set_parent_def)
next
  case False
  with assms(2) obtain t where t: "compositor_view_set_parent (w_view (win s w)) (Some (w_view (win s p))) s = Some t"
    and s': "s' = call_handler w HParent (updw w (\<lambda>x. x\<lparr>w_parent := Some p\<rparr>) t)"
    by (auto simp: window_set_parent_def andThen_Inr)
  have "live t w" using set_parent_more[OF t] assms(1) by (cases t, cases s) (simp add: live_def)
  then have "w_parent (win s' w) = Some p"
    by (auto simp: s' call_handler_def emit_def win_def updw_def live_def)
  then show ?thesis by (simp add: window_set_parent_def)
qed

theorem removing_parent_faults_witness:
  "\<exists>s' :: wstate. window_set_parent 1 (Some 2) (running WINDOW_MODE_STACKED Xdg
      [(1, \<lparr>r_x = 0, r_y = 0, r_w = 80, r_h = 60\<rparr>), (2, \<lparr>r_x = 5, r_y = 5, r_w = 80, r_h = 60\<rparr>)]) = Inr s' \<and>
    window_set_parent 1 None s' = Inl NullDereference"
proof -
  let ?s = "running WINDOW_MODE_STACKED Xdg
      [(1, \<lparr>r_x = 0, r_y = 0, r_w = 80, r_h = 60\<rparr>), (2, \<lparr>r_x = 5, r_y = 5, r_w = 80, r_h = 60\<rparr>)]"
  have "live ?s 1" by (simp add: running_def live_def Let_def)
  moreover have "(case window_set_parent 1 (Some 2) ?s of Inr _ \<Rightarrow> True | _ \<Rightarrow> False)"
    by code_simp
  then obtain s' where "window_set_parent 1 (Some 2) ?s = Inr s'"
    by (auto split: sum.splits)
  ultimately show ?thesis using removing_parent_faults[of ?s 1 2 s'] by blast
qed

end
