(* ===== verification/RiverState.thy ===== *)
theory RiverState
  imports Interactive Bindings
begin

text \<open>
  The state of \<open>wm/river_wm.c\<close>, the bridge that serves river-window-management to one window
  manager: its windows, outputs and bindings, the protocol objects of its client, the phase of the
  current sequence and the queue of events waiting for the next one. It extends the state of
  \<open>libswc/window.c\<close>, which the bridge drives.

  Allocation never reuses an address or a resource id here, so that an access to something freed is
  always seen as one (\<open>UseAfterFree\<close>). Events sent to the manager are recorded in \<open>wm_events\<close>.
  What libxkbcommon, the seat and libwayland's registry answer is \<open>wm_env\<close>.
\<close>

subsection \<open>Data\<close>

datatype phase = PHASE_IDLE | PHASE_MANAGE | PHASE_SETTLE | PHASE_RENDER

text \<open>\<open>rw_swc\<close> is the window of \<open>libswc\<close>, \<open>rw_resource\<close> and \<open>rw_node\<close> are the protocol objects.\<close>

record river_window =
  rw_resource :: "nat option"
  rw_node :: "nat option"
  rw_swc :: "addr option"
  rw_advertised :: bool
  rw_closed :: bool
  rw_has_proposal :: bool
  rw_width :: i32
  rw_height :: i32
  rw_sent_width :: i32
  rw_sent_height :: i32

text \<open>\<open>ro_swc\<close> is the screen, by its id.\<close>

record river_output =
  ro_resource :: "nat option"
  ro_layer_shell :: "nat option"
  ro_swc :: nat
  ro_advertised :: bool

record river_shell_surface =
  rs_resource :: nat
  rs_node :: "nat option"
  rs_swc :: addr

record river_binding =
  rb_resource :: nat
  rb_type :: binding_type
  rb_keysym :: u32
  rb_modifiers :: u32
  rb_registered :: bool
  rb_enabled :: bool
  rb_layout :: "u32 option"
  rb_held :: "u32 option"

text \<open>\<open>struct binding_event\<close>, with the binding or the window it is about.\<close>

datatype binding_event =
    BPressed addr
  | BReleased addr
  | BStopRepeat addr
  | BAteUnbound
  | BModifiers u32 u32
  | BInteraction addr

text \<open>The interfaces of the protocol objects. A \<open>KRejected\<close> manager is one that was told it is
  unavailable: it has the requests of a manager, but no destructor.\<close>

datatype iface =
    KManager | KRejected | KWindow | KNode | KOutput | KSeat | KXkbBinding | KPointerBinding
  | KXkbSeat | KLayerOutput | KLayerSeat | KShellSurface | KShellNode

record resource =
  rr_iface :: iface
  rr_data :: "addr option"
  rr_version :: nat

datatype revent =
    NewOutput nat | NewSeat nat | NewWindow nat | ManageStart | RenderStart | Finished | Unavailable
  | OutputName u32 | OutputPosition i32 i32 | OutputDimensions u32 u32 | NonExclusiveArea rect | Removed
  | SeatName u32 | PointerPosition i32 i32 | PointerEnter nat | PointerLeave | WindowInteraction nat
  | Title string | AppId string | DimensionsHint u32 u32 u32 u32 | Dimensions i32 i32 | Closed
  | Pressed | Released | StopRepeat | AteUnboundKey | ModifiersUpdate u32 u32
  | SequenceOrderError | ObjectExistsError | NodeExistsError | RoleError | InvalidClipBoxError | NoMemory

record renv =
  en_keysym :: "u32 \<Rightarrow> u32"
  en_keysym_in :: "u32 \<Rightarrow> u32 \<Rightarrow> u32"
  en_layout :: "u32 \<Rightarrow> u32"
  en_modifiers :: u32
  en_consumed :: "u32 \<Rightarrow> u32"
  en_cursor :: bool
  en_output_name :: "nat \<Rightarrow> u32 option"
  en_seat_name :: "u32 option"
  en_usable :: "nat \<Rightarrow> rect"
  en_keyboard :: bool
  en_pointer :: bool

text \<open>The static \<open>wm\<close> of \<open>river_wm.c\<close> with the queue \<open>pending_binding_events\<close> and the flags of the
  two observers; the heaps of the objects it allocates; \<open>wm_swc\<close>, the bindings of \<open>bindings.c\<close>
  that its pointer bindings are registered in.\<close>

record rstate = wstate +
  wm_manager :: "nat option"
  wm_idle :: bool
  wm_phase :: phase
  wm_dirty :: bool
  wm_windows :: "addr list"
  wm_outputs :: "addr list"
  wm_seat :: "nat option"
  wm_layer_seat :: "nat option"
  wm_screen :: "nat option"
  wm_key_bindings :: "addr list"
  wm_xkb_seat :: "nat option"
  wm_eat_next_key :: bool
  wm_watched :: u32
  wm_pointer :: "(i32 \<times> i32) option"
  wm_queue :: "binding_event list"
  wm_key_observer :: bool
  wm_ptr_observer :: bool
  wm_win :: "addr \<Rightarrow> river_window option"
  wm_out :: "addr \<Rightarrow> river_output option"
  wm_shell :: "addr \<Rightarrow> river_shell_surface option"
  wm_bind :: "addr \<Rightarrow> river_binding option"
  wm_res :: "nat \<Rightarrow> resource option"
  wm_next :: nat
  wm_next_addr :: addr
  wm_swc :: bindings_state
  wm_events :: "(nat \<times> revent) list"
  wm_terminated :: bool
  wm_env :: renv

subsection \<open>Access\<close>

definition rwin :: "'a rstate_scheme \<Rightarrow> addr \<Rightarrow> river_window" where
  "rwin s a = the (wm_win s a)"

definition rout :: "'a rstate_scheme \<Rightarrow> addr \<Rightarrow> river_output" where
  "rout s a = the (wm_out s a)"

definition rbind :: "'a rstate_scheme \<Rightarrow> addr \<Rightarrow> river_binding" where
  "rbind s b = the (wm_bind s b)"

definition updrw :: "addr \<Rightarrow> (river_window \<Rightarrow> river_window) \<Rightarrow> 'a rstate_scheme \<Rightarrow> 'a rstate_scheme" where
  "updrw a f s = s\<lparr>wm_win := (wm_win s)(a := map_option f (wm_win s a))\<rparr>"

definition updro :: "addr \<Rightarrow> (river_output \<Rightarrow> river_output) \<Rightarrow> 'a rstate_scheme \<Rightarrow> 'a rstate_scheme" where
  "updro a f s = s\<lparr>wm_out := (wm_out s)(a := map_option f (wm_out s a))\<rparr>"

definition updrb :: "addr \<Rightarrow> (river_binding \<Rightarrow> river_binding) \<Rightarrow> 'a rstate_scheme \<Rightarrow> 'a rstate_scheme" where
  "updrb b f s = s\<lparr>wm_bind := (wm_bind s)(b := map_option f (wm_bind s b))\<rparr>"

definition send :: "nat \<Rightarrow> revent \<Rightarrow> 'a rstate_scheme \<Rightarrow> 'a rstate_scheme" where
  "send r e s = s\<lparr>wm_events := wm_events s @ [(r, e)]\<rparr>"

text \<open>\<open>wl_resource_create\<close> with \<open>wl_resource_set_implementation\<close>; without memory, no resource.\<close>

definition new_resource :: "iface \<Rightarrow> addr option \<Rightarrow> nat \<Rightarrow> 'a rstate_scheme \<Rightarrow> nat option \<times> 'a rstate_scheme" where
  "new_resource k data version s =
     (if \<not> ws_mem s then (None, s)
      else (Some (wm_next s),
            s\<lparr>wm_res := (wm_res s)(wm_next s \<mapsto> \<lparr>rr_iface = k, rr_data = data, rr_version = version\<rparr>),
              wm_next := Suc (wm_next s)\<rparr>))"

definition version_of :: "nat \<Rightarrow> 'a rstate_scheme \<Rightarrow> nat" where
  "version_of r s = (case wm_res s r of None \<Rightarrow> 0 | Some x \<Rightarrow> rr_version x)"

definition set_user_data :: "nat \<Rightarrow> addr option \<Rightarrow> 'a rstate_scheme \<Rightarrow> 'a rstate_scheme" where
  "set_user_data r data s =
     s\<lparr>wm_res := (wm_res s)(r := map_option (\<lambda>x. x\<lparr>rr_data := data\<rparr>) (wm_res s r))\<rparr>"

definition drop_resource :: "nat \<Rightarrow> 'a rstate_scheme \<Rightarrow> 'a rstate_scheme" where
  "drop_resource r s = s\<lparr>wm_res := (wm_res s)(r := None)\<rparr>"

text \<open>The object a resource's user data points to: \<open>None\<close> for a null pointer, a fault when the
  resource or the object is gone. \<open>alive\<close> tells whether the object at an address exists.\<close>

definition user_data :: "(addr \<Rightarrow> bool) \<Rightarrow> nat \<Rightarrow> 'a rstate_scheme \<Rightarrow> addr option result" where
  "user_data alive r s =
     (case wm_res s r of
        None \<Rightarrow> Inl UseAfterFree
      | Some x \<Rightarrow>
          (case rr_data x of
             None \<Rightarrow> Inr None
           | Some a \<Rightarrow> if alive a then Inr (Some a) else Inl UseAfterFree))"

abbreviation win_data :: "nat \<Rightarrow> 'a rstate_scheme \<Rightarrow> addr option result" where
  "win_data r s \<equiv> user_data (\<lambda>a. wm_win s a \<noteq> None) r s"

abbreviation out_data :: "nat \<Rightarrow> 'a rstate_scheme \<Rightarrow> addr option result" where
  "out_data r s \<equiv> user_data (\<lambda>a. wm_out s a \<noteq> None) r s"

abbreviation bind_data :: "nat \<Rightarrow> 'a rstate_scheme \<Rightarrow> addr option result" where
  "bind_data r s \<equiv> user_data (\<lambda>a. wm_bind s a \<noteq> None) r s"

abbreviation shell_data :: "nat \<Rightarrow> 'a rstate_scheme \<Rightarrow> addr option result" where
  "shell_data r s \<equiv> user_data (\<lambda>a. wm_shell s a \<noteq> None) r s"

subsection \<open>Scheduling a sequence\<close>

definition schedule_sequence :: "'a rstate_scheme \<Rightarrow> 'a rstate_scheme" where
  "schedule_sequence s =
     (let s = s\<lparr>wm_dirty := True\<rparr>
      in if wm_manager s = None \<or> wm_phase s \<noteq> PHASE_IDLE \<or> wm_idle s then s else s\<lparr>wm_idle := True\<rparr>)"

end
