(* ===== verification/RiverInput.thy ===== *)
theory RiverInput
  imports RiverState
begin

text \<open>
  Input in \<open>wm/river_wm.c\<close>: the two encodings of modifiers, key and pointer bindings, the queue of
  their events and its flush at the start of a sequence, and the observers of the keyboard and the
  pointer. \<open>key\<close> bindings are matched here, pointer bindings through \<open>libswc/bindings.c\<close>.
\<close>

unbundle bit_operations_syntax

subsection \<open>Modifiers\<close>

abbreviation (input) SWC_MOD_CTRL :: u32 where "SWC_MOD_CTRL \<equiv> 1"
abbreviation (input) SWC_MOD_ALT :: u32 where "SWC_MOD_ALT \<equiv> 2"
abbreviation (input) SWC_MOD_LOGO :: u32 where "SWC_MOD_LOGO \<equiv> 4"
abbreviation (input) SWC_MOD_SHIFT :: u32 where "SWC_MOD_SHIFT \<equiv> 8"
abbreviation (input) SWC_MOD_MOD3 :: u32 where "SWC_MOD_MOD3 \<equiv> 16"
abbreviation (input) SWC_MOD_MOD5 :: u32 where "SWC_MOD_MOD5 \<equiv> 32"

abbreviation (input) RIVER_SHIFT :: u32 where "RIVER_SHIFT \<equiv> 1"
abbreviation (input) RIVER_CTRL :: u32 where "RIVER_CTRL \<equiv> 4"
abbreviation (input) RIVER_MOD1 :: u32 where "RIVER_MOD1 \<equiv> 8"
abbreviation (input) RIVER_MOD3 :: u32 where "RIVER_MOD3 \<equiv> 32"
abbreviation (input) RIVER_MOD4 :: u32 where "RIVER_MOD4 \<equiv> 64"
abbreviation (input) RIVER_MOD5 :: u32 where "RIVER_MOD5 \<equiv> 128"

definition translate :: "u32 \<Rightarrow> u32 \<Rightarrow> u32 \<Rightarrow> u32 \<Rightarrow> u32" where
  "translate from_bit to_bit modifiers result = (if modifiers AND from_bit \<noteq> 0 then result OR to_bit else result)"

definition modifiers_to_swc :: "u32 \<Rightarrow> u32" where
  "modifiers_to_swc modifiers =
     translate RIVER_MOD5 SWC_MOD_MOD5 modifiers
    (translate RIVER_MOD3 SWC_MOD_MOD3 modifiers
    (translate RIVER_MOD4 SWC_MOD_LOGO modifiers
    (translate RIVER_MOD1 SWC_MOD_ALT modifiers
    (translate RIVER_CTRL SWC_MOD_CTRL modifiers
    (translate RIVER_SHIFT SWC_MOD_SHIFT modifiers 0)))))"

definition modifiers_to_river :: "u32 \<Rightarrow> u32" where
  "modifiers_to_river modifiers =
     translate SWC_MOD_MOD5 RIVER_MOD5 modifiers
    (translate SWC_MOD_MOD3 RIVER_MOD3 modifiers
    (translate SWC_MOD_LOGO RIVER_MOD4 modifiers
    (translate SWC_MOD_ALT RIVER_MOD1 modifiers
    (translate SWC_MOD_CTRL RIVER_CTRL modifiers
    (translate SWC_MOD_SHIFT RIVER_SHIFT modifiers 0)))))"

subsection \<open>The queue\<close>

definition queue_event :: "binding_event \<Rightarrow> 'a rstate_scheme \<Rightarrow> 'a rstate_scheme" where
  "queue_event e s =
     (if \<not> ws_mem s then s else schedule_sequence (s\<lparr>wm_queue := wm_queue s @ [e]\<rparr>))"

definition queue_window_interaction :: "addr \<Rightarrow> 'a rstate_scheme \<Rightarrow> 'a rstate_scheme" where
  "queue_window_interaction a s = queue_event (BInteraction a) s"

text \<open>A binding's resource lives as long as the binding: \<open>binding_resource_destroy\<close> frees it.\<close>

definition binding_pressed :: "addr \<Rightarrow> u32 \<Rightarrow> 'a rstate_scheme \<Rightarrow> 'a rstate_scheme result" where
  "binding_pressed b state s =
     (if wm_bind s b = None then Inl UseAfterFree
      else Inr (queue_event (if state \<noteq> 0 then BPressed b else BReleased b) s))"

definition flush_event :: "binding_event \<Rightarrow> 'a rstate_scheme \<Rightarrow> 'a rstate_scheme result" where
  "flush_event e s =
     (case e of
        BPressed b \<Rightarrow>
          if wm_bind s b = None then Inl UseAfterFree else Inr (send (rb_resource (rbind s b)) Pressed s)
      | BReleased b \<Rightarrow>
          if wm_bind s b = None then Inl UseAfterFree else Inr (send (rb_resource (rbind s b)) Released s)
      | BStopRepeat b \<Rightarrow>
          if wm_bind s b = None then Inl UseAfterFree
          else Inr (if 2 \<le> version_of (rb_resource (rbind s b)) s
                    then send (rb_resource (rbind s b)) StopRepeat s else s)
      | BAteUnbound \<Rightarrow>
          Inr (case wm_xkb_seat s of
                 Some r \<Rightarrow> if 2 \<le> version_of r s then send r AteUnboundKey s else s
               | None \<Rightarrow> s)
      | BModifiers previous current \<Rightarrow>
          Inr (case wm_xkb_seat s of
                 Some r \<Rightarrow> if 3 \<le> version_of r s then send r (ModifiersUpdate previous current) s else s
               | None \<Rightarrow> s)
      | BInteraction a \<Rightarrow>
          (case wm_seat s of
             None \<Rightarrow> Inr s
           | Some seat \<Rightarrow>
               if wm_win s a = None then Inl UseAfterFree
               else case rw_resource (rwin s a) of
                      None \<Rightarrow> Inr s
                    | Some r \<Rightarrow> Inr (send seat (WindowInteraction r) s)))"

fun flush_binding_events :: "binding_event list \<Rightarrow> 'a rstate_scheme \<Rightarrow> 'a rstate_scheme result" where
  "flush_binding_events [] s = Inr s"
| "flush_binding_events (e # es) s =
     andThen (flush_event e s) (\<lambda>s. flush_binding_events es (s\<lparr>wm_queue := tl (wm_queue s)\<rparr>))"

fun event_binding :: "binding_event \<Rightarrow> addr option" where
  "event_binding (BPressed b) = Some b"
| "event_binding (BReleased b) = Some b"
| "event_binding (BStopRepeat b) = Some b"
| "event_binding _ = None"

fun event_window :: "binding_event \<Rightarrow> addr option" where
  "event_window (BInteraction a) = Some a"
| "event_window _ = None"

definition drop_binding_events :: "addr \<Rightarrow> 'a rstate_scheme \<Rightarrow> 'a rstate_scheme" where
  "drop_binding_events b s = s\<lparr>wm_queue := filter (\<lambda>e. event_binding e \<noteq> Some b) (wm_queue s)\<rparr>"

definition drop_window_events :: "addr \<Rightarrow> 'a rstate_scheme \<Rightarrow> 'a rstate_scheme" where
  "drop_window_events a s = s\<lparr>wm_queue := filter (\<lambda>e. event_window e \<noteq> Some a) (wm_queue s)\<rparr>"

subsection \<open>Key and pointer bindings\<close>

definition ensure_keyboard_observer :: "'a rstate_scheme \<Rightarrow> 'a rstate_scheme" where
  "ensure_keyboard_observer s =
     (if wm_key_observer s then s else s\<lparr>wm_key_observer := en_keyboard (wm_env s)\<rparr>)"

definition ensure_pointer_observer :: "'a rstate_scheme \<Rightarrow> 'a rstate_scheme" where
  "ensure_pointer_observer s =
     (if wm_ptr_observer s then s else s\<lparr>wm_ptr_observer := en_pointer (wm_env s)\<rparr>)"

text \<open>The handler of every pointer binding is \<open>binding_pressed\<close>, here handler 0. \<open>moved\<close> tells
  whether the array of \<open>bindings.c\<close> was reallocated.\<close>

definition binding_register :: "bool \<Rightarrow> addr \<Rightarrow> 'a rstate_scheme \<Rightarrow> 'a rstate_scheme" where
  "binding_register moved b s =
     (let x = rbind s b
      in if rb_type x = BINDING_KEY then ensure_keyboard_observer (updrb b (\<lambda>x. x\<lparr>rb_enabled := True\<rparr>) s)
         else if rb_registered x then s
         else
           let (bs, ret) = swc_add_binding (ws_mem s) moved (wm_swc s) (rb_type x) (rb_modifiers x) (rb_keysym x) 0 b
           in updrb b (\<lambda>x. x\<lparr>rb_registered := (ret = 0)\<rparr>) (s\<lparr>wm_swc := bs\<rparr>))"

definition binding_unregister :: "addr \<Rightarrow> 'a rstate_scheme \<Rightarrow> 'a rstate_scheme" where
  "binding_unregister b s =
     (let x = rbind s b
      in if rb_type x = BINDING_KEY then updrb b (\<lambda>x. x\<lparr>rb_enabled := False\<rparr>) s
         else if \<not> rb_registered x then s
         else updrb b (\<lambda>x. x\<lparr>rb_registered := False\<rparr>)
                (s\<lparr>wm_swc := swc_remove_binding (wm_swc s) (rb_type x) (rb_modifiers x) (rb_keysym x)\<rparr>))"

definition binding_matches :: "river_binding \<Rightarrow> u32 \<Rightarrow> u32 \<Rightarrow> renv \<Rightarrow> bool" where
  "binding_matches x keycode effective env \<longleftrightarrow>
     rb_enabled x \<and>
     (let keysym = (case rb_layout x of Some l \<Rightarrow> en_keysym_in env keycode l | None \<Rightarrow> en_keysym env keycode)
      in keysym = rb_keysym x \<or>
         rb_layout x = None \<and> en_keysym_in env keycode (en_layout env keycode) = rb_keysym x) \<and>
     rb_modifiers x = effective"

definition binding_observe_key :: "u32 \<Rightarrow> bool \<Rightarrow> 'a rstate_scheme \<Rightarrow> bool \<times> 'a rstate_scheme" where
  "binding_observe_key keycode released s =
     (if released then
        case List.find (\<lambda>b. rb_held (rbind s b) = Some keycode) (wm_key_bindings s) of
          Some b \<Rightarrow> (True, queue_event (BReleased b) (updrb b (\<lambda>x. x\<lparr>rb_held := None\<rparr>) s))
        | None \<Rightarrow> (False, s)
      else
        let effective = en_modifiers (wm_env s) AND NOT (en_consumed (wm_env s) keycode);
            match = List.find (\<lambda>b. binding_matches (rbind s b) keycode effective (wm_env s)) (wm_key_bindings s);
            s = fold (\<lambda>b s. if rb_held (rbind s b) \<noteq> None \<and> Some b \<noteq> match
                            then queue_event (BStopRepeat b) s else s) (wm_key_bindings s) s
        in case match of
             Some b \<Rightarrow>
               let s = updrb b (\<lambda>x. x\<lparr>rb_held := Some keycode\<rparr>) s
               in (True, (queue_event (BPressed b) s)\<lparr>wm_eat_next_key := False\<rparr>)
           | None \<Rightarrow>
               if wm_eat_next_key s then (True, queue_event BAteUnbound (s\<lparr>wm_eat_next_key := False\<rparr>))
               else (False, s))"

definition binding_observe_modifiers :: "u32 \<Rightarrow> u32 \<Rightarrow> 'a rstate_scheme \<Rightarrow> 'a rstate_scheme" where
  "binding_observe_modifiers previous current s =
     (if wm_watched s = 0 \<or> (previous XOR current) AND wm_watched s = 0 then s
      else queue_event (BModifiers (modifiers_to_river previous) (modifiers_to_river current)) s)"

text \<open>\<open>swc\<close> is the window under the pointer.\<close>

definition seat_observe_button :: "bool \<Rightarrow> addr option \<Rightarrow> 'a rstate_scheme \<Rightarrow> 'a rstate_scheme" where
  "seat_observe_button pressed swc s =
     (if \<not> pressed \<or> swc = None \<or> wm_seat s = None then s
      else case List.find (\<lambda>a. rw_swc (rwin s a) = swc) (wm_windows s) of
             Some a \<Rightarrow> if rw_resource (rwin s a) \<noteq> None then queue_window_interaction a s else s
           | None \<Rightarrow> s)"

subsection \<open>Requests\<close>

definition binding_enable :: "bool \<Rightarrow> nat \<Rightarrow> 'a rstate_scheme \<Rightarrow> 'a rstate_scheme result" where
  "binding_enable moved r s =
     andThen (bind_data r s) (\<lambda>b. case b of None \<Rightarrow> Inl NullDereference | Some b \<Rightarrow> Inr (binding_register moved b s))"

definition binding_disable :: "nat \<Rightarrow> 'a rstate_scheme \<Rightarrow> 'a rstate_scheme result" where
  "binding_disable r s =
     andThen (bind_data r s) (\<lambda>b. case b of None \<Rightarrow> Inl NullDereference | Some b \<Rightarrow> Inr (binding_unregister b s))"

definition binding_set_layout_override :: "nat \<Rightarrow> u32 \<Rightarrow> 'a rstate_scheme \<Rightarrow> 'a rstate_scheme result" where
  "binding_set_layout_override r l s =
     andThen (bind_data r s) (\<lambda>b. Inr (case b of
       None \<Rightarrow> s | Some b \<Rightarrow> updrb b (\<lambda>x. x\<lparr>rb_layout := Some l\<rparr>) s))"

definition binding_resource_destroy :: "nat \<Rightarrow> 'a rstate_scheme \<Rightarrow> 'a rstate_scheme result" where
  "binding_resource_destroy r s =
     andThen (bind_data r s) (\<lambda>b. Inr (drop_resource r (case b of
       None \<Rightarrow> s
     | Some b \<Rightarrow>
         let s = drop_binding_events b (binding_unregister b s);
             s = (if rb_type (rbind s b) = BINDING_KEY
                  then s\<lparr>wm_key_bindings := remove1 b (wm_key_bindings s)\<rparr> else s)
         in s\<lparr>wm_bind := (wm_bind s)(b := None)\<rparr>)))"

definition new_binding ::
  "iface \<Rightarrow> binding_type \<Rightarrow> nat \<Rightarrow> u32 \<Rightarrow> u32 \<Rightarrow> 'a rstate_scheme \<Rightarrow> addr option \<times> 'a rstate_scheme" where
  "new_binding k type version keysym modifiers s =
     (let b = wm_next_addr s
      in case new_resource k (Some b) version s of
           (None, s) \<Rightarrow> (None, s)
         | (Some res, s) \<Rightarrow>
             (Some b, s\<lparr>wm_next_addr := b + 1, wm_bind := (wm_bind s)(b \<mapsto>
               \<lparr>rb_resource = res, rb_type = type, rb_keysym = keysym, rb_modifiers = modifiers_to_swc modifiers,
                rb_registered = False, rb_enabled = False, rb_layout = None, rb_held = None\<rparr>)\<rparr>))"

definition xkb_bindings_get_xkb_binding :: "nat \<Rightarrow> u32 \<Rightarrow> u32 \<Rightarrow> 'a rstate_scheme \<Rightarrow> 'a rstate_scheme" where
  "xkb_bindings_get_xkb_binding version keysym modifiers s =
     (case new_binding KXkbBinding BINDING_KEY version keysym modifiers s of
        (None, s) \<Rightarrow> s
      | (Some b, s) \<Rightarrow> s\<lparr>wm_key_bindings := wm_key_bindings s @ [b]\<rparr>)"

definition seat_get_pointer_binding :: "nat \<Rightarrow> u32 \<Rightarrow> u32 \<Rightarrow> 'a rstate_scheme \<Rightarrow> 'a rstate_scheme" where
  "seat_get_pointer_binding version button modifiers s =
     snd (new_binding KPointerBinding BINDING_BUTTON version button modifiers s)"

definition xkb_bindings_get_seat :: "nat \<Rightarrow> 'a rstate_scheme \<Rightarrow> 'a rstate_scheme" where
  "xkb_bindings_get_seat version s =
     (case new_resource KXkbSeat None version s of
        (None, s) \<Rightarrow> s
      | (Some r, s) \<Rightarrow> s\<lparr>wm_xkb_seat := Some r\<rparr>)"

definition xkb_seat_resource_destroy :: "nat \<Rightarrow> 'a rstate_scheme \<Rightarrow> 'a rstate_scheme" where
  "xkb_seat_resource_destroy r s =
     drop_resource r
       (if wm_xkb_seat s = Some r then s\<lparr>wm_xkb_seat := None, wm_eat_next_key := False, wm_watched := 0\<rparr> else s)"

definition xkb_seat_ensure_next_key_eaten :: "'a rstate_scheme \<Rightarrow> 'a rstate_scheme" where
  "xkb_seat_ensure_next_key_eaten s = s\<lparr>wm_eat_next_key := True\<rparr>"

definition xkb_seat_cancel_ensure_next_key_eaten :: "'a rstate_scheme \<Rightarrow> 'a rstate_scheme" where
  "xkb_seat_cancel_ensure_next_key_eaten s = s\<lparr>wm_eat_next_key := False\<rparr>"

definition xkb_seat_modifiers_watch :: "u32 \<Rightarrow> 'a rstate_scheme \<Rightarrow> 'a rstate_scheme" where
  "xkb_seat_modifiers_watch modifiers s = s\<lparr>wm_watched := modifiers_to_swc modifiers\<rparr>"

subsection \<open>The two encodings of modifiers\<close>

lemma bit_translate:
  "j < 32 \<Longrightarrow> i < 32 \<Longrightarrow> bit (translate (2 ^ i) (2 ^ j) m r) n \<longleftrightarrow> bit r n \<or> n = j \<and> bit m i"
  by (auto simp: translate_def and_exp_eq_0_iff_not_bit bit_simps)

lemma bit_modifiers_to_swc:
  "bit (modifiers_to_swc m) n \<longleftrightarrow> n = 0 \<and> bit m 2 \<or> n = 1 \<and> bit m 3 \<or> n = 2 \<and> bit m 6 \<or> n = 3 \<and> bit m 0 \<or>
     n = 4 \<and> bit m 5 \<or> n = 5 \<and> bit m 7"
  using bit_translate[of 0 2 m] bit_translate[of 1 3 m] bit_translate[of 2 6 m] bit_translate[of 3 0 m]
    bit_translate[of 4 5 m] bit_translate[of 5 7 m] by (auto simp: modifiers_to_swc_def)

lemma bit_modifiers_to_river:
  "bit (modifiers_to_river m) n \<longleftrightarrow> n = 2 \<and> bit m 0 \<or> n = 3 \<and> bit m 1 \<or> n = 6 \<and> bit m 2 \<or> n = 0 \<and> bit m 3 \<or>
     n = 5 \<and> bit m 4 \<or> n = 7 \<and> bit m 5"
  using bit_translate[of 2 0 m] bit_translate[of 3 1 m] bit_translate[of 6 2 m] bit_translate[of 0 3 m]
    bit_translate[of 5 4 m] bit_translate[of 7 5 m] by (auto simp: modifiers_to_river_def)

text \<open>translating modifiers to the other encoding and back keeps all six, and drops every other bit.\<close>

theorem modifiers_round_trip:
  "modifiers_to_swc (modifiers_to_river m) = m AND 0x3F \<and> modifiers_to_river (modifiers_to_swc m) = m AND 0xED"
proof
  have sixty3: "bit (0x3F :: u32) n \<longleftrightarrow> n = 0 \<or> n = 1 \<or> n = 2 \<or> n = 3 \<or> n = 4 \<or> n = 5" for n
    by (auto simp: bit_numeral_rec bit_1_iff split: nat.split)
  have ed: "bit (0xED :: u32) n \<longleftrightarrow> n = 0 \<or> n = 2 \<or> n = 3 \<or> n = 5 \<or> n = 6 \<or> n = 7" for n
    by (auto simp: bit_numeral_rec bit_1_iff split: nat.split)
  show "modifiers_to_swc (modifiers_to_river m) = m AND 0x3F"
    by (rule bit_word_eqI) (unfold bit_modifiers_to_swc bit_modifiers_to_river bit_and_iff sixty3, auto)
  show "modifiers_to_river (modifiers_to_swc m) = m AND 0xED"
    by (rule bit_word_eqI) (unfold bit_modifiers_to_swc bit_modifiers_to_river bit_and_iff ed, auto)
qed

end
