(* ===== verification/River.thy ===== *)
theory River
  imports RiverInput
begin

text \<open>
  The rest of \<open>wm/river_wm.c\<close>, in its order: nodes, outputs, the layer shell, the seat, windows,
  the sequencing of manage and render, the manager, and the entry points \<open>libswc\<close> calls. The
  functions of \<open>libswc\<close> it calls are those of \<open>Window\<close>, \<open>Interactive\<close>, \<open>Stacking\<close> and
  \<open>Visibility\<close>.

  The completion of a cohort calls \<open>begin_render\<close>. \<open>window.c\<close> records the call (\<open>ws_reports\<close>);
  \<open>with_done\<close> makes it when the operation that completed the cohort returns, which is the last
  thing \<open>transaction_done\<close> does.
\<close>

subsection \<open>Sizes for the render sequence\<close>

definition render_size :: "'a rstate_scheme \<Rightarrow> addr \<Rightarrow> (i32 \<times> i32) option" where
  "render_size s a =
     (case swc_window_get_committed_size (rw_swc (rwin s a)) s of
        Some sz \<Rightarrow> Some sz
      | None \<Rightarrow> map_option (\<lambda>g. (r_w g, r_h g)) (swc_window_get_geometry (rw_swc (rwin s a)) s))"

definition report_size :: "addr \<Rightarrow> 'a rstate_scheme \<Rightarrow> 'a rstate_scheme" where
  "report_size a s =
     (let x = rwin s a
      in case rw_resource x of
           None \<Rightarrow> s
         | Some r \<Rightarrow>
             if rw_closed x then s
             else case render_size s a of
                    None \<Rightarrow> s
                  | Some (width, height) \<Rightarrow>
                      if width = rw_sent_width x \<and> height = rw_sent_height x then s
                      else send r (Dimensions width height)
                             (updrw a (\<lambda>x. x\<lparr>rw_sent_width := width, rw_sent_height := height\<rparr>) s))"

definition begin_render :: "bool \<Rightarrow> 'a rstate_scheme \<Rightarrow> 'a rstate_scheme" where
  "begin_render timed_out s =
     (case wm_manager s of
        None \<Rightarrow> s\<lparr>wm_phase := PHASE_IDLE\<rparr>
      | Some m \<Rightarrow>
          let s = fold report_size (wm_windows s) s
          in send m RenderStart (s\<lparr>wm_phase := PHASE_RENDER\<rparr>))"

definition with_done :: "('a rstate_scheme \<Rightarrow> 'a rstate_scheme) \<Rightarrow> 'a rstate_scheme \<Rightarrow> 'a rstate_scheme" where
  "with_done f s =
     (let t = f s
      in fold (\<lambda>(cb, timed_out). begin_render timed_out) (drop (length (ws_reports s)) (ws_reports t)) t)"

subsection \<open>Nodes\<close>

text \<open>\<open>on_window\<close> is how every request on a window or its node begins: a request on an object
  without a window, or with a closed one, does nothing.\<close>

definition on_window ::
  "nat \<Rightarrow> (addr \<Rightarrow> 'a rstate_scheme \<Rightarrow> 'a rstate_scheme result) \<Rightarrow> 'a rstate_scheme \<Rightarrow> 'a rstate_scheme result"
where
  "on_window r f s =
     andThen (win_data r s) (\<lambda>d. case d of
       None \<Rightarrow> Inr s
     | Some a \<Rightarrow> if rw_closed (rwin s a) then Inr s else f a s)"

definition view_of :: "'a rstate_scheme \<Rightarrow> addr \<Rightarrow> addr option" where
  "view_of s a = map_option (\<lambda>w. w_view (win s w)) (rw_swc (rwin s a))"

definition maybe_free_window :: "addr \<Rightarrow> 'a rstate_scheme \<Rightarrow> 'a rstate_scheme" where
  "maybe_free_window a s =
     (let x = rwin s a
      in if rw_swc x \<noteq> None \<or> rw_resource x \<noteq> None \<or> rw_node x \<noteq> None then s
         else (drop_window_events a s)\<lparr>wm_win := (wm_win s)(a := None)\<rparr>)"

definition node_set_position :: "nat \<Rightarrow> i32 \<Rightarrow> i32 \<Rightarrow> 'a rstate_scheme \<Rightarrow> 'a rstate_scheme result" where
  "node_set_position r x y =
     on_window r (\<lambda>a s. Inr (with_done (swc_window_set_position (rw_swc (rwin s a)) x y) s))"

definition node_place_top :: "nat \<Rightarrow> 'a rstate_scheme \<Rightarrow> 'a rstate_scheme result" where
  "node_place_top r = on_window r (\<lambda>a s. Inr (swc_window_raise (view_of s a) s))"

definition node_place_bottom :: "nat \<Rightarrow> 'a rstate_scheme \<Rightarrow> 'a rstate_scheme result" where
  "node_place_bottom r = on_window r (\<lambda>a s. Inr (swc_window_lower (view_of s a) s))"

definition node_place_relative :: "nat \<Rightarrow> nat option \<Rightarrow> bool \<Rightarrow> 'a rstate_scheme \<Rightarrow> 'a rstate_scheme result"
where
  "node_place_relative r sibling abv s =
     andThen (win_data r s) (\<lambda>d.
     andThen (case sibling of None \<Rightarrow> Inr None | Some r \<Rightarrow> win_data r s) (\<lambda>e.
       Inr (case (d, e) of
              (Some a, Some b) \<Rightarrow>
                if rw_closed (rwin s a) \<or> rw_closed (rwin s b) then s
                else swc_window_restack (view_of s a) (view_of s b) abv s
            | _ \<Rightarrow> s)))"

definition node_resource_destroy :: "nat \<Rightarrow> 'a rstate_scheme \<Rightarrow> 'a rstate_scheme result" where
  "node_resource_destroy r s =
     andThen (win_data r s) (\<lambda>d. Inr (drop_resource r (case d of
       None \<Rightarrow> s
     | Some a \<Rightarrow>
         if rw_node (rwin s a) \<noteq> Some r then s
         else maybe_free_window a (updrw a (\<lambda>x. x\<lparr>rw_node := None\<rparr>) s))))"

subsection \<open>Outputs and the layer shell\<close>

definition send_output_geometry :: "addr \<Rightarrow> 'a rstate_scheme \<Rightarrow> 'a rstate_scheme" where
  "send_output_geometry a s =
     (let x = rout s a; g = the (map_of (c_screens s) (ro_swc x));
          s = (case ro_resource x of
                 None \<Rightarrow> s
               | Some r \<Rightarrow> send r (OutputDimensions (r_w g) (r_h g)) (send r (OutputPosition (r_x g) (r_y g)) s))
      in case ro_layer_shell x of
           None \<Rightarrow> s
         | Some r \<Rightarrow> send r (NonExclusiveArea (en_usable (wm_env s) (ro_swc x))) s)"

definition advertise_output :: "addr \<Rightarrow> 'a rstate_scheme \<Rightarrow> 'a rstate_scheme" where
  "advertise_output a s =
     (case wm_manager s of
        None \<Rightarrow> s
      | Some m \<Rightarrow>
          if ro_advertised (rout s a) then s
          else case new_resource KOutput (Some a) (version_of m s) s of
                 (None, s) \<Rightarrow> send m NoMemory (updro a (\<lambda>x. x\<lparr>ro_resource := None\<rparr>) s)
               | (Some r, s) \<Rightarrow>
                   let s = updro a (\<lambda>x. x\<lparr>ro_resource := Some r, ro_advertised := True\<rparr>) s;
                       s = send m (NewOutput r) s;
                       s = (case en_output_name (wm_env s) (ro_swc (rout s a)) of
                              None \<Rightarrow> s | Some name \<Rightarrow> send r (OutputName name) s)
                   in send_output_geometry a s)"

definition output_resource_destroy :: "nat \<Rightarrow> 'a rstate_scheme \<Rightarrow> 'a rstate_scheme result" where
  "output_resource_destroy r s =
     andThen (out_data r s) (\<lambda>d. Inr (drop_resource r (case d of
       None \<Rightarrow> s
     | Some a \<Rightarrow>
         if ro_resource (rout s a) \<noteq> Some r then s
         else updro a (\<lambda>x. x\<lparr>ro_resource := None, ro_advertised := False\<rparr>) s)))"

definition layer_shell_get_output :: "nat \<Rightarrow> nat \<Rightarrow> 'a rstate_scheme \<Rightarrow> 'a rstate_scheme result" where
  "layer_shell_get_output shell r s =
     andThen (out_data r s) (\<lambda>d.
       if (case d of None \<Rightarrow> False | Some a \<Rightarrow> ro_layer_shell (rout s a) \<noteq> None)
       then Inr (send shell ObjectExistsError s)
       else
         Inr (case new_resource KLayerOutput d (version_of shell s) s of
                (None, s) \<Rightarrow> send shell NoMemory s
              | (Some l, s) \<Rightarrow>
                  (case d of
                     None \<Rightarrow> s
                   | Some a \<Rightarrow> send_output_geometry a (updro a (\<lambda>x. x\<lparr>ro_layer_shell := Some l\<rparr>) s))))"

definition layer_output_resource_destroy :: "nat \<Rightarrow> 'a rstate_scheme \<Rightarrow> 'a rstate_scheme result" where
  "layer_output_resource_destroy r s =
     andThen (out_data r s) (\<lambda>d. Inr (drop_resource r (case d of
       None \<Rightarrow> s
     | Some a \<Rightarrow>
         if ro_layer_shell (rout s a) \<noteq> Some r then s else updro a (\<lambda>x. x\<lparr>ro_layer_shell := None\<rparr>) s)))"

definition layer_shell_get_seat :: "nat \<Rightarrow> 'a rstate_scheme \<Rightarrow> 'a rstate_scheme" where
  "layer_shell_get_seat shell s =
     (if wm_layer_seat s \<noteq> None then send shell ObjectExistsError s
      else case new_resource KLayerSeat None (version_of shell s) s of
             (None, s) \<Rightarrow> send shell NoMemory s
           | (Some l, s) \<Rightarrow> s\<lparr>wm_layer_seat := Some l\<rparr>)"

definition layer_seat_resource_destroy :: "nat \<Rightarrow> 'a rstate_scheme \<Rightarrow> 'a rstate_scheme" where
  "layer_seat_resource_destroy r s =
     drop_resource r (if wm_layer_seat s = Some r then s\<lparr>wm_layer_seat := None\<rparr> else s)"

subsection \<open>The seat\<close>

definition seat_focus_window :: "nat option \<Rightarrow> 'a rstate_scheme \<Rightarrow> 'a rstate_scheme result" where
  "seat_focus_window window s =
     (case window of
        None \<Rightarrow> Inr (swc_window_focus None s)
      | Some r \<Rightarrow> on_window r (\<lambda>a s. Inr (swc_window_focus (rw_swc (rwin s a)) s)) s)"

definition seat_clear_focus :: "'a rstate_scheme \<Rightarrow> 'a rstate_scheme" where
  "seat_clear_focus s = swc_window_focus None s"

definition seat_resource_destroy :: "nat \<Rightarrow> 'a rstate_scheme \<Rightarrow> 'a rstate_scheme" where
  "seat_resource_destroy r s = drop_resource r (if wm_seat s = Some r then s\<lparr>wm_seat := None\<rparr> else s)"

definition advertise_seat :: "'a rstate_scheme \<Rightarrow> 'a rstate_scheme" where
  "advertise_seat s =
     (case wm_manager s of
        None \<Rightarrow> s
      | Some m \<Rightarrow>
          if wm_seat s \<noteq> None then s
          else case new_resource KSeat None (version_of m s) s of
                 (None, s) \<Rightarrow> send m NoMemory s
               | (Some r, s) \<Rightarrow>
                   let s = send m (NewSeat r) (s\<lparr>wm_seat := Some r\<rparr>);
                       s = (case en_seat_name (wm_env s) of None \<Rightarrow> s | Some name \<Rightarrow> send r (SeatName name) s)
                   in ensure_pointer_observer s)"

subsection \<open>Windows\<close>

definition window_close :: "nat \<Rightarrow> 'a rstate_scheme \<Rightarrow> 'a rstate_scheme result" where
  "window_close r = on_window r (\<lambda>a s. Inr (swc_window_close (the (rw_swc (rwin s a))) s))"

definition window_get_node :: "nat \<Rightarrow> 'a rstate_scheme \<Rightarrow> 'a rstate_scheme result" where
  "window_get_node r s =
     andThen (win_data r s) (\<lambda>d.
       Inr (case new_resource KNode d (version_of r s) s of
              (None, s) \<Rightarrow> send r NoMemory s
            | (Some n, s) \<Rightarrow>
                (case d of
                   None \<Rightarrow> s
                 | Some a \<Rightarrow>
                     let s = (case rw_node (rwin s a) of None \<Rightarrow> s | Some old \<Rightarrow> set_user_data old None s)
                     in updrw a (\<lambda>x. x\<lparr>rw_node := Some n\<rparr>) s)))"

definition window_propose_dimensions :: "nat \<Rightarrow> i32 \<Rightarrow> i32 \<Rightarrow> 'a rstate_scheme \<Rightarrow> 'a rstate_scheme result"
where
  "window_propose_dimensions r width height =
     on_window r (\<lambda>a s. Inr (updrw a (\<lambda>x. x\<lparr>rw_has_proposal := True, rw_width := width, rw_height := height\<rparr>) s))"

definition window_hide :: "nat \<Rightarrow> 'a rstate_scheme \<Rightarrow> 'a rstate_scheme result" where
  "window_hide r = on_window r (\<lambda>a s. fuelled (swc_window_hide (the (rw_swc (rwin s a))) s))"

definition window_show :: "nat \<Rightarrow> 'a rstate_scheme \<Rightarrow> 'a rstate_scheme result" where
  "window_show r = on_window r (\<lambda>a s. fuelled (swc_window_show (the (rw_swc (rwin s a))) s))"

definition window_fullscreen :: "nat \<Rightarrow> nat option \<Rightarrow> 'a rstate_scheme \<Rightarrow> 'a rstate_scheme result" where
  "window_fullscreen r output =
     on_window r (\<lambda>a s.
       andThen (case output of None \<Rightarrow> Inr None | Some o' \<Rightarrow> out_data o' s) (\<lambda>target.
         Inr (case target of
                None \<Rightarrow> s
              | Some t \<Rightarrow>
                  with_done (swc_window_set_fullscreen (rw_swc (rwin s a))
                               (Some (en_usable (wm_env s) (ro_swc (rout s t))))) s)))"

definition window_exit_fullscreen :: "nat \<Rightarrow> 'a rstate_scheme \<Rightarrow> 'a rstate_scheme result" where
  "window_exit_fullscreen r =
     on_window r (\<lambda>a s. Inr (with_done (swc_window_set_fullscreen (rw_swc (rwin s a)) None) s))"

text \<open>The protocol has 16 bits per channel, \<open>swc\<close> has 8.\<close>

definition border_argb :: "u32 \<Rightarrow> u32 \<Rightarrow> u32 \<Rightarrow> u32 \<Rightarrow> u32" where
  "border_argb r g b a =
     push_bit 24 (drop_bit 8 a AND 0xff) OR push_bit 16 (drop_bit 8 r AND 0xff) OR
     push_bit 8 (drop_bit 8 g AND 0xff) OR (drop_bit 8 b AND 0xff)"

definition window_set_borders ::
  "nat \<Rightarrow> i32 \<Rightarrow> u32 \<Rightarrow> u32 \<Rightarrow> u32 \<Rightarrow> u32 \<Rightarrow> 'a rstate_scheme \<Rightarrow> 'a rstate_scheme result" where
  "window_set_borders res width r g b a =
     on_window res (\<lambda>x s. Inr (swc_window_set_border (the (rw_swc (rwin s x))) (border_argb r g b a)
                                  (if sint width < 0 then 0 else width) 0 0 s))"

definition window_set_tiled :: "nat \<Rightarrow> 'a rstate_scheme \<Rightarrow> 'a rstate_scheme result" where
  "window_set_tiled r = on_window r (\<lambda>a s. swc_window_set_tiled (the (rw_swc (rwin s a))) s)"

definition window_set_box ::
  "nat \<Rightarrow> i32 \<Rightarrow> i32 \<Rightarrow> i32 \<Rightarrow> i32 \<Rightarrow> 'a rstate_scheme \<Rightarrow> 'a rstate_scheme result" where
  "window_set_box r x y width height s =
     (if sint width < 0 \<or> sint height < 0 then Inr (send r InvalidClipBoxError s)
      else on_window r (\<lambda>a s. Inr (swc_window_set_clip_box (rw_swc (rwin s a)) x y width height s)) s)"

definition window_set_content_box ::
  "nat \<Rightarrow> i32 \<Rightarrow> i32 \<Rightarrow> i32 \<Rightarrow> i32 \<Rightarrow> 'a rstate_scheme \<Rightarrow> 'a rstate_scheme result" where
  "window_set_content_box r x y width height s =
     (if sint width < 0 \<or> sint height < 0 then Inr (send r InvalidClipBoxError s)
      else on_window r (\<lambda>a s. Inr (swc_window_set_content_clip_box (rw_swc (rwin s a)) x y width height s)) s)"

definition window_resource_destroy :: "nat \<Rightarrow> 'a rstate_scheme \<Rightarrow> 'a rstate_scheme result" where
  "window_resource_destroy r s =
     andThen (win_data r s) (\<lambda>d. Inr (drop_resource r (case d of
       None \<Rightarrow> s
     | Some a \<Rightarrow>
         if rw_resource (rwin s a) \<noteq> Some r then s
         else maybe_free_window a (updrw a (\<lambda>x. x\<lparr>rw_resource := None, rw_advertised := False\<rparr>) s))))"

subsection \<open>Sequencing\<close>

definition advertise_window :: "addr \<Rightarrow> 'a rstate_scheme \<Rightarrow> 'a rstate_scheme" where
  "advertise_window a s =
     (case wm_manager s of
        None \<Rightarrow> s
      | Some m \<Rightarrow>
          if rw_advertised (rwin s a) then s
          else case new_resource KWindow (Some a) (version_of m s) s of
                 (None, s) \<Rightarrow> send m NoMemory (updrw a (\<lambda>x. x\<lparr>rw_resource := None\<rparr>) s)
               | (Some r, s) \<Rightarrow>
                   let s = updrw a (\<lambda>x. x\<lparr>rw_resource := Some r, rw_advertised := True\<rparr>) s;
                       s = send m (NewWindow r) s;
                       w = win s (the (rw_swc (rwin s a)));
                       s = (case w_title w of None \<Rightarrow> s | Some t \<Rightarrow> send r (Title t) s);
                       s = (case w_app_id w of None \<Rightarrow> s | Some t \<Rightarrow> send r (AppId t) s);
                       s = send r (DimensionsHint (w_min_w w) (w_min_h w) (w_max_w w) (w_max_h w)) s
                   in case swc_window_get_geometry (rw_swc (rwin s a)) s of
                        None \<Rightarrow> s
                      | Some g \<Rightarrow>
                          send r (Dimensions (r_w g) (r_h g))
                            (updrw a (\<lambda>x. x\<lparr>rw_sent_width := r_w g, rw_sent_height := r_h g\<rparr>) s))"

definition swc_cursor_position :: "'a rstate_scheme \<Rightarrow> (i32 \<times> i32) option" where
  "swc_cursor_position s = (if en_cursor (wm_env s) then Some (ws_px s, ws_py s) else None)"

definition send_pointer_position :: "'a rstate_scheme \<Rightarrow> 'a rstate_scheme" where
  "send_pointer_position s =
     (case wm_seat s of
        None \<Rightarrow> s
      | Some seat \<Rightarrow>
          if version_of seat s < 2 then s
          else case swc_cursor_position s of
                 None \<Rightarrow> s
               | Some (fx, fy) \<Rightarrow>
                   let x = fixed_to_int fx; y = fixed_to_int fy
                   in if wm_pointer s = Some (x, y) then s
                      else send seat (PointerPosition x y) (s\<lparr>wm_pointer := Some (x, y)\<rparr>))"

definition begin_manage :: "'a rstate_scheme \<Rightarrow> 'a rstate_scheme result" where
  "begin_manage s =
     (case wm_manager s of
        None \<Rightarrow> Inr s
      | Some m \<Rightarrow>
          if wm_phase s \<noteq> PHASE_IDLE then Inr s
          else
            let s = fold advertise_output (wm_outputs s) s;
                s = advertise_seat s;
                s = fold (\<lambda>a s. updrw a (\<lambda>x. x\<lparr>rw_has_proposal := False\<rparr>) (advertise_window a s)) (wm_windows s) s;
                s = send_pointer_position s
            in andThen (flush_binding_events (wm_queue s) s)
                 (\<lambda>s. Inr (send m ManageStart (s\<lparr>wm_dirty := False, wm_phase := PHASE_MANAGE\<rparr>))))"

definition handle_idle :: "'a rstate_scheme \<Rightarrow> 'a rstate_scheme result" where
  "handle_idle s = begin_manage (s\<lparr>wm_idle := False\<rparr>)"

subsection \<open>The manager\<close>

definition apply_proposal :: "addr \<Rightarrow> 'a rstate_scheme \<Rightarrow> 'a rstate_scheme" where
  "apply_proposal a s =
     (let x = rwin s a
      in if \<not> rw_has_proposal x \<or> rw_closed x then s
         else if sint (rw_width x) \<le> 0 \<or> sint (rw_height x) \<le> 0 then s
         else case swc_window_get_geometry (rw_swc x) s of
                None \<Rightarrow> s
              | Some g \<Rightarrow>
                  with_done (swc_window_set_geometry (rw_swc x) (g\<lparr>r_w := rw_width x, r_h := rw_height x\<rparr>)) s)"

definition manager_manage_finish :: "nat \<Rightarrow> 'a rstate_scheme \<Rightarrow> 'a rstate_scheme" where
  "manager_manage_finish r s =
     (if wm_phase s \<noteq> PHASE_MANAGE then send r SequenceOrderError s
      else
        let s = s\<lparr>wm_phase := PHASE_SETTLE\<rparr>;
            mem = (if ws_mem s then Some (wm_next_addr s) else None);
            s = snd (swc_transaction_begin mem (s\<lparr>wm_next_addr := wm_next_addr s + 1\<rparr>));
            s = fold apply_proposal (wm_windows s) s
        in with_done (swc_transaction_commit 100 (Some 0)) s)"

definition manager_render_finish :: "nat \<Rightarrow> 'a rstate_scheme \<Rightarrow> 'a rstate_scheme" where
  "manager_render_finish r s =
     (if wm_phase s \<noteq> PHASE_RENDER then send r SequenceOrderError s
      else
        let s = (swc_transaction_present s)\<lparr>wm_phase := PHASE_IDLE\<rparr>
        in if wm_dirty s then schedule_sequence s else s)"

definition manager_manage_dirty :: "'a rstate_scheme \<Rightarrow> 'a rstate_scheme" where
  "manager_manage_dirty s = schedule_sequence s"

definition manager_stop :: "nat \<Rightarrow> 'a rstate_scheme \<Rightarrow> 'a rstate_scheme" where
  "manager_stop r s = send r Finished s"

definition manager_exit_session :: "'a rstate_scheme \<Rightarrow> 'a rstate_scheme" where
  "manager_exit_session s = s\<lparr>wm_terminated := True\<rparr>"

definition manager_resource_destroy :: "nat \<Rightarrow> 'a rstate_scheme \<Rightarrow> 'a rstate_scheme" where
  "manager_resource_destroy r s =
     drop_resource r
       (if wm_manager s \<noteq> Some r then s
        else
          let s = s\<lparr>wm_manager := None, wm_phase := PHASE_IDLE\<rparr>;
              s = fold (\<lambda>a. updrw a (\<lambda>x. x\<lparr>rw_resource := None, rw_node := None, rw_advertised := False\<rparr>)) (wm_windows s) s;
              s = fold (\<lambda>a. updro a (\<lambda>x. x\<lparr>ro_resource := None, ro_advertised := False\<rparr>)) (wm_outputs s) s
          in s\<lparr>wm_seat := None\<rparr>)"

definition bind_manager :: "nat \<Rightarrow> 'a rstate_scheme \<Rightarrow> 'a rstate_scheme" where
  "bind_manager version s =
     (let old = wm_manager s
      in case new_resource (if old \<noteq> None then KRejected else KManager) None version s of
           (None, s) \<Rightarrow> s
         | (Some r, s) \<Rightarrow>
             if old \<noteq> None then send r Unavailable s
             else schedule_sequence (s\<lparr>wm_manager := Some r\<rparr>))"

subsection \<open>Surfaces of the manager\<close>

text \<open>\<open>mem\<close> is the address of the new view, \<open>surface\<close> the surface, \<open>None\<close> when it is none of ours.\<close>

definition manager_get_shell_surface ::
  "nat \<Rightarrow> addr option \<Rightarrow> addr option \<Rightarrow> 'a rstate_scheme \<Rightarrow> 'a rstate_scheme result" where
  "manager_get_shell_surface r mem surface s =
     (if \<not> ws_mem s then Inr (send r NoMemory s)
      else
        let a = wm_next_addr s; s = s\<lparr>wm_next_addr := a + 1\<rparr>;
            (view, s) = swc_shell_surface_create (ws_renderer s (the mem)) mem surface s
        in case view of
             None \<Rightarrow> Inr (send r RoleError s)
           | Some v \<Rightarrow>
               (case new_resource KShellSurface (Some a) (version_of r s) s of
                  (None, s) \<Rightarrow> andThen (fuelled (swc_shell_surface_destroy (ws_renderer s v) (Some v) s))
                                 (\<lambda>s. Inr (send r NoMemory s))
                | (Some n, s) \<Rightarrow>
                    let s = s\<lparr>wm_shell := (wm_shell s)(a \<mapsto> \<lparr>rs_resource = n, rs_node = None, rs_swc = v\<rparr>)\<rparr>
                    in fuelled (swc_shell_surface_show (Some v) (swc_shell_surface_set_stack_layer (Some v) 3 s))))"

definition shell_surface_get_node :: "nat \<Rightarrow> 'a rstate_scheme \<Rightarrow> 'a rstate_scheme result" where
  "shell_surface_get_node r s =
     andThen (shell_data r s) (\<lambda>d.
       if (case d of None \<Rightarrow> False | Some a \<Rightarrow> rs_node (the (wm_shell s a)) \<noteq> None)
       then Inr (send r NodeExistsError s)
       else
         Inr (case new_resource KShellNode d (version_of r s) s of
                (None, s) \<Rightarrow> send r NoMemory s
              | (Some n, s) \<Rightarrow>
                  (case d of
                     None \<Rightarrow> s
                   | Some a \<Rightarrow> s\<lparr>wm_shell := (wm_shell s)(a := map_option (\<lambda>x. x\<lparr>rs_node := Some n\<rparr>) (wm_shell s a))\<rparr>)))"

definition on_shell ::
  "nat \<Rightarrow> (addr \<Rightarrow> 'a rstate_scheme \<Rightarrow> 'a rstate_scheme) \<Rightarrow> 'a rstate_scheme \<Rightarrow> 'a rstate_scheme result" where
  "on_shell r f s =
     andThen (shell_data r s) (\<lambda>d. Inr (case d of None \<Rightarrow> s | Some a \<Rightarrow> f (rs_swc (the (wm_shell s a))) s))"

definition shell_node_set_position :: "nat \<Rightarrow> i32 \<Rightarrow> i32 \<Rightarrow> 'a rstate_scheme \<Rightarrow> 'a rstate_scheme result" where
  "shell_node_set_position r x y = on_shell r (\<lambda>v. swc_shell_surface_set_position (Some v) x y)"

definition shell_node_place_top :: "nat \<Rightarrow> 'a rstate_scheme \<Rightarrow> 'a rstate_scheme result" where
  "shell_node_place_top r = on_shell r (\<lambda>v. swc_shell_surface_raise (Some v))"

definition shell_node_place_bottom :: "nat \<Rightarrow> 'a rstate_scheme \<Rightarrow> 'a rstate_scheme result" where
  "shell_node_place_bottom r = on_shell r (\<lambda>v. swc_shell_surface_lower (Some v))"

definition shell_node_resource_destroy :: "nat \<Rightarrow> 'a rstate_scheme \<Rightarrow> 'a rstate_scheme result" where
  "shell_node_resource_destroy r s =
     andThen (shell_data r s) (\<lambda>d. Inr (drop_resource r (case d of
       None \<Rightarrow> s
     | Some a \<Rightarrow>
         if rs_node (the (wm_shell s a)) \<noteq> Some r then s
         else s\<lparr>wm_shell := (wm_shell s)(a := map_option (\<lambda>x. x\<lparr>rs_node := None\<rparr>) (wm_shell s a))\<rparr>)))"

definition shell_surface_resource_destroy :: "nat \<Rightarrow> 'a rstate_scheme \<Rightarrow> 'a rstate_scheme result" where
  "shell_surface_resource_destroy r s =
     andThen (shell_data r s) (\<lambda>d. case d of
       None \<Rightarrow> Inr (drop_resource r s)
     | Some a \<Rightarrow>
         let x = the (wm_shell s a)
         in andThen (fuelled (swc_shell_surface_destroy (ws_renderer s (rs_swc x)) (Some (rs_swc x)) s)) (\<lambda>s.
              let s = (case rs_node x of None \<Rightarrow> s | Some n \<Rightarrow> set_user_data n None s)
              in Inr (drop_resource r (s\<lparr>wm_shell := (wm_shell s)(a := None)\<rparr>))))"

subsection \<open>What \<open>libswc\<close> calls\<close>

definition river_wm_add_screen :: "nat \<Rightarrow> 'a rstate_scheme \<Rightarrow> 'a rstate_scheme" where
  "river_wm_add_screen screen s =
     (if \<not> ws_mem s then s
      else
        let a = wm_next_addr s;
            s = s\<lparr>wm_next_addr := a + 1, wm_outputs := wm_outputs s @ [a], wm_out := (wm_out s)(a \<mapsto>
                  \<lparr>ro_resource = None, ro_layer_shell = None, ro_swc = screen, ro_advertised = False\<rparr>)\<rparr>;
            s = (if wm_screen s = None then s\<lparr>wm_screen := Some screen\<rparr> else s)
        in schedule_sequence s)"

definition handle_screen_destroy :: "addr \<Rightarrow> 'a rstate_scheme \<Rightarrow> 'a rstate_scheme" where
  "handle_screen_destroy a s =
     (let x = rout s a;
          s = (case ro_resource x of None \<Rightarrow> s | Some r \<Rightarrow> set_user_data r None (send r Removed s));
          s = (if wm_screen s = Some (ro_swc x) then s\<lparr>wm_screen := None\<rparr> else s)
      in schedule_sequence (s\<lparr>wm_outputs := remove1 a (wm_outputs s), wm_out := (wm_out s)(a := None)\<rparr>))"

definition handle_screen_geometry :: "addr \<Rightarrow> 'a rstate_scheme \<Rightarrow> 'a rstate_scheme" where
  "handle_screen_geometry a s = schedule_sequence (send_output_geometry a s)"

definition handle_window_destroy :: "addr \<Rightarrow> 'a rstate_scheme \<Rightarrow> 'a rstate_scheme" where
  "handle_window_destroy a s =
     (let s = updrw a (\<lambda>x. x\<lparr>rw_closed := True, rw_swc := None\<rparr>) s;
          s = s\<lparr>wm_windows := remove1 a (wm_windows s)\<rparr>;
          s = (case rw_resource (rwin s a) of None \<Rightarrow> s | Some r \<Rightarrow> send r Closed s)
      in schedule_sequence (maybe_free_window a s))"

definition handle_window_title :: "addr \<Rightarrow> 'a rstate_scheme \<Rightarrow> 'a rstate_scheme" where
  "handle_window_title a s =
     (case (rw_resource (rwin s a), w_title (win s (the (rw_swc (rwin s a))))) of
        (Some r, Some t) \<Rightarrow> schedule_sequence (send r (Title t) s)
      | _ \<Rightarrow> s)"

definition handle_window_app_id :: "addr \<Rightarrow> 'a rstate_scheme \<Rightarrow> 'a rstate_scheme" where
  "handle_window_app_id a s =
     (case (rw_resource (rwin s a), w_app_id (win s (the (rw_swc (rwin s a))))) of
        (Some r, Some t) \<Rightarrow> schedule_sequence (send r (AppId t) s)
      | _ \<Rightarrow> s)"

definition handle_window_entered :: "addr \<Rightarrow> 'a rstate_scheme \<Rightarrow> 'a rstate_scheme" where
  "handle_window_entered a s =
     (case (wm_seat s, rw_resource (rwin s a)) of
        (Some seat, Some r) \<Rightarrow> send seat (PointerEnter r) s
      | _ \<Rightarrow> s)"

definition handle_window_left :: "addr \<Rightarrow> 'a rstate_scheme \<Rightarrow> 'a rstate_scheme" where
  "handle_window_left a s = (case wm_seat s of None \<Rightarrow> s | Some seat \<Rightarrow> send seat PointerLeave s)"

definition river_handler :: "hfun \<Rightarrow> bool" where
  "river_handler f \<longleftrightarrow> f \<in> {HDestroy, HTitle, HAppId, HEntered, HLeft}"

definition river_wm_add_window :: "addr \<Rightarrow> 'a rstate_scheme \<Rightarrow> 'a rstate_scheme result" where
  "river_wm_add_window w s =
     (if \<not> ws_mem s then Inr s
      else
        let a = wm_next_addr s;
            s = s\<lparr>wm_next_addr := a + 1, wm_windows := wm_windows s @ [a], wm_win := (wm_win s)(a \<mapsto>
                  \<lparr>rw_resource = None, rw_node = None, rw_swc = Some w, rw_advertised = False, rw_closed = False,
                   rw_has_proposal = False, rw_width = 0, rw_height = 0, rw_sent_width = 0, rw_sent_height = 0\<rparr>)\<rparr>;
            s = swc_window_set_handler w river_handler s
        in andThen (swc_window_set_tiled w s) (\<lambda>s.
           andThen (fuelled (swc_window_show w s)) (\<lambda>s. Inr (schedule_sequence s))))"

text \<open>\<open>wm\<close> is static: what \<open>river_wm_create\<close> does not initialise is zero. The globals are not
  modelled.\<close>

definition river_wm_create :: "wstate \<Rightarrow> renv \<Rightarrow> rstate" where
  "river_wm_create s env =
     wstate.extend s (rstate.fields None False PHASE_IDLE False [] [] None None None [] None False 0 None []
       False False (\<lambda>_. None) (\<lambda>_. None) (\<lambda>_. None) (\<lambda>_. None) (\<lambda>_. None) 0 1 bindings_initialize [] False env)"

end
