(* ===== verification/RiverFrames.thy ===== *)
theory RiverFrames
  imports River
begin

text \<open>
  What the operations of \<open>libswc\<close> leave alone for the bridge above it. \<open>drives c s s'\<close> says that
  \<open>s'\<close> comes from \<open>s\<close> by work of \<open>window.c\<close> and the compositor: the bridge's own state is
  untouched, and the completion of the cohort was reported only if \<open>c\<close>, at most once, and only to
  a callback that was waiting for it.
\<close>

definition drives :: "bool \<Rightarrow> 'a wstate_scheme \<Rightarrow> 'a wstate_scheme \<Rightarrow> bool" where
  "drives c s s' \<longleftrightarrow>
     wstate.more s' = wstate.more s \<and> ws_mem s' = ws_mem s \<and>
     (ws_done s' = ws_done s \<and> ws_reports s' = ws_reports s \<or>
      c \<and> ws_done s' = None \<and>
      (\<exists>cb timed_out. ws_done s = Some cb \<and> ws_reports s' = ws_reports s @ [(cb, timed_out)]))"

named_theorems drive_intros \<open>operations that leave the bridge alone\<close>

lemma drives_refl [simp, intro, drive_intros]: "drives c s s"
  by (simp add: drives_def)

lemma drives_trans: "drives c s t \<Longrightarrow> drives c t u \<Longrightarrow> drives c s u"
  by (auto simp: drives_def)

text \<open>An operation of the compositor changes nothing above it.\<close>

lemma comp_more_eq:
  assumes "comp.more t = comp.more (s :: 'a wstate_scheme)"
  shows "wstate.more t = wstate.more s" "ws_mem t = ws_mem s" "ws_done t = ws_done s"
    "ws_reports t = ws_reports s" "ws_win t = ws_win s"
  using assms
  unfolding wstate.ws_mem_def wstate.ws_done_def wstate.ws_reports_def wstate.ws_win_def wstate.more_def
    comp.more_def comp_def id_def
  by argo+

lemma drives_comp: "drives c s t \<Longrightarrow> comp.more u = comp.more t \<Longrightarrow> drives c s u"
  by (erule drives_trans) (simp add: drives_def comp_more_eq[of u t])

lemma drives_requests: "drives c s t \<Longrightarrow> requests t u \<Longrightarrow> drives c s u"
  by (erule drives_comp) (simp add: requests_def)

lemma drives_same:
  assumes "drives c s t" "wstate.more u = wstate.more t" "ws_mem u = ws_mem t" "ws_done u = ws_done t"
    "ws_reports u = ws_reports t"
  shows "drives c s u"
  using assms by (auto simp: drives_def)

lemma drives_updw [drive_intros]: "drives c s t \<Longrightarrow> drives c s (updw w f t)"
  by (erule drives_same) (simp_all add: updw_def)

lemma drives_fields [drive_intros]:
  assumes "drives c s t"
  shows "drives c s (t\<lparr>ws_trans := tr\<rparr>)" "drives c s (t\<lparr>ws_cohort := ws\<rparr>)" "drives c s (t\<lparr>ws_present := ws\<rparr>)"
    "drives c s (t\<lparr>ws_focus := v\<rparr>)" "drives c s (t\<lparr>ws_handlers := hs\<rparr>)" "drives c s (t\<lparr>ws_buttons := bs\<rparr>)"
    "drives c s (t\<lparr>ws_ptr_calls := cs\<rparr>)"
  by (rule drives_same[OF assms]; simp)+

lemma drives_emit [drive_intros]: "drives c s t \<Longrightarrow> drives c s (emit w e t)"
  by (erule drives_same) (simp_all add: emit_def)

lemma drives_set_mode [drive_intros]: "drives c s t \<Longrightarrow> drives c s (set_window_mode w m t)"
  by (erule drives_same) (simp_all add: set_window_mode_def)

lemma drives_call_handler [drive_intros]: "drives c s t \<Longrightarrow> drives c s (call_handler w f t)"
  by (simp add: call_handler_def drive_intros)

lemma drives_fold [drive_intros]:
  "drives c s t \<Longrightarrow> (\<And>x t. drives c s t \<Longrightarrow> drives c s (f x t)) \<Longrightarrow> drives c s (fold f xs t)"
  by (induction xs arbitrary: t) auto

lemma drives_send_configure [drive_intros]: "drives c s t \<Longrightarrow> drives c s (snd (send_configure w x y t))"
  by (rule drives_same, assumption) (simp_all add: send_configure_def Let_def emit_def)

lemma drives_states [drive_intros]:
  "drives c s t \<Longrightarrow> drives c s (snd (add_state w m t))" "drives c s t \<Longrightarrow> drives c s (snd (remove_state w m t))"
  by (simp_all add: add_state_def remove_state_def drives_updw)

lemma drives_xdg_configure [drive_intros]: "drives c s t \<Longrightarrow> drives c s (xdg_configure w x y t)"
  unfolding xdg_configure_def Let_def split_def by (intro drive_intros)

lemma drives_xdg_set_mode [drive_intros]: "drives c s t \<Longrightarrow> drives c s (xdg_set_mode w m t)"
  unfolding xdg_set_mode_def Let_def
  by (cases "c_mode t w"; cases m; simp add: drive_intros)

lemma drives_impl [drive_intros]:
  assumes "drives c s t"
  shows "drives c s (impl_move w x y t)" "drives c s (impl_configure w cw ch t)" "drives c s (impl_focus w t)"
    "drives c s (impl_unfocus w t)" "drives c s (impl_close w t)" "drives c s (impl_set_mode w m t)"
  using assms
  by (cases "w_impl (win t w)"; simp add: impl_move_def impl_configure_def impl_focus_def impl_unfocus_def
      impl_close_def impl_set_mode_def shell_configure_def xwl_configure_def xdg_focus_def xdg_unfocus_def
      xdg_send_size_def Let_def drive_intros)+

subsection \<open>The operations of \<open>window.c\<close>\<close>

lemma drives_comp_ops [drive_intros]:
  assumes "drives c s t"
  shows "drives c s (view_move v x y t)" "drives c s (surface_hold_render n f t)"
    "drives c s (surface_release_render rs n f t)" "drives c s (surface_apply_pending r f t)"
    "drives c s (compositor_damage_all t)" "drives c s (compositor_view_set_border_width v ow iw t)"
    "drives c s (compositor_view_set_border_color v oc ic t)" "drives c s (set_clip_box content v cx cy cw ch t)"
    "drives c s (swc_window_raise vo t)" "drives c s (swc_window_lower vo t)"
    "drives c s (compositor_view_restack vo wo b t)" "drives c s (compositor_view_set_stack_layer v l b t)"
proof -
  show "drives c s (view_move v x y t)" "drives c s (surface_hold_render n f t)"
    "drives c s (surface_release_render rs n f t)" "drives c s (surface_apply_pending r f t)"
    "drives c s (compositor_damage_all t)" "drives c s (compositor_view_set_border_width v ow iw t)"
    "drives c s (compositor_view_set_border_color v oc ic t)" "drives c s (set_clip_box content v cx cy cw ch t)"
    "drives c s (compositor_view_set_stack_layer v l b t)"
    by (rule drives_requests[OF assms]; simp add: request_intros)+
  show "drives c s (swc_window_raise vo t)" "drives c s (swc_window_lower vo t)"
    by (rule drives_requests[OF assms]; auto simp: swc_window_raise_def swc_window_lower_def
        intro!: request_intros split: option.split)+
  show "drives c s (compositor_view_restack vo wo b t)"
    by (rule drives_requests[OF assms]) (rule requests_sibling, simp)
qed

lemma drives_clip_boxes [drive_intros]:
  assumes "drives c s t"
  shows "drives c s (compositor_view_set_clip_box v x y w h t)"
    "drives c s (compositor_view_set_content_clip_box v x y w h t)"
  using assms by (simp_all add: compositor_view_set_clip_box_def compositor_view_set_content_clip_box_def drive_intros)

lemma drives_hide: "compositor_view_hide v t = Some u \<Longrightarrow> drives c s t \<Longrightarrow> drives c s u"
  unfolding compositor_view_hide_def by (rule drives_requests, assumption, rule requests_hide_walk(1))

lemma drives_show: "compositor_view_show v t = Some u \<Longrightarrow> drives c s t \<Longrightarrow> drives c s u"
  unfolding compositor_view_show_def by (rule drives_requests, assumption, rule requests_show_walk(1))

lemma drives_destroy: "compositor_view_destroy r v t = Some u \<Longrightarrow> drives c s t \<Longrightarrow> drives c s u"
  by (rule drives_comp, assumption, rule requests_destroy)

lemma drives_flush [drive_intros]: "drives c s t \<Longrightarrow> drives c s (flush w t)"
  by (simp add: flush_def Let_def drive_intros)

lemma drives_run_note [drive_intros]: "drives c s t \<Longrightarrow> drives c s (run_note vn t)"
  by (auto simp: run_note_def handle_attach_def handle_resize_def Let_def intro!: drive_intros
      split: option.split vnote.split)

lemma drives_with_handlers [drive_intros]:
  "drives c s (f t) \<Longrightarrow> drives c s (with_handlers f t)"
  by (simp add: with_handlers_def Let_def drive_intros)

lemma drives_hold [drive_intros]: "drives c s t \<Longrightarrow> drives c s (hold_window w t)"
  unfolding hold_window_def by (rule drive_intros)

lemma drives_release [drive_intros]: "drives c s t \<Longrightarrow> drives c s (release_window w t)"
  unfolding release_window_def by (intro drive_intros)

lemma drives_window_commit [drive_intros]: "drives c s t \<Longrightarrow> drives c s (window_commit r f t)"
  by (simp add: window_commit_def drive_intros)

lemma drives_park [drive_intros]: "drives c s t \<Longrightarrow> drives c s (park_window o' w t)"
  by (erule drives_same) (simp_all add: park_window_def Let_def updw_def)

lemma drives_transaction_done [drive_intros]: "drives True s t \<Longrightarrow> drives True s (transaction_done b t)"
proof (erule drives_trans)
  define u where "u = fold (park_window (map_option snd (ws_trans t))) (ws_cohort t) t"
  have u: "wstate.more u = wstate.more t" "ws_mem u = ws_mem t" "ws_done u = ws_done t" "ws_reports u = ws_reports t"
  proof -
    have "wstate.more (fold (park_window o') xs t) = wstate.more t \<and> ws_mem (fold (park_window o') xs t) = ws_mem t \<and>
        ws_done (fold (park_window o') xs t) = ws_done t \<and> ws_reports (fold (park_window o') xs t) = ws_reports t" for o' xs
      by (induction xs arbitrary: t) (simp_all add: park_window_def Let_def updw_def)
    then show "wstate.more u = wstate.more t" "ws_mem u = ws_mem t" "ws_done u = ws_done t" "ws_reports u = ws_reports t"
      by (simp_all add: u_def)
  qed
  then show "drives True t (transaction_done b t)"
    by (auto simp: transaction_done_def Let_def u_def[symmetric] drives_def split: option.split)
qed

lemma drives_settled [drive_intros]: "drives True s t \<Longrightarrow> drives True s (settled r t)"
  by (auto simp: settled_def Let_def intro!: drives_transaction_done split: option.split elim!: drives_same)

lemma drives_unlink [drive_intros]: "drives True s t \<Longrightarrow> drives True s (unlink w t)"
  by (erule drives_same) (simp_all add: unlink_def)

lemma drives_leave [drive_intros]: "drives True s t \<Longrightarrow> drives True s (leave_transaction w t)"
  by (auto simp: leave_transaction_def Let_def intro!: drive_intros split: option.split)

lemma drives_join [drive_intros]: "drives True s t \<Longrightarrow> drives True s (join_transaction w b t)"
  by (auto simp: join_transaction_def Let_def split_def intro!: drive_intros split: option.split)

lemma drives_present [drive_intros]: "drives True s t \<Longrightarrow> drives True s (present_cohort t)"
proof -
  have "drives True s u \<Longrightarrow> drives True s (present_window w u)" for w u
    by (auto simp: present_window_def Let_def intro!: drive_intros)
  then show "drives True s t \<Longrightarrow> drives True s (present_cohort t)"
    unfolding present_cohort_def by (intro drives_fold)
qed

lemma drives_cohort_ops [drive_intros]:
  assumes "drives True s t"
  shows "drives True s (snd (swc_transaction_begin mem t))" "drives True s (swc_transaction_present t)"
    "drives True s (transaction_timeout t)" "drives True s (window_ack_configure w t)"
proof -
  have p: "drives True s (present_cohort (t\<lparr>ws_present := [], ws_present_init := True\<rparr>))"
    by (rule drives_present, rule drives_same[OF assms]) simp_all
  show "drives True s (snd (swc_transaction_begin mem t))"
    using assms p drives_present[OF assms]
    by (auto simp: swc_transaction_begin_def Let_def split: option.split intro: drives_same)
  show "drives True s (swc_transaction_present t)"
    using assms by (simp add: swc_transaction_present_def drive_intros)
  show "drives True s (transaction_timeout t)"
    using assms by (auto simp: transaction_timeout_def intro!: drive_intros split: option.split)
  show "drives True s (window_ack_configure w t)"
    using assms by (simp add: window_ack_configure_def Let_def drive_intros)
qed

lemma drives_commit:
  "drives True (t\<lparr>ws_done := cb\<rparr>) (if ws_trans t = None then t\<lparr>ws_done := cb\<rparr> else swc_transaction_commit ms cb t)"
  by (auto simp: swc_transaction_commit_def Let_def intro!: drive_intros split: option.split)

lemma drives_set_position [drive_intros]: "drives True s t \<Longrightarrow> drives True s (swc_window_set_position base x y t)"
  by (auto simp: swc_window_set_position_def Let_def intro!: drive_intros split: option.split)

lemma drives_set_size [drive_intros]: "drives True s t \<Longrightarrow> drives True s (swc_window_set_size base w h t)"
  by (auto simp: swc_window_set_size_def reconfigured_def Let_def split_def intro!: drive_intros split: option.split)

lemma drives_set_geometry [drive_intros]: "drives True s t \<Longrightarrow> drives True s (swc_window_set_geometry base g t)"
  by (simp add: swc_window_set_geometry_def drive_intros)

lemma drives_set_fullscreen [drive_intros]: "drives True s t \<Longrightarrow> drives True s (swc_window_set_fullscreen base g t)"
  by (auto simp: swc_window_set_fullscreen_def Let_def intro!: drive_intros split: option.split)

lemma drives_focus [drive_intros]:
  assumes "drives c s t"
  shows "drives c s (swc_window_focus base t)"
proof -
  have "drives c s u \<Longrightarrow> drives c s (u\<lparr>ws_focus := v\<rparr>)" for u v by (erule drives_same) simp_all
  with assms show ?thesis
    by (auto simp: swc_window_focus_def Let_def intro!: drive_intros split: option.split)
qed

lemma drives_window_ops [drive_intros]:
  assumes "drives c s t"
  shows "drives c s (swc_window_close w t)" "drives c s (swc_window_set_border w ic iw oc ow t)"
    "drives c s (swc_window_set_handler w h t)" "drives c s (swc_window_set_clip_box base x y cw ch t)"
    "drives c s (swc_window_set_content_clip_box base x y cw ch t)" "drives c s (swc_window_restack vo wo b t)"
  using assms
  by (auto simp: swc_window_close_def swc_window_set_border_def swc_window_set_handler_def swc_window_set_clip_box_def
      swc_window_set_content_clip_box_def swc_window_restack_def Let_def intro!: drive_intros split: option.split)

lemma drives_set_interaction [drive_intros]: "drives c s t \<Longrightarrow> drives c s (set_interaction h f t)"
  by (cases h) (simp_all add: drive_intros)

lemma drives_remove_interaction [drive_intros]: "drives c s t \<Longrightarrow> drives c s (remove_interaction h t)"
  by (simp add: remove_interaction_def Let_def drive_intros)

lemma drives_call_pointer [drive_intros]: "drives c s t \<Longrightarrow> drives c s (call_pointer k b t)"
  by (simp add: call_pointer_def drive_intros)

lemma drives_end_interaction: "end_interaction n h b t = Inr u \<Longrightarrow> drives c s t \<Longrightarrow> drives c s u"
proof (induction n arbitrary: h b t u)
  case (Suc n)
  have "drives c s t' \<Longrightarrow> end_interaction n h' b' t = Inr t' \<Longrightarrow> drives c s (remove_interaction h t')" for t' h' b'
    by (simp add: drive_intros)
  with Suc show ?case
    by (auto simp: andThen_Inr intro: drive_intros split: option.splits hid.splits if_splits)
qed simp

lemma drives_set_tiled: "swc_window_set_tiled w t = Inr u \<Longrightarrow> drives c s t \<Longrightarrow> drives c s u"
  by (auto simp: swc_window_set_tiled_def andThen_Inr intro!: drive_intros dest!: drives_end_interaction)

lemma drives_create [drive_intros]:
  assumes "drives c s t"
  shows "drives c s (snd (swc_shell_surface_create r mem f t))"
proof -
  have "comp.more (snd (compositor_create_view r mem g t)) = comp.more t" for g
  proof (cases mem)
    case (Some v)
    let ?t = "t\<lparr>c_heap := (c_heap t)(v \<mapsto> initial_view g)\<rparr>"
    have "requests ?t (surface_set_view r g (Some v) ?t)" by (simp add: request_intros)
    then show ?thesis using Some by (simp add: compositor_create_view_def Let_def requests_def)
  qed (simp add: compositor_create_view_def)
  then show ?thesis
    using assms by (auto simp: swc_shell_surface_create_def intro: drives_comp split: option.split)
qed

end
