(* ===== verification/RiverSeq.thy ===== *)
theory RiverSeq
  imports RiverFrames
begin

text \<open>
  The sequences of \<open>wm/river_wm.c\<close>: a manage sequence follows every change of state, and manage
  and render alternate. All entry points of the bridge are the operations \<open>rop\<close>; a run is any
  sequence of them.
\<close>

subsection \<open>Operations\<close>

text \<open>Requests on the manager, the idle callback, and what completes or feeds a cohort.\<close>

datatype seq_op =
    Bind nat | Manager_gone nat | Manage_finish nat | Render_finish nat | Manage_dirty
  | Stop nat | Exit | Idle | Ack addr | Timeout | Commit int addr

primrec run_seq :: "seq_op \<Rightarrow> 'a rstate_scheme \<Rightarrow> 'a rstate_scheme result" where
  "run_seq (Bind v) s = Inr (bind_manager v s)"
| "run_seq (Manager_gone r) s = Inr (manager_resource_destroy r s)"
| "run_seq (Manage_finish r) s = Inr (manager_manage_finish r s)"
| "run_seq (Render_finish r) s = Inr (manager_render_finish r s)"
| "run_seq Manage_dirty s = Inr (manager_manage_dirty s)"
| "run_seq (Stop r) s = Inr (manager_stop r s)"
| "run_seq Exit s = Inr (manager_exit_session s)"
| "run_seq Idle s = handle_idle s"
| "run_seq (Ack w) s = Inr (with_done (window_ack_configure w) s)"
| "run_seq Timeout s = Inr (with_done transaction_timeout s)"
| "run_seq (Commit r f) s = Inr (window_commit r f s)"

text \<open>Requests on the surfaces of the manager and their nodes.\<close>

datatype shell_op =
    Get_shell nat "addr option" "addr option" | Shell_get_node nat
  | Shell_position nat i32 i32 | Shell_top nat | Shell_bottom nat | Shell_node_gone nat
  | Shell_gone nat

primrec run_shell :: "shell_op \<Rightarrow> 'a rstate_scheme \<Rightarrow> 'a rstate_scheme result" where
  "run_shell (Get_shell r mem f) s = manager_get_shell_surface r mem f s"
| "run_shell (Shell_get_node r) s = shell_surface_get_node r s"
| "run_shell (Shell_position r x y) s = shell_node_set_position r x y s"
| "run_shell (Shell_top r) s = shell_node_place_top r s"
| "run_shell (Shell_bottom r) s = shell_node_place_bottom r s"
| "run_shell (Shell_node_gone r) s = shell_node_resource_destroy r s"
| "run_shell (Shell_gone r) s = shell_surface_resource_destroy r s"

text \<open>Requests on the nodes of windows.\<close>

datatype node_op =
    Node_position nat i32 i32 | Node_top nat | Node_bottom nat
  | Node_relative nat "nat option" bool | Node_gone nat | Get_node nat

primrec run_node :: "node_op \<Rightarrow> 'a rstate_scheme \<Rightarrow> 'a rstate_scheme result" where
  "run_node (Node_position r x y) s = node_set_position r x y s"
| "run_node (Node_top r) s = node_place_top r s"
| "run_node (Node_bottom r) s = node_place_bottom r s"
| "run_node (Node_relative r sib abv) s = node_place_relative r sib abv s"
| "run_node (Node_gone r) s = node_resource_destroy r s"
| "run_node (Get_node r) s = window_get_node r s"

text \<open>Requests on windows.\<close>

datatype window_op =
    Close nat | Propose nat i32 i32 | Hide nat | Show nat | Fullscreen nat "nat option"
  | Exit_fullscreen nat | Borders nat i32 u32 u32 u32 u32 | Tiled nat
  | Box nat i32 i32 i32 i32 | Content_box nat i32 i32 i32 i32 | Window_gone nat

primrec run_window :: "window_op \<Rightarrow> 'a rstate_scheme \<Rightarrow> 'a rstate_scheme result" where
  "run_window (Close r) s = window_close r s"
| "run_window (Propose r w h) s = window_propose_dimensions r w h s"
| "run_window (Hide r) s = window_hide r s"
| "run_window (Show r) s = window_show r s"
| "run_window (Fullscreen r out) s = window_fullscreen r out s"
| "run_window (Exit_fullscreen r) s = window_exit_fullscreen r s"
| "run_window (Borders r w red g b a) s = window_set_borders r w red g b a s"
| "run_window (Tiled r) s = window_set_tiled r s"
| "run_window (Box r x y w h) s = window_set_box r x y w h s"
| "run_window (Content_box r x y w h) s = window_set_content_box r x y w h s"
| "run_window (Window_gone r) s = window_resource_destroy r s"

text \<open>Requests on outputs, the layer shell and the seat.\<close>

datatype output_op =
    Output_gone nat | Layer_get_output nat nat | Layer_output_gone nat | Layer_get_seat nat
  | Layer_seat_gone nat | Focus "nat option" | Clear_focus | Seat_gone nat

primrec run_output :: "output_op \<Rightarrow> 'a rstate_scheme \<Rightarrow> 'a rstate_scheme result" where
  "run_output (Output_gone r) s = output_resource_destroy r s"
| "run_output (Layer_get_output l r) s = layer_shell_get_output l r s"
| "run_output (Layer_output_gone r) s = layer_output_resource_destroy r s"
| "run_output (Layer_get_seat l) s = Inr (layer_shell_get_seat l s)"
| "run_output (Layer_seat_gone r) s = Inr (layer_seat_resource_destroy r s)"
| "run_output (Focus r) s = seat_focus_window r s"
| "run_output Clear_focus s = Inr (seat_clear_focus s)"
| "run_output (Seat_gone r) s = Inr (seat_resource_destroy r s)"

text \<open>Requests on bindings.\<close>

datatype binding_op =
    Key_binding nat u32 u32 | Pointer_binding nat u32 u32 | Enable bool nat | Disable nat
  | Layout nat u32 | Binding_gone nat | Get_xkb_seat nat | Xkb_seat_gone nat | Eat_next
  | Cancel_eat | Watch u32

primrec run_binding :: "binding_op \<Rightarrow> 'a rstate_scheme \<Rightarrow> 'a rstate_scheme result" where
  "run_binding (Key_binding v k m) s = Inr (xkb_bindings_get_xkb_binding v k m s)"
| "run_binding (Pointer_binding v b m) s = Inr (seat_get_pointer_binding v b m s)"
| "run_binding (Enable moved r) s = binding_enable moved r s"
| "run_binding (Disable r) s = binding_disable r s"
| "run_binding (Layout r l) s = binding_set_layout_override r l s"
| "run_binding (Binding_gone r) s = binding_resource_destroy r s"
| "run_binding (Get_xkb_seat v) s = Inr (xkb_bindings_get_seat v s)"
| "run_binding (Xkb_seat_gone r) s = Inr (xkb_seat_resource_destroy r s)"
| "run_binding Eat_next s = Inr (xkb_seat_ensure_next_key_eaten s)"
| "run_binding Cancel_eat s = Inr (xkb_seat_cancel_ensure_next_key_eaten s)"
| "run_binding (Watch m) s = Inr (xkb_seat_modifiers_watch m s)"

text \<open>Input that \<open>libswc\<close> reports.\<close>

datatype input_op =
    Key u32 bool | Modifiers u32 u32 | Button bool "addr option" | Fire addr u32

primrec run_input :: "input_op \<Rightarrow> 'a rstate_scheme \<Rightarrow> 'a rstate_scheme result" where
  "run_input (Key k released) s = Inr (snd (binding_observe_key k released s))"
| "run_input (Modifiers p c) s = Inr (binding_observe_modifiers p c s)"
| "run_input (Button pressed swc) s = Inr (seat_observe_button pressed swc s)"
| "run_input (Fire b state) s = binding_pressed b state s"

text \<open>Screens and windows of \<open>libswc\<close>.\<close>

datatype swc_op =
    Add_screen nat | Screen_destroyed addr | Screen_geometry addr | Add_window addr
  | Window_destroyed addr | Title_changed addr | App_id_changed addr | Entered addr
  | Left addr

primrec run_swc :: "swc_op \<Rightarrow> 'a rstate_scheme \<Rightarrow> 'a rstate_scheme result" where
  "run_swc (Add_screen n) s = Inr (river_wm_add_screen n s)"
| "run_swc (Screen_destroyed a) s = Inr (handle_screen_destroy a s)"
| "run_swc (Screen_geometry a) s = Inr (handle_screen_geometry a s)"
| "run_swc (Add_window w) s = river_wm_add_window w s"
| "run_swc (Window_destroyed a) s = Inr (handle_window_destroy a s)"
| "run_swc (Title_changed a) s = Inr (handle_window_title a s)"
| "run_swc (App_id_changed a) s = Inr (handle_window_app_id a s)"
| "run_swc (Entered a) s = Inr (handle_window_entered a s)"
| "run_swc (Left a) s = Inr (handle_window_left a s)"

datatype rop = Seq seq_op | Shell shell_op | Nod node_op | Win window_op | Out output_op | Bnd binding_op | Inp input_op | Swc swc_op

primrec run_op :: "rop \<Rightarrow> 'a rstate_scheme \<Rightarrow> 'a rstate_scheme result" where
  "run_op (Seq op) s = run_seq op s"
| "run_op (Shell op) s = run_shell op s"
| "run_op (Nod op) s = run_node op s"
| "run_op (Win op) s = run_window op s"
| "run_op (Out op) s = run_output op s"
| "run_op (Bnd op) s = run_binding op s"
| "run_op (Inp op) s = run_input op s"
| "run_op (Swc op) s = run_swc op s"

fun run_ops :: "rop list \<Rightarrow> 'a rstate_scheme \<Rightarrow> 'a rstate_scheme result" where
  "run_ops [] s = Inr s"
| "run_ops (op # ops) s = andThen (run_op op s) (run_ops ops)"

text \<open>\<open>handle_idle\<close> runs while it is scheduled.\<close>

definition enabled :: "rop \<Rightarrow> 'a rstate_scheme \<Rightarrow> bool" where
  "enabled op s \<longleftrightarrow> (op = Seq Idle \<longrightarrow> wm_idle s)"

subsection \<open>Wakeups\<close>

text \<open>A manager that is between sequences is told of every change: a sequence is queued. Events
  wait in the queue only as part of a change.\<close>

definition awake :: "'a rstate_scheme \<Rightarrow> bool" where
  "awake s \<longleftrightarrow>
     (wm_manager s \<noteq> None \<and> wm_phase s = PHASE_IDLE \<and> wm_dirty s \<longrightarrow> wm_idle s) \<and>
     (wm_queue s \<noteq> [] \<longrightarrow> wm_dirty s)"

text \<open>The sequence starts a manager was sent.\<close>

definition starts :: "nat \<Rightarrow> 'a rstate_scheme \<Rightarrow> revent list" where
  "starts r s = map snd (filter (\<lambda>(q, e). q = r \<and> (e = ManageStart \<or> e = RenderStart)) (wm_events s))"

text \<open>What most operations do: ask for a sequence at most.\<close>

definition asks :: "'a rstate_scheme \<Rightarrow> 'a rstate_scheme \<Rightarrow> bool" where
  "asks s t \<longleftrightarrow>
     wm_manager t = wm_manager s \<and> wm_phase t = wm_phase s \<and> ws_done t = ws_done s \<and>
     (\<forall>r. starts r t = starts r s) \<and> wm_next s \<le> wm_next t \<and> (awake s \<longrightarrow> awake t)"

named_theorems ask_intros \<open>operations that at most ask for a sequence\<close>

lemma asks_refl [simp, intro, ask_intros]: "asks s s"
  by (simp add: asks_def)

lemma asks_trans: "asks s t \<Longrightarrow> asks t u \<Longrightarrow> asks s u"
  by (auto simp: asks_def)

lemma asks_same:
  assumes "asks s t" "wm_manager u = wm_manager t" "wm_phase u = wm_phase t" "ws_done u = ws_done t"
    "wm_events u = wm_events t" "wm_next u = wm_next t" "wm_dirty u = wm_dirty t" "wm_idle u = wm_idle t"
    "wm_queue u = wm_queue t"
  shows "asks s u"
  using assms by (simp add: asks_def awake_def starts_def)

lemma river_same:
  assumes "wstate.more t = wstate.more s"
  shows "wm_manager t = wm_manager s" "wm_phase t = wm_phase s" "wm_dirty t = wm_dirty s" "wm_idle t = wm_idle s"
    "wm_queue t = wm_queue s" "wm_events t = wm_events s" "wm_next t = wm_next s" "wm_next_addr t = wm_next_addr s"
    "wm_windows t = wm_windows s" "wm_outputs t = wm_outputs s" "wm_seat t = wm_seat s"
    "wm_layer_seat t = wm_layer_seat s" "wm_screen t = wm_screen s" "wm_key_bindings t = wm_key_bindings s"
    "wm_xkb_seat t = wm_xkb_seat s" "wm_win t = wm_win s" "wm_out t = wm_out s" "wm_shell t = wm_shell s"
    "wm_bind t = wm_bind s" "wm_res t = wm_res s" "wm_swc t = wm_swc s"
  using assms
  unfolding rstate.wm_manager_def rstate.wm_phase_def rstate.wm_dirty_def rstate.wm_idle_def rstate.wm_queue_def
    rstate.wm_events_def rstate.wm_next_def rstate.wm_next_addr_def rstate.wm_windows_def rstate.wm_outputs_def
    rstate.wm_seat_def rstate.wm_layer_seat_def rstate.wm_screen_def rstate.wm_key_bindings_def
    rstate.wm_xkb_seat_def rstate.wm_win_def rstate.wm_out_def rstate.wm_shell_def rstate.wm_bind_def
    rstate.wm_res_def rstate.wm_swc_def wstate.more_def comp_def id_def
  by argo+

lemma drivesD:
  assumes "drives c s t"
  shows "wstate.more t = wstate.more s" "ws_mem t = ws_mem s" "\<not> c \<Longrightarrow> ws_done t = ws_done s"
    "\<not> c \<Longrightarrow> ws_reports t = ws_reports s"
  using assms by (auto simp: drives_def)

lemma asks_drives:
  assumes "asks s t" "drives False t u"
  shows "asks s u"
  by (rule asks_same[OF assms(1)]) (simp_all add: river_same[OF drivesD(1)[OF assms(2)]] drivesD(3)[OF assms(2)])

lemma asks_send:
  "asks s t \<Longrightarrow> e \<noteq> ManageStart \<Longrightarrow> e \<noteq> RenderStart \<Longrightarrow> asks s (send r e t)"
  by (erule asks_trans) (simp add: asks_def awake_def starts_def send_def)

lemma asks_schedule [ask_intros]: "asks s t \<Longrightarrow> asks s (schedule_sequence t)"
  by (erule asks_trans) (auto simp: asks_def awake_def starts_def schedule_sequence_def Let_def)

lemma asks_queue [ask_intros]: "asks s t \<Longrightarrow> asks s (queue_event e t)"
  by (erule asks_trans) (auto simp: asks_def awake_def starts_def queue_event_def schedule_sequence_def Let_def)

lemma asks_heaps [ask_intros]:
  assumes "asks s t"
  shows "asks s (updrw a fw t)" "asks s (updro a fo t)" "asks s (updrb a fb t)" "asks s (set_user_data r d t)"
    "asks s (drop_resource r t)"
  by (rule asks_same[OF assms]; simp add: updrw_def updro_def updrb_def set_user_data_def drop_resource_def)+

lemma asks_fields [ask_intros]:
  assumes "asks s t"
  shows "asks s (t\<lparr>wm_windows := ws\<rparr>)" "asks s (t\<lparr>wm_outputs := ws\<rparr>)" "asks s (t\<lparr>wm_seat := r\<rparr>)"
    "asks s (t\<lparr>wm_layer_seat := r\<rparr>)" "asks s (t\<lparr>wm_screen := n\<rparr>)" "asks s (t\<lparr>wm_key_bindings := ws\<rparr>)"
    "asks s (t\<lparr>wm_xkb_seat := r\<rparr>)" "asks s (t\<lparr>wm_eat_next_key := b\<rparr>)" "asks s (t\<lparr>wm_watched := m\<rparr>)"
    "asks s (t\<lparr>wm_pointer := p\<rparr>)" "asks s (t\<lparr>wm_key_observer := b\<rparr>)" "asks s (t\<lparr>wm_ptr_observer := b\<rparr>)"
    "asks s (t\<lparr>wm_win := hw\<rparr>)" "asks s (t\<lparr>wm_out := ho\<rparr>)" "asks s (t\<lparr>wm_shell := hs\<rparr>)" "asks s (t\<lparr>wm_bind := hb\<rparr>)"
    "asks s (t\<lparr>wm_next_addr := a\<rparr>)" "asks s (t\<lparr>wm_swc := bs\<rparr>)" "asks s (t\<lparr>wm_terminated := b\<rparr>)"
  by (rule asks_same[OF assms]; simp)+

lemma asks_drop_events [ask_intros]:
  "asks s t \<Longrightarrow> asks s (drop_binding_events b t)" "asks s t \<Longrightarrow> asks s (drop_window_events a t)"
  by (erule asks_trans, auto simp: asks_def awake_def starts_def drop_binding_events_def drop_window_events_def)+

lemma asks_new_resource [ask_intros]: "asks s t \<Longrightarrow> asks s (snd (new_resource k d v t))"
  by (erule asks_trans) (simp add: asks_def awake_def starts_def new_resource_def)

lemma asks_new_resource_eq: "new_resource k d v t = (o', u) \<Longrightarrow> asks s t \<Longrightarrow> asks s u"
  using asks_new_resource[of s t k d v] by simp

lemma asks_fold [ask_intros]:
  "asks s t \<Longrightarrow> (\<And>x t. asks s t \<Longrightarrow> asks s (f x t)) \<Longrightarrow> asks s (fold f xs t)"
  by (induction xs arbitrary: t) auto

subsection \<open>The operations\<close>

lemmas asks_swc = asks_drives[OF _ drives_hide[OF _ drives_refl]] asks_drives[OF _ drives_show[OF _ drives_refl]]
  asks_drives[OF _ drives_destroy[OF _ drives_refl]] asks_drives[OF _ drives_set_tiled[OF _ drives_refl]]

lemma asks_maybe_free [ask_intros]: "asks s t \<Longrightarrow> asks s (maybe_free_window a t)"
  by (simp add: maybe_free_window_def Let_def ask_intros)

lemma asks_output_geometry [ask_intros]: "asks s t \<Longrightarrow> asks s (send_output_geometry a t)"
  by (auto simp: send_output_geometry_def Let_def intro!: asks_send split: option.split)

lemma asks_advertise_output [ask_intros]: "asks s t \<Longrightarrow> asks s (advertise_output a t)"
  by (auto simp: advertise_output_def Let_def intro!: asks_send ask_intros split: option.split prod.split
      dest: asks_new_resource_eq)

lemma asks_advertise_seat [ask_intros]: "asks s t \<Longrightarrow> asks s (advertise_seat t)"
  by (auto simp: advertise_seat_def Let_def ensure_pointer_observer_def intro!: asks_send ask_intros
      split: option.split prod.split dest: asks_new_resource_eq)

lemma asks_advertise_window [ask_intros]: "asks s t \<Longrightarrow> asks s (advertise_window a t)"
  by (auto simp: advertise_window_def Let_def intro!: asks_send ask_intros split: option.split prod.split
      dest: asks_new_resource_eq)

lemma asks_pointer_position [ask_intros]: "asks s t \<Longrightarrow> asks s (send_pointer_position t)"
  by (auto simp: send_pointer_position_def Let_def intro!: asks_send ask_intros split: option.split prod.split)

lemma asks_report_size [ask_intros]: "asks s t \<Longrightarrow> asks s (report_size a t)"
  by (auto simp: report_size_def Let_def intro!: asks_send ask_intros split: option.split prod.split)

lemma asks_on_window:
  assumes "on_window r f t = Inr u" "asks s t" "\<And>a u. f a t = Inr u \<Longrightarrow> asks s u"
  shows "asks s u"
  using assms by (auto simp: on_window_def andThen_Inr split: option.splits if_splits)

definition driven :: "'a rstate_scheme \<Rightarrow> 'a rstate_scheme \<Rightarrow> bool" where
  "driven s u \<longleftrightarrow> asks s u \<or> (\<exists>f. u = with_done f s \<and> drives True s (f s))"

lemma asks_flush_event: "flush_event e t = Inr u \<Longrightarrow> asks s t \<Longrightarrow> asks s u"
  by (auto simp: flush_event_def intro!: asks_send split: binding_event.splits if_splits option.splits)

lemma asks_new_binding: "new_binding k ty v y m t = (o', u) \<Longrightarrow> asks s t \<Longrightarrow> asks s u"
  by (auto simp: new_binding_def Let_def intro!: ask_intros split: prod.splits option.splits
      dest: asks_new_resource_eq)

lemma asks_register [ask_intros]: "asks s t \<Longrightarrow> asks s (binding_register moved b t)"
  by (auto simp: binding_register_def ensure_keyboard_observer_def Let_def split_def intro!: ask_intros)

lemma asks_unregister [ask_intros]: "asks s t \<Longrightarrow> asks s (binding_unregister b t)"
  by (auto simp: binding_unregister_def Let_def intro!: ask_intros)

lemma input_asks: "run_input op s = Inr u \<Longrightarrow> asks s u"
proof (cases op)
  case (Key k released)
  moreover have "asks s (snd (binding_observe_key k released s))"
    by (auto simp: binding_observe_key_def Let_def intro!: ask_intros split: option.split)
  ultimately show "run_input op s = Inr u \<Longrightarrow> asks s u" by auto
qed (auto simp: binding_observe_modifiers_def seat_observe_button_def queue_window_interaction_def
    binding_pressed_def intro!: ask_intros split: option.split if_splits)

lemma binding_asks: "run_binding op s = Inr u \<Longrightarrow> asks s u"
proof (cases op)
  case (Key_binding v k m)
  then show "run_binding op s = Inr u \<Longrightarrow> asks s u"
    by (auto simp: xkb_bindings_get_xkb_binding_def intro!: ask_intros split: prod.splits option.splits
        dest: asks_new_binding)
next
  case (Pointer_binding v b m)
  then show "run_binding op s = Inr u \<Longrightarrow> asks s u"
    using asks_new_binding[OF prod.collapse[symmetric], of s] by (auto simp: seat_get_pointer_binding_def)
next
  case (Get_xkb_seat v)
  then show "run_binding op s = Inr u \<Longrightarrow> asks s u"
    by (auto simp: xkb_bindings_get_seat_def intro!: ask_intros split: prod.splits option.splits
        dest: asks_new_resource_eq)
qed (auto simp: binding_enable_def binding_disable_def binding_set_layout_override_def andThen_Inr
    binding_resource_destroy_def xkb_seat_resource_destroy_def xkb_seat_ensure_next_key_eaten_def
    xkb_seat_cancel_ensure_next_key_eaten_def xkb_seat_modifiers_watch_def Let_def
    intro!: ask_intros split: option.splits)

lemma output_asks: "run_output op s = Inr u \<Longrightarrow> asks s u"
proof (cases op)
  case (Focus r)
  then show "run_output op s = Inr u \<Longrightarrow> asks s u"
    by (auto simp: seat_focus_window_def elim!: asks_on_window split: option.splits
        intro: asks_drives[OF asks_refl drives_focus[OF drives_refl]])
next
  case (Layer_get_output l r)
  assume "run_output op s = Inr u"
  then obtain d where "u = send l ObjectExistsError s \<or>
      u = (case new_resource KLayerOutput d (version_of l s) s of
             (None, s) \<Rightarrow> send l NoMemory s
           | (Some l, s) \<Rightarrow>
               (case d of
                  None \<Rightarrow> s
                | Some a \<Rightarrow> send_output_geometry a (updro a (\<lambda>x. x\<lparr>ro_layer_shell := Some l\<rparr>) s)))"
    unfolding Layer_get_output by (auto simp: layer_shell_get_output_def andThen_Inr split: if_splits)
  then show "asks s u"
    by (elim disjE) (auto intro!: ask_intros asks_send split: option.split prod.split dest: asks_new_resource_eq)
qed (auto simp: output_resource_destroy_def layer_output_resource_destroy_def layer_shell_get_seat_def
    layer_seat_resource_destroy_def seat_clear_focus_def seat_resource_destroy_def andThen_Inr
    intro!: ask_intros asks_send intro: asks_drives[OF asks_refl drives_focus[OF drives_refl]]
    split: option.split prod.split dest: asks_new_resource_eq)

lemma asks_create: "swc_shell_surface_create r mem f t = (v, u) \<Longrightarrow> asks s t \<Longrightarrow> asks s u"
  using asks_drives[OF _ drives_create[OF drives_refl], of s t r mem f] by simp

lemma asks_shell_hides:
  "swc_shell_surface_destroy r v t = Some u \<Longrightarrow> asks s t \<Longrightarrow> asks s u"
  "swc_shell_surface_show v t = Some u \<Longrightarrow> asks s t \<Longrightarrow> asks s u"
  by (auto simp: swc_shell_surface_destroy_def swc_shell_surface_show_def split: option.splits
      intro: asks_swc(2,3))

lemma shell_asks: "run_shell op s = Inr u \<Longrightarrow> asks s u"
proof (cases op)
  case (Get_shell r mem f)
  then show "run_shell op s = Inr u \<Longrightarrow> asks s u"
    by (auto simp: manager_get_shell_surface_def Let_def andThen_Inr swc_shell_surface_set_stack_layer_def
        intro!: ask_intros asks_send asks_drives[OF _ drives_comp_ops(12)[OF drives_refl]]
        split: if_splits prod.splits option.splits
        elim!: asks_shell_hides dest!: asks_new_resource_eq asks_create)
next
  case (Shell_top r)
  then show "run_shell op s = Inr u \<Longrightarrow> asks s u"
    by (auto simp: shell_node_place_top_def on_shell_def andThen_Inr swc_shell_surface_raise_def
        intro!: asks_drives[OF asks_refl] drives_requests[OF drives_refl] request_intros split: option.splits)
next
  case (Shell_bottom r)
  then show "run_shell op s = Inr u \<Longrightarrow> asks s u"
    by (auto simp: shell_node_place_bottom_def on_shell_def andThen_Inr swc_shell_surface_lower_def
        intro!: asks_drives[OF asks_refl] drives_requests[OF drives_refl] request_intros split: option.splits)
next
  case (Shell_position r x y)
  then show "run_shell op s = Inr u \<Longrightarrow> asks s u"
    by (auto simp: shell_node_set_position_def on_shell_def andThen_Inr swc_shell_surface_set_position_def
        intro!: asks_drives[OF asks_refl] drive_intros split: option.splits)
next
  case (Shell_get_node r)
  then show "run_shell op s = Inr u \<Longrightarrow> asks s u"
    by (auto simp: shell_surface_get_node_def andThen_Inr intro!: ask_intros asks_send
        split: if_splits prod.splits option.splits dest!: asks_new_resource_eq)
qed (auto simp: shell_node_resource_destroy_def shell_surface_resource_destroy_def Let_def andThen_Inr
    intro!: ask_intros split: option.splits elim!: asks_shell_hides)

lemma node_driven: "run_node op s = Inr u \<Longrightarrow> driven s u"
proof (cases op)
  case (Node_position r x y)
  then show "run_node op s = Inr u \<Longrightarrow> driven s u"
    by (auto simp: node_set_position_def on_window_def andThen_Inr driven_def
        split: option.splits if_splits intro!: drive_intros)
next
  case (Node_top r)
  then show "run_node op s = Inr u \<Longrightarrow> driven s u"
    by (auto simp: node_place_top_def driven_def elim!: asks_on_window
        intro: asks_drives[OF asks_refl drives_comp_ops(9)[OF drives_refl]])
next
  case (Node_bottom r)
  then show "run_node op s = Inr u \<Longrightarrow> driven s u"
    by (auto simp: node_place_bottom_def driven_def elim!: asks_on_window
        intro: asks_drives[OF asks_refl drives_comp_ops(10)[OF drives_refl]])
next
  case (Node_relative r sib abv)
  then show "run_node op s = Inr u \<Longrightarrow> driven s u"
    by (auto simp: node_place_relative_def andThen_Inr driven_def split: option.split
        intro: asks_drives[OF asks_refl drives_window_ops(6)[OF drives_refl]])
next
  case (Get_node r)
  then show "run_node op s = Inr u \<Longrightarrow> driven s u"
    by (auto simp: window_get_node_def andThen_Inr driven_def Let_def intro!: ask_intros asks_send
        split: prod.split option.split dest: asks_new_resource_eq)
qed (auto simp: node_resource_destroy_def andThen_Inr driven_def intro!: ask_intros split: option.splits)
lemma on_window_cases:
  assumes "on_window r f s = Inr u"
  shows "u = s \<or> (\<exists>a. f a s = Inr u)"
proof -
  obtain d where "win_data r s = Inr d" using assms by (auto simp: on_window_def andThen_Inr)
  with assms show ?thesis by (cases d) (auto simp: on_window_def split: if_splits)
qed

lemma driven_refl [simp]: "driven s s"
  by (simp add: driven_def)

lemma driven_drives: "drives False s u \<Longrightarrow> driven s u"
  by (simp add: driven_def asks_drives[OF asks_refl])

lemma driven_asks: "asks s u \<Longrightarrow> driven s u"
  by (simp add: driven_def)

lemma window_driven:
  assumes "run_window op s = Inr u"
  shows "driven s u"
proof (cases op)
  case (Close r)
  with assms show ?thesis
    by (auto simp: window_close_def dest!: on_window_cases intro!: driven_drives drive_intros)
next
  case (Propose r w h)
  with assms show ?thesis
    by (auto simp: window_propose_dimensions_def dest!: on_window_cases intro!: driven_asks ask_intros)
next
  case (Hide r)
  with assms show ?thesis
    by (auto simp: window_hide_def swc_window_hide_def dest!: on_window_cases
        intro!: driven_drives intro: drives_hide)
next
  case (Show r)
  with assms show ?thesis
    by (auto simp: window_show_def swc_window_show_def dest!: on_window_cases
        intro!: driven_drives intro: drives_show)
next
  case (Fullscreen r out)
  have "driven s u" if "u = (case t of None \<Rightarrow> s | Some t \<Rightarrow>
      with_done (swc_window_set_fullscreen (rw_swc (rwin s a)) (Some (en_usable (wm_env s) (ro_swc (rout s t))))) s)" for a t
    using that by (auto simp: driven_def intro!: drives_set_fullscreen split: option.split)
  with assms Fullscreen show ?thesis
    by (auto simp: window_fullscreen_def andThen_Inr dest!: on_window_cases)
next
  case (Exit_fullscreen r)
  with assms show ?thesis
    by (auto simp: window_exit_fullscreen_def driven_def dest!: on_window_cases intro!: drives_set_fullscreen)
next
  case (Borders r w red g b a)
  with assms show ?thesis
    by (auto simp: window_set_borders_def dest!: on_window_cases intro!: driven_drives drive_intros)
next
  case (Tiled r)
  with assms show ?thesis
    by (auto simp: window_set_tiled_def dest!: on_window_cases intro!: driven_drives intro: drives_set_tiled)
next
  case (Box r x y w h)
  with assms show ?thesis
    by (auto simp: window_set_box_def dest!: on_window_cases split: if_splits
        intro: driven_asks[OF asks_send] driven_drives[OF drives_window_ops(4)] driven_drives[OF drives_window_ops(5)])
next
  case (Content_box r x y w h)
  with assms show ?thesis
    by (auto simp: window_set_content_box_def dest!: on_window_cases split: if_splits
        intro: driven_asks[OF asks_send] driven_drives[OF drives_window_ops(4)] driven_drives[OF drives_window_ops(5)])
next
  case (Window_gone r)
  with assms show ?thesis
    by (auto simp: window_resource_destroy_def andThen_Inr intro!: driven_asks ask_intros split: option.split)
qed

lemma asks_screen_destroy: "asks s t \<Longrightarrow> asks s (handle_screen_destroy a t)"
  unfolding handle_screen_destroy_def Let_def
  by (intro ask_intros) (auto intro!: ask_intros asks_send split: option.split)

lemma asks_window_destroy: "asks s t \<Longrightarrow> asks s (handle_window_destroy a t)"
  unfolding handle_window_destroy_def Let_def
  by (intro ask_intros) (auto intro!: ask_intros asks_send split: option.split)

lemma asks_window_events:
  "asks s t \<Longrightarrow> asks s (handle_window_title a t)" "asks s t \<Longrightarrow> asks s (handle_window_app_id a t)"
  "asks s t \<Longrightarrow> asks s (handle_window_entered a t)" "asks s t \<Longrightarrow> asks s (handle_window_left a t)"
  by (auto simp: handle_window_title_def handle_window_app_id_def handle_window_entered_def
      handle_window_left_def intro!: ask_intros asks_send split: option.split)

lemma asks_add_window:
  assumes "river_wm_add_window w t = Inr u" "asks s t"
  shows "asks s u"
proof (cases "ws_mem t")
  case False
  with assms show ?thesis by (simp add: river_wm_add_window_def)
next
  case True
  define x where "x = \<lparr>rw_resource = None, rw_node = None, rw_swc = Some w, rw_advertised = False,
    rw_closed = False, rw_has_proposal = False, rw_width = 0, rw_height = 0, rw_sent_width = 0, rw_sent_height = 0\<rparr>"
  define t1 where "t1 = t\<lparr>wm_next_addr := wm_next_addr t + 1, wm_windows := wm_windows t @ [wm_next_addr t],
    wm_win := (wm_win t)(wm_next_addr t \<mapsto> x)\<rparr>"
  have t1: "asks s t1" unfolding t1_def by (rule asks_same[OF assms(2)]) simp_all
  then have t2: "asks s (swc_window_set_handler w river_handler t1)"
    by (rule asks_drives) (simp add: drive_intros)
  from assms(1) True obtain v z where v: "swc_window_set_tiled w (swc_window_set_handler w river_handler t1) = Inr v"
    and z: "compositor_view_show (w_view (win v w)) v = Some z" and u: "u = schedule_sequence z"
    unfolding river_wm_add_window_def Let_def x_def[symmetric] t1_def[symmetric]
    by (auto simp: andThen_Inr swc_window_show_def)
  have "asks s v" by (rule asks_swc(4)[OF t2 v])
  then have "asks s z" by (rule asks_swc(2)[OF _ z])
  then show ?thesis unfolding u by (rule asks_schedule)
qed

lemma asks_if: "(b \<Longrightarrow> asks s t) \<Longrightarrow> (\<not> b \<Longrightarrow> asks s u) \<Longrightarrow> asks s (if b then t else u)"
  by simp

lemma asks_screens:
  "asks s t \<Longrightarrow> asks s (river_wm_add_screen n t)" "asks s t \<Longrightarrow> asks s (handle_screen_geometry a t)"
proof -
  assume t: "asks s t"
  show "asks s (river_wm_add_screen n t)"
    unfolding river_wm_add_screen_def Let_def by (intro ask_intros asks_if t)
  show "asks s (handle_screen_geometry a t)"
    unfolding handle_screen_geometry_def by (intro ask_intros t)
qed

lemma swc_asks: "run_swc op s = Inr u \<Longrightarrow> asks s u"
  using asks_refl[of s]
  by (cases op) (auto intro: asks_screens asks_screen_destroy asks_window_destroy asks_window_events asks_add_window)

subsection \<open>Completion\<close>

lemma with_done_cases:
  assumes "drives True s (f s)"
  shows "with_done f s = f s \<and> ws_done (f s) = ws_done s \<or>
    ws_done s \<noteq> None \<and> ws_done (f s) = None \<and> (\<exists>b. with_done f s = begin_render b (f s))"
  using assms by (auto simp: with_done_def Let_def drives_def)

lemma asks_report: "asks s t \<Longrightarrow> asks s (fold report_size (wm_windows t) t)"
  by (intro ask_intros)

lemma awake_same: "wstate.more t = wstate.more s \<Longrightarrow> awake t = awake s"
  by (simp add: awake_def river_same[of t s])

lemma awake_begin_render:
  assumes "awake s"
  shows "awake (begin_render b s)"
proof (cases "wm_manager s")
  case None
  with assms show ?thesis by (simp add: begin_render_def awake_def)
next
  case (Some m)
  have "awake (fold report_size (wm_windows s) s)"
    using asks_report[OF asks_refl, of s] assms by (simp add: asks_def)
  with Some show ?thesis by (simp add: begin_render_def Let_def awake_def send_def)
qed

lemma awake_driven: "driven s u \<Longrightarrow> awake s \<Longrightarrow> awake u"
  using with_done_cases[of s] awake_begin_render awake_same[OF drivesD(1)]
  unfolding driven_def asks_def by metis

lemma flush_event_queue: "flush_event e t = Inr u \<Longrightarrow> wm_queue u = wm_queue t"
  by (auto simp: flush_event_def send_def split: binding_event.splits if_splits option.splits)

lemma flush_events:
  "flush_binding_events es t = Inr u \<Longrightarrow> asks s t \<Longrightarrow> asks s u \<and> wm_queue u = drop (length es) (wm_queue t)"
proof (induction es arbitrary: t)
  case (Cons e es)
  then obtain v where v: "flush_event e t = Inr v" "flush_binding_events es (v\<lparr>wm_queue := tl (wm_queue v)\<rparr>) = Inr u"
    by (auto simp: andThen_Inr)
  have "asks s v" by (rule asks_flush_event[OF v(1) Cons.prems(2)])
  then have "asks s (v\<lparr>wm_queue := tl (wm_queue v)\<rparr>)"
    by (rule asks_trans) (auto simp: asks_def awake_def starts_def)
  from Cons.IH[OF v(2) this] show ?case
    by (simp add: flush_event_queue[OF v(1)] drop_Suc)
qed simp

text \<open>\<open>begin_manage\<close> outside a sequence: everything new is sent, then \<open>manage_start\<close>.\<close>

lemma begin_manage_cases:
  assumes "begin_manage s = Inr u"
  shows "(wm_manager s = None \<or> wm_phase s \<noteq> PHASE_IDLE) \<and> u = s \<or>
    (\<exists>m t. wm_manager s = Some m \<and> wm_phase s = PHASE_IDLE \<and> asks s t \<and> wm_queue t = [] \<and>
      u = send m ManageStart (t\<lparr>wm_dirty := False, wm_phase := PHASE_MANAGE\<rparr>))"
proof (cases "wm_manager s = None \<or> wm_phase s \<noteq> PHASE_IDLE")
  case True
  with assms show ?thesis by (auto simp: begin_manage_def split: option.splits)
next
  case False
  then obtain m where m: "wm_manager s = Some m" and p: "wm_phase s = PHASE_IDLE" by auto
  define t0 where "t0 = send_pointer_position (fold (\<lambda>a s. updrw a (\<lambda>x. x\<lparr>rw_has_proposal := False\<rparr>) (advertise_window a s))
    (wm_windows (advertise_seat (fold advertise_output (wm_outputs s) s))) (advertise_seat (fold advertise_output (wm_outputs s) s)))"
  have t0: "asks s t0" unfolding t0_def by (intro ask_intros)
  obtain t where t: "flush_binding_events (wm_queue t0) t0 = Inr t"
    and u: "u = send m ManageStart (t\<lparr>wm_dirty := False, wm_phase := PHASE_MANAGE\<rparr>)"
    using assms p m by (auto simp: begin_manage_def Let_def t0_def andThen_Inr)
  from flush_events[OF t t0] m p u show ?thesis by auto
qed

lemma awake_with_done: "drives True s (f s) \<Longrightarrow> awake s \<Longrightarrow> awake (with_done f s)"
  by (rule awake_driven) (auto simp: driven_def)

lemma apply_proposal_driven: "driven s (apply_proposal a s)"
  by (auto simp: apply_proposal_def Let_def driven_def split: option.split intro!: drives_set_geometry)

lemma commit_cases:
  fixes t :: "'a rstate_scheme" and ms cb
  defines "u \<equiv> swc_transaction_commit ms (Some cb) t"
  shows "wstate.more u = wstate.more t \<and>
    (with_done (swc_transaction_commit ms (Some cb)) t = u \<and> (ws_done u = ws_done t \<or> ws_done u = Some cb) \<or>
     ws_done u = None \<and> (\<exists>b. with_done (swc_transaction_commit ms (Some cb)) t = begin_render b u))"
proof (cases "ws_trans t")
  case None
  then show ?thesis by (simp add: u_def swc_transaction_commit_def with_done_def)
next
  case (Some x)
  then have d: "drives True (t\<lparr>ws_done := Some cb\<rparr>) u"
    using drives_commit[where t = t and cb = "Some cb" and ms = ms] by (simp add: u_def)
  have "wstate.more u = wstate.more t" using drivesD(1)[OF d] by simp
  moreover have "with_done (swc_transaction_commit ms (Some cb)) t = with_done (\<lambda>_. u) (t\<lparr>ws_done := Some cb\<rparr>)"
    by (simp add: with_done_def u_def)
  ultimately show ?thesis using with_done_cases[of "t\<lparr>ws_done := Some cb\<rparr>" "\<lambda>_. u"] d by auto
qed

lemma awake_manage_finish:
  assumes "awake s"
  shows "awake (manager_manage_finish r s)"
proof (cases "wm_phase s = PHASE_MANAGE")
  case False
  then show ?thesis
    using assms asks_send[OF asks_refl, of SequenceOrderError s r] by (simp add: manager_manage_finish_def asks_def)
next
  case True
  define mem where "mem = (if ws_mem s then Some (wm_next_addr s) else None)"
  define s1 where "s1 = s\<lparr>wm_phase := PHASE_SETTLE, wm_next_addr := wm_next_addr s + 1\<rparr>"
  define s2 where "s2 = snd (swc_transaction_begin mem s1)"
  have "awake s1" using assms True by (simp add: s1_def awake_def)
  then have s2: "awake s2"
    using awake_same[OF drivesD(1)[OF drives_cohort_ops(1)[OF drives_refl]], of mem s1] by (simp add: s2_def)
  have "awake t \<Longrightarrow> awake (fold apply_proposal xs t)" for xs and t :: "'a rstate_scheme"
    by (induction xs arbitrary: t) (auto intro: awake_driven[OF apply_proposal_driven])
  with s2 have "awake (fold apply_proposal (wm_windows s2) s2)" by blast
  then have "awake (with_done (swc_transaction_commit 100 (Some 0)) (fold apply_proposal (wm_windows s2) s2))"
    using commit_cases[where t = "fold apply_proposal (wm_windows s2) s2" and ms = 100 and cb = 0] awake_same awake_begin_render by metis
  moreover have "manager_manage_finish r s =
      with_done (swc_transaction_commit 100 (Some 0)) (fold apply_proposal (wm_windows s2) s2)"
    by (simp only: manager_manage_finish_def True Let_def mem_def s1_def s2_def not_True_eq_False if_False refl) simp
  ultimately show ?thesis by simp
qed

lemma fold_res_fields:
  "asks s (fold (\<lambda>a. updrw a fw) ws s)" "asks s (fold (\<lambda>a. updro a fo) ws s)"
  by (rule asks_fold[OF asks_refl], rule asks_heaps, assumption)+

lemma manager_destroy_asks:
  assumes "wm_manager s = Some r"
  shows "asks (s\<lparr>wm_manager := None, wm_phase := PHASE_IDLE\<rparr>) (manager_resource_destroy r s)"
  using assms unfolding manager_resource_destroy_def Let_def by simp (intro ask_intros)

lemma seq_awake:
  assumes "run_seq op s = Inr u" "awake s"
  shows "awake u"
proof (cases op)
  case (Bind v)
  have "awake (snd (new_resource k d v s))" for k d
    using asks_new_resource[OF asks_refl, of s k d v] assms(2) by (simp add: asks_def)
  with Bind assms(1) show ?thesis
    by (auto simp: bind_manager_def Let_def new_resource_def send_def schedule_sequence_def awake_def split: if_splits)
next
  case (Manager_gone r)
  show ?thesis
  proof (cases "wm_manager s = Some r")
    case True
    have "awake (s\<lparr>wm_manager := None, wm_phase := PHASE_IDLE\<rparr>)" using assms(2) by (simp add: awake_def)
    with manager_destroy_asks[OF True] assms(1) Manager_gone show ?thesis by (simp add: asks_def)
  next
    case False
    with assms Manager_gone show ?thesis
      by (auto simp: manager_resource_destroy_def drop_resource_def awake_def)
  qed
next
  case (Manage_finish r)
  with assms show ?thesis by (auto intro: awake_manage_finish)
next
  case (Render_finish r)
  show ?thesis
  proof (cases "wm_phase s = PHASE_RENDER")
    case False
    with Render_finish assms show ?thesis
      using asks_send[OF asks_refl, of SequenceOrderError s r] by (auto simp: manager_render_finish_def asks_def)
  next
    case True
    define t where "t = swc_transaction_present s"
    have "awake t"
      using awake_same[OF drivesD(1)[OF drives_cohort_ops(2)[OF drives_refl]]] assms(2) unfolding t_def by blast
    then have "awake (if wm_dirty t then schedule_sequence (t\<lparr>wm_phase := PHASE_IDLE\<rparr>) else t\<lparr>wm_phase := PHASE_IDLE\<rparr>)"
      by (auto simp: awake_def schedule_sequence_def Let_def)
    with True Render_finish assms(1) show ?thesis
      by (simp add: manager_render_finish_def Let_def t_def[symmetric])
  qed
next
  case Idle
  with assms(1) have b: "begin_manage (s\<lparr>wm_idle := False\<rparr>) = Inr u" by (simp add: handle_idle_def)
  show ?thesis
    using begin_manage_cases[OF b] assms(2) by (auto simp: awake_def send_def)
next
  case (Ack w)
  have "drives True s (window_ack_configure w s)" by (rule drives_cohort_ops(4)[OF drives_refl])
  with Ack assms show ?thesis by (auto intro: awake_with_done)
next
  case Timeout
  have "drives True s (transaction_timeout s)" by (rule drives_cohort_ops(3)[OF drives_refl])
  with Timeout assms show ?thesis by (auto intro: awake_with_done)
next
  case (Commit r f)
  with assms(1) have "u = window_commit r f s" by simp
  with assms(2) show ?thesis
    using awake_same[OF drivesD(1)[OF drives_window_commit[OF drives_refl]]] by blast
next
  case Manage_dirty
  with assms asks_schedule[OF asks_refl, of s] show ?thesis by (auto simp: manager_manage_dirty_def asks_def)
qed (use assms in \<open>auto simp: manager_stop_def manager_exit_session_def awake_def send_def\<close>)

lemma op_driven:
  assumes "run_op op s = Inr u" "\<And>x. op \<noteq> Seq x"
  shows "driven s u"
  using assms by (cases op) (auto intro: driven_asks shell_asks node_driven window_driven output_asks binding_asks
      input_asks swc_asks)

lemma op_awake: "run_op op s = Inr u \<Longrightarrow> awake s \<Longrightarrow> awake u"
  by (cases "\<exists>x. op = Seq x") (auto intro: seq_awake awake_driven op_driven)

lemma run_awake: "run_ops ops s = Inr u \<Longrightarrow> awake s \<Longrightarrow> awake u"
  by (induction ops arbitrary: s) (auto simp: andThen_Inr intro: op_awake)

subsection \<open>Manage and render alternate\<close>

fun rounds :: "nat \<Rightarrow> revent list" where
  "rounds 0 = []"
| "rounds (Suc k) = rounds k @ [ManageStart, RenderStart]"

text \<open>The sequence starts of a manager after \<open>k\<close> full rounds, in a phase.\<close>

definition in_phase :: "nat \<Rightarrow> phase \<Rightarrow> revent list" where
  "in_phase k p = rounds k @ (if p = PHASE_MANAGE \<or> p = PHASE_SETTLE then [ManageStart] else [])"

definition alternating :: "'a rstate_scheme \<Rightarrow> bool" where
  "alternating s \<longleftrightarrow>
     (ws_done s \<noteq> None \<longrightarrow> wm_phase s = PHASE_SETTLE) \<and> (wm_manager s = None \<longrightarrow> wm_phase s = PHASE_IDLE) \<and>
     (\<forall>r. wm_next s \<le> r \<longrightarrow> starts r s = []) \<and>
     (\<forall>m. wm_manager s = Some m \<longrightarrow> m < wm_next s \<and> (\<exists>k. starts m s = in_phase k (wm_phase s)))"

text \<open>The manager does not go away while the cohort settles.\<close>

definition stays :: "rop \<Rightarrow> 'a rstate_scheme \<Rightarrow> bool" where
  "stays op s \<longleftrightarrow> (case op of
     Seq (Manager_gone r) \<Rightarrow> wm_manager s = Some r \<longrightarrow> wm_phase s \<noteq> PHASE_SETTLE
   | _ \<Rightarrow> True)"

fun stays_run :: "rop list \<Rightarrow> 'a rstate_scheme \<Rightarrow> bool" where
  "stays_run [] s = True"
| "stays_run (op # ops) s \<longleftrightarrow>
     stays op s \<and> (case run_op op s of Inl _ \<Rightarrow> True | Inr t \<Rightarrow> stays_run ops t)"

lemma alternating_asks: "alternating s \<Longrightarrow> asks s t \<Longrightarrow> alternating t"
  by (auto simp: alternating_def asks_def intro: less_le_trans)

lemma alternating_same:
  "alternating s \<Longrightarrow> wstate.more t = wstate.more s \<Longrightarrow> ws_done t = ws_done s \<or> ws_done t = None \<Longrightarrow> alternating t"
  by (auto simp: alternating_def river_same[of t s] starts_def)

lemma starts_send:
  "starts q (send r e s) = starts q s @ (if q = r \<and> (e = ManageStart \<or> e = RenderStart) then [e] else [])"
  by (simp add: starts_def send_def)

lemma starts_fields [simp]:
  "starts r (s\<lparr>wm_phase := p\<rparr>) = starts r s" "starts r (s\<lparr>wm_dirty := b\<rparr>) = starts r s"
  "starts r (s\<lparr>wm_idle := b\<rparr>) = starts r s" "starts r (s\<lparr>wm_manager := m\<rparr>) = starts r s"
  "starts r (s\<lparr>wm_next_addr := a\<rparr>) = starts r s"
  by (simp_all add: starts_def)

lemma send_fields [simp]:
  "wm_manager (send r e s) = wm_manager s" "wm_phase (send r e s) = wm_phase s" "wm_next (send r e s) = wm_next s"
  "ws_done (send r e s) = ws_done s" "wm_queue (send r e s) = wm_queue s" "wm_dirty (send r e s) = wm_dirty s"
  by (simp_all add: send_def)

lemma alternating_begin_render:
  assumes "alternating s" "wm_phase s = PHASE_SETTLE" "ws_done s = None"
  shows "alternating (begin_render b s)"
proof -
  obtain m k where m: "wm_manager s = Some m" "m < wm_next s" "starts m s = in_phase k PHASE_SETTLE"
    using assms(1,2) by (auto simp: alternating_def)
  define v where "v = fold report_size (wm_windows s) s"
  have v: "asks s v" unfolding v_def by (rule asks_report[OF asks_refl])
  have "begin_render b s = send m RenderStart (v\<lparr>wm_phase := PHASE_RENDER\<rparr>)"
    by (simp add: begin_render_def m(1) v_def)
  moreover have "in_phase k PHASE_SETTLE @ [RenderStart] = in_phase (Suc k) PHASE_RENDER"
    by (simp add: in_phase_def)
  ultimately show ?thesis
    using assms m v by (auto simp: alternating_def starts_send asks_def intro: exI[of _ "Suc k"])
qed

lemma alternating_driven:
  assumes "driven s u" "alternating s"
  shows "alternating u"
proof (cases "asks s u")
  case True
  with assms(2) show ?thesis by (rule alternating_asks)
next
  case False
  then obtain f where f: "u = with_done f s" "drives True s (f s)" using assms(1) by (auto simp: driven_def)
  note more = drivesD(1)[OF f(2)]
  from with_done_cases[of s f, OF f(2)] show ?thesis
  proof (elim disjE conjE exE)
    assume "with_done f s = f s" "ws_done (f s) = ws_done s"
    with f(1) alternating_same[OF assms(2) more] show ?thesis by simp
  next
    fix b assume "ws_done s \<noteq> None" "ws_done (f s) = None" "with_done f s = begin_render b (f s)"
    with f(1) show ?thesis
      using assms(2) alternating_same[OF assms(2) more] alternating_begin_render[of "f s" b]
      by (simp add: alternating_def river_same[OF more])
  qed
qed

lemma alternating_manage_finish:
  assumes "alternating s" "wm_phase s = PHASE_MANAGE"
  shows "alternating (manager_manage_finish r s)"
proof -
  define mem where "mem = (if ws_mem s then Some (wm_next_addr s) else None)"
  define s1 where "s1 = s\<lparr>wm_phase := PHASE_SETTLE, wm_next_addr := wm_next_addr s + 1\<rparr>"
  define s2 where "s2 = snd (swc_transaction_begin mem s1)"
  define s3 where "s3 = fold apply_proposal (wm_windows s2) s2"
  have s1: "alternating s1" "ws_done s1 = None" "wm_phase s1 = PHASE_SETTLE"
    using assms by (auto simp: s1_def alternating_def in_phase_def)
  have d2: "drives True s1 s2" unfolding s2_def by (rule drives_cohort_ops(1)[OF drives_refl])
  have s2: "wstate.more s2 = wstate.more s1" "ws_done s2 = None"
    using drivesD(1)[OF d2] d2 s1(2) by (auto simp: drives_def)
  have quiet: "ws_done t = None \<Longrightarrow> wstate.more (apply_proposal a t) = wstate.more t \<and> ws_done (apply_proposal a t) = None"
    for a and t :: "'a rstate_scheme"
  proof -
    assume t: "ws_done t = None"
    have d: "drives True t (swc_window_set_geometry base g t)" for base g by (rule drives_set_geometry) simp
    have "with_done (swc_window_set_geometry base g) t = swc_window_set_geometry base g t \<and>
        ws_done (swc_window_set_geometry base g t) = None \<and>
        wstate.more (swc_window_set_geometry base g t) = wstate.more t" for base g
      using with_done_cases[of t "swc_window_set_geometry base g", OF d] drivesD(1)[OF d] t by simp
    with t show ?thesis
      by (auto simp: apply_proposal_def Let_def split: option.split)
  qed
  have "ws_done t = None \<Longrightarrow> wstate.more (fold apply_proposal xs t) = wstate.more t \<and> ws_done (fold apply_proposal xs t) = None"
    for xs and t :: "'a rstate_scheme"
    by (induction xs arbitrary: t) (auto simp: quiet)
  with s2 have s3: "wstate.more s3 = wstate.more s1" "ws_done s3 = None" by (auto simp: s3_def)
  define c where "c = swc_transaction_commit 100 (Some 0) s3"
  have c: "wstate.more c = wstate.more s1" and cases: "with_done (swc_transaction_commit 100 (Some 0)) s3 = c \<or>
      ws_done c = None \<and> (\<exists>b. with_done (swc_transaction_commit 100 (Some 0)) s3 = begin_render b c)"
    using commit_cases[where t = s3 and ms = 100 and cb = 0] s3 by (auto simp: c_def)
  have "alternating c"
    using s1(1,3) by (auto simp: alternating_def river_same[OF c] starts_def)
  moreover have "wm_phase c = PHASE_SETTLE" using s1(3) by (simp add: river_same[OF c])
  ultimately have "alternating (with_done (swc_transaction_commit 100 (Some 0)) s3)"
    using cases alternating_begin_render[of c] by auto
  moreover have "manager_manage_finish r s = with_done (swc_transaction_commit 100 (Some 0)) s3"
    by (simp only: manager_manage_finish_def assms(2) Let_def mem_def s1_def s2_def s3_def not_True_eq_False if_False refl) simp
  ultimately show ?thesis by simp
qed

lemma alternating_seq:
  assumes "run_seq op s = Inr u" "alternating s" "stays (Seq op) s"
  shows "alternating u"
proof (cases op)
  case (Bind v)
  show ?thesis
  proof (cases "wm_manager s")
    case (Some m)
    with assms Bind have "asks s u"
      by (auto simp: bind_manager_def Let_def intro!: asks_send split: prod.splits option.splits dest: asks_new_resource_eq)
    with assms(2) show ?thesis by (rule alternating_asks)
  next
    case None
    show ?thesis
    proof (cases "ws_mem s")
      case False
      with None assms Bind show ?thesis by (auto simp: bind_manager_def new_resource_def)
    next
      case True
      define t where "t = (snd (new_resource KManager None v s))\<lparr>wm_manager := Some (wm_next s)\<rparr>"
      have p: "wm_phase s = PHASE_IDLE" "starts (wm_next s) s = []" using assms(2) None by (auto simp: alternating_def)
      have "wm_manager t = Some (wm_next s)" "wm_phase t = PHASE_IDLE" "wm_next t = Suc (wm_next s)"
        "starts q t = starts q s" "ws_done t = ws_done s" for q
        using True p by (simp_all add: t_def new_resource_def starts_def)
      moreover have "in_phase 0 PHASE_IDLE = []" by (simp add: in_phase_def)
      ultimately have "alternating t"
        using assms(2) p(2) unfolding alternating_def by (metis Suc_leD lessI option.inject p(1))
      moreover have "u = schedule_sequence t"
        using assms(1) Bind None True by (auto simp: bind_manager_def Let_def t_def new_resource_def)
      ultimately show ?thesis using alternating_asks asks_schedule[OF asks_refl] by blast
    qed
  qed
next
  case (Manager_gone r)
  with assms(1) have u: "u = manager_resource_destroy r s" by simp
  show ?thesis
  proof (cases "wm_manager s = Some r")
    case True
    have "alternating (s\<lparr>wm_manager := None, wm_phase := PHASE_IDLE\<rparr>)"
      using assms(2,3) True Manager_gone by (auto simp: alternating_def stays_def)
    with manager_destroy_asks[OF True] u show ?thesis by (auto intro: alternating_asks)
  next
    case False
    then show ?thesis using assms(2) u asks_heaps(5)[OF asks_refl]
      by (auto simp: manager_resource_destroy_def intro: alternating_asks)
  qed
next
  case (Manage_finish r)
  show ?thesis
  proof (cases "wm_phase s = PHASE_MANAGE")
    case True
    with Manage_finish assms alternating_manage_finish[of s r] show ?thesis by simp
  next
    case False
    with Manage_finish assms have "asks s u" by (auto simp: manager_manage_finish_def intro!: asks_send)
    with assms(2) show ?thesis by (rule alternating_asks)
  qed
next
  case (Render_finish r)
  show ?thesis
  proof (cases "wm_phase s = PHASE_RENDER")
    case False
    with Render_finish assms have "asks s u" by (auto simp: manager_render_finish_def intro!: asks_send)
    with assms(2) show ?thesis by (rule alternating_asks)
  next
    case True
    define t where "t = swc_transaction_present s"
    have t: "drives True s t" unfolding t_def by (rule drives_cohort_ops(2)[OF drives_refl])
    have d: "ws_done s = None" using assms(2) True by (auto simp: alternating_def)
    have "alternating t" using alternating_same[OF assms(2) drivesD(1)[OF t]] t d by (auto simp: drives_def)
    moreover have "ws_done t = None" using t d by (auto simp: drives_def)
    moreover have "wm_phase t = PHASE_RENDER" using True by (simp add: river_same[OF drivesD(1)[OF t]])
    ultimately have a: "alternating (t\<lparr>wm_phase := PHASE_IDLE\<rparr>)"
      by (auto simp: alternating_def in_phase_def)
    have "u = (if wm_dirty t then schedule_sequence (t\<lparr>wm_phase := PHASE_IDLE\<rparr>) else t\<lparr>wm_phase := PHASE_IDLE\<rparr>)"
      using assms(1) Render_finish True by (simp add: manager_render_finish_def Let_def t_def[symmetric])
    with a show ?thesis using alternating_asks[OF a asks_schedule[OF asks_refl]] by simp
  qed
next
  case Idle
  with assms(1) have b: "begin_manage (s\<lparr>wm_idle := False\<rparr>) = Inr u" by (simp add: handle_idle_def)
  have a: "alternating (s\<lparr>wm_idle := False\<rparr>)" using assms(2) by (simp add: alternating_def)
  from begin_manage_cases[OF b] show ?thesis
  proof (elim disjE exE conjE)
    fix m t
    assume m: "wm_manager (s\<lparr>wm_idle := False\<rparr>) = Some m" and p: "wm_phase (s\<lparr>wm_idle := False\<rparr>) = PHASE_IDLE"
      and t: "asks (s\<lparr>wm_idle := False\<rparr>) t" and u: "u = send m ManageStart (t\<lparr>wm_dirty := False, wm_phase := PHASE_MANAGE\<rparr>)"
    have t': "alternating t" by (rule alternating_asks[OF a t])
    obtain k where k: "starts m t = in_phase k PHASE_IDLE" "m < wm_next t"
      using t' t m p by (auto simp: alternating_def asks_def)
    have "in_phase k PHASE_IDLE @ [ManageStart] = in_phase k PHASE_MANAGE" by (simp add: in_phase_def)
    with t' t m p k u show "alternating u"
      by (auto simp: alternating_def starts_send asks_def intro: exI[of _ k])
  qed (use a in auto)
next
  case (Ack w)
  have "drives True s (window_ack_configure w s)" by (rule drives_cohort_ops(4)[OF drives_refl])
  with Ack assms have "driven s u" by (auto simp: driven_def)
  then show ?thesis using assms(2) by (rule alternating_driven)
next
  case Timeout
  have "drives True s (transaction_timeout s)" by (rule drives_cohort_ops(3)[OF drives_refl])
  with Timeout assms have "driven s u" by (auto simp: driven_def)
  then show ?thesis using assms(2) by (rule alternating_driven)
next
  case (Commit r f)
  have "drives False s (window_commit r f s)" by (rule drives_window_commit[OF drives_refl])
  with Commit assms show ?thesis by (auto intro: alternating_driven[OF driven_drives])
next
  case Manage_dirty
  with assms show ?thesis
    by (auto simp: manager_manage_dirty_def intro: alternating_asks[OF _ asks_schedule[OF asks_refl]])
next
  case (Stop r)
  with assms show ?thesis by (auto simp: manager_stop_def intro: alternating_asks[OF _ asks_send[OF asks_refl]])
next
  case Exit
  with assms show ?thesis by (auto simp: manager_exit_session_def intro: alternating_asks[OF _ asks_fields(19)[OF asks_refl]])
qed

lemma alternating_op:
  "run_op op s = Inr u \<Longrightarrow> alternating s \<Longrightarrow> stays op s \<Longrightarrow> alternating u"
  by (cases "\<exists>x. op = Seq x") (auto intro: alternating_seq alternating_driven op_driven)

lemma alternating_run:
  "run_ops ops s = Inr u \<Longrightarrow> stays_run ops s \<Longrightarrow> alternating s \<Longrightarrow> alternating u"
proof (induction ops arbitrary: s)
  case (Cons op ops)
  then obtain t where t: "run_op op s = Inr t" "run_ops ops t = Inr u" by (auto simp: andThen_Inr)
  with Cons.prems have "alternating t" "stays_run ops t" by (auto intro: alternating_op)
  with Cons.IH[OF t(2)] show ?case by blast
qed simp

end
