(* ===== verification/RiverManager.thy ===== *)
theory RiverManager
  imports RiverSeq
begin

text \<open>
  What the bridge promises its manager: no change is lost, manage and render alternate; and where
  it breaks the promise: a manager that takes over while a cohort settles, and a second manager
  that was told it is unavailable.
\<close>

subsection \<open>A desktop with a bridge\<close>

definition plain_env :: renv where
  "plain_env = \<lparr>en_keysym = (\<lambda>k. k), en_keysym_in = (\<lambda>k _. k), en_layout = (\<lambda>_. 0), en_modifiers = 0,
     en_consumed = (\<lambda>_. 0), en_cursor = True, en_output_name = (\<lambda>_. None), en_seat_name = None,
     en_usable = (\<lambda>_. \<lparr>r_x = 0, r_y = 0, r_w = 800, r_h = 600\<rparr>), en_keyboard = True, en_pointer = True\<rparr>"

text \<open>Two windows of 80 x 60, and the bridge at its start.\<close>

definition two_windows :: rstate where
  "two_windows = river_wm_create (running WINDOW_MODE_STACKED Xdg
     [(1, \<lparr>r_x = 0, r_y = 0, r_w = 80, r_h = 60\<rparr>), (2, \<lparr>r_x = 100, r_y = 0, r_w = 80, r_h = 60\<rparr>)]) plain_env"

lemma create_fields [simp]:
  "wm_manager (river_wm_create s env) = None" "wm_phase (river_wm_create s env) = PHASE_IDLE"
  "wm_queue (river_wm_create s env) = []" "wm_events (river_wm_create s env) = []"
  "ws_done (river_wm_create s env) = ws_done s" "wm_dirty (river_wm_create s env) = False"
  by (simp_all add: river_wm_create_def wstate.extend_def rstate.fields_def)

lemma create_alternating: "ws_done s = None \<Longrightarrow> alternating (river_wm_create s env)"
  by (simp add: alternating_def starts_def)

lemma begin_render_phase [simp]: "wm_phase (begin_render b s) \<noteq> PHASE_MANAGE"
  by (cases "wm_manager s") (simp_all add: begin_render_def Let_def)

lemma settled_phase_driven:
  assumes "driven s u" "wm_phase s \<noteq> PHASE_MANAGE"
  shows "wm_phase u \<noteq> PHASE_MANAGE"
proof (cases "asks s u")
  case True
  with assms(2) show ?thesis by (simp add: asks_def)
next
  case False
  then obtain f where f: "u = with_done f s" "drives True s (f s)" using assms(1) by (auto simp: driven_def)
  with with_done_cases[of s f] assms(2) show ?thesis by (auto simp: river_same[OF drivesD(1)[OF f(2)]])
qed

lemma manage_finish_phase:
  assumes "wm_phase s = PHASE_MANAGE"
  shows "wm_phase (manager_manage_finish r s) \<noteq> PHASE_MANAGE"
proof -
  define mem where "mem = (if ws_mem s then Some (wm_next_addr s) else None)"
  define s1 where "s1 = s\<lparr>wm_phase := PHASE_SETTLE, wm_next_addr := wm_next_addr s + 1\<rparr>"
  define s2 where "s2 = snd (swc_transaction_begin mem s1)"
  define s3 where "s3 = fold apply_proposal (wm_windows s2) s2"
  have "drives True s1 s2" unfolding s2_def by (rule drives_cohort_ops(1)[OF drives_refl])
  then have "wm_phase s2 \<noteq> PHASE_MANAGE" by (simp add: river_same[OF drivesD(1)] s1_def)
  moreover have "wm_phase t \<noteq> PHASE_MANAGE \<Longrightarrow> wm_phase (fold apply_proposal xs t) \<noteq> PHASE_MANAGE" for xs and t :: "'a rstate_scheme"
    by (induction xs arbitrary: t) (auto dest: settled_phase_driven[OF apply_proposal_driven])
  ultimately have s3: "wm_phase s3 \<noteq> PHASE_MANAGE" by (simp add: s3_def)
  define u where "u = with_done (swc_transaction_commit 100 (Some 0)) s3"
  have "wm_phase u \<noteq> PHASE_MANAGE"
    using commit_cases[where t = s3 and ms = 100 and cb = 0] s3
      river_same(2)[of "swc_transaction_commit 100 (Some 0) s3" s3]
    unfolding u_def by auto
  moreover have "manager_manage_finish r s = u"
    by (simp only: manager_manage_finish_def assms Let_def mem_def s1_def s2_def s3_def u_def not_True_eq_False if_False refl) simp
  ultimately show ?thesis by simp
qed

subsection \<open>No change is lost\<close>


subsection \<open>Alternation\<close>

text \<open>C28: unless the manager goes away while a cohort settles, every manager is sent
  \<open>manage_start\<close> and \<open>render_start\<close> in strict alternation, beginning with \<open>manage_start\<close>, and
  the phase tells which of the two it was sent last.\<close>

theorem sequences_alternate:
  assumes "ws_done s = None" "run_ops ops (river_wm_create s env) = Inr t"
    and "stays_run ops (river_wm_create s env)" "wm_manager t = Some m"
  shows "\<exists>k. starts m t = in_phase k (wm_phase t)"
  using alternating_run[OF assms(2,3) create_alternating[OF assms(1)]] assms(4) by (auto simp: alternating_def)

text \<open>C29: a manager that takes over while the cohort of its predecessor settles is sent
  \<open>render_start\<close> in the middle of its own manage sequence, as soon as that cohort completes; its
  \<open>manage_finish\<close> is then answered with a protocol error, which disconnects it.\<close>

theorem takeover_while_settling:
  assumes "wm_manager s = Some m" "wm_phase s = PHASE_SETTLE" "ws_done s = Some cb" "ws_mem s"
    and "run_ops [Seq (Manager_gone m), Seq (Bind v), Seq Idle] s = Inr t"
    and "op \<in> {Seq Timeout, Seq (Ack w)}" "run_op op t = Inr u" "ws_done u = None"
  shows "wm_manager t = Some (wm_next s) \<and> wm_phase t = PHASE_MANAGE \<and>
    last (wm_events u) = (wm_next s, RenderStart) \<and>
    manager_manage_finish (wm_next s) u = send (wm_next s) SequenceOrderError u"
proof -
  define s1 where "s1 = manager_resource_destroy m s"
  define s2 where "s2 = bind_manager v s1"
  have i: "begin_manage (s2\<lparr>wm_idle := False\<rparr>) = Inr t"
    using assms(5) by (auto simp: s1_def s2_def andThen_Inr handle_idle_def)
  have a1: "asks (s\<lparr>wm_manager := None, wm_phase := PHASE_IDLE\<rparr>) s1"
    unfolding s1_def by (rule manager_destroy_asks[OF assms(1)])
  have f1: "wm_next (fold (\<lambda>a. updrw a fw) ws x) = wm_next x" "ws_mem (fold (\<lambda>a. updrw a fw) ws x) = ws_mem x"
    "wm_next (fold (\<lambda>a. updro a fo) ws x) = wm_next x" "ws_mem (fold (\<lambda>a. updro a fo) ws x) = ws_mem x"
    for fw fo ws and x :: "'a rstate_scheme"
    by (induction ws arbitrary: x) (simp_all add: updrw_def updro_def)
  have s1: "wm_manager s1 = None" "wm_phase s1 = PHASE_IDLE" "ws_done s1 = Some cb" "wm_next s1 = wm_next s" "ws_mem s1"
  proof -
    show "wm_next s1 = wm_next s" "ws_mem s1"
      using assms(1,4) by (simp_all add: s1_def manager_resource_destroy_def drop_resource_def Let_def f1)
  qed (use a1 assms(3) in \<open>simp_all add: asks_def\<close>)
  have s2: "wm_manager s2 = Some (wm_next s)" "wm_phase s2 = PHASE_IDLE" "ws_done s2 = Some cb"
    using s1 by (simp_all add: s2_def bind_manager_def new_resource_def schedule_sequence_def Let_def)
  from begin_manage_cases[OF i] s2 have t: "wm_manager t = Some (wm_next s)" "wm_phase t = PHASE_MANAGE" "ws_done t = Some cb"
    by (auto simp: asks_def)
  have render: "last (wm_events u) = (wm_next s, RenderStart) \<and>
      manager_manage_finish (wm_next s) u = send (wm_next s) SequenceOrderError u"
    if "drives True t (f t)" "u = with_done f t" "ws_done u = None" for f u
  proof -
    from with_done_cases[of t f, OF that(1)] that t(3) obtain b where u: "u = begin_render b (f t)" by auto
    have "wm_manager (f t) = Some (wm_next s)" using t(1) by (simp add: river_same[OF drivesD(1)[OF that(1)]])
    then show ?thesis by (simp add: u begin_render_def Let_def send_def manager_manage_finish_def)
  qed
  from t assms(6-8) show ?thesis
    using render[of transaction_timeout, OF drives_cohort_ops(3)[OF drives_refl]]
      render[of "window_ack_configure w", OF drives_cohort_ops(4)[OF drives_refl]] by auto
qed

subsection \<open>A second manager\<close>

text \<open>a client that binds the manager while another one is bound is told it is unavailable,
  but its requests are served: its \<open>manage_finish\<close> ends the manage sequence of the manager, as the
  manager's own would, and the manager's is then answered with a protocol error.\<close>

theorem unavailable_manager_is_served:
  assumes "wm_manager s = Some m" "wm_phase s = PHASE_MANAGE" "ws_mem s" "ws_done s = None"
    and s1_def: "s1 = bind_manager v s" and s2_def: "s2 = manager_manage_finish (wm_next s) s1"
  shows "last (wm_events s1) = (wm_next s, Unavailable) \<and> s2 = manager_manage_finish m s1 \<and>
    manager_manage_finish m s2 = send m SequenceOrderError s2"
proof -
  have s1: "wm_phase s1 = PHASE_MANAGE" "last (wm_events s1) = (wm_next s, Unavailable)" "ws_done s1 = None"
    "wm_manager s1 = Some m"
    using assms by (simp_all add: s1_def bind_manager_def new_resource_def send_def)
  have "s2 = manager_manage_finish m s1" unfolding s2_def by (simp only: manager_manage_finish_def s1(1) simp_thms if_False)
  moreover have "wm_phase s2 \<noteq> PHASE_MANAGE"
    unfolding s2_def by (rule manage_finish_phase[OF s1(1)])
  ultimately show ?thesis using s1(2) by (simp add: manager_manage_finish_def)
qed

subsection \<open>A manager that has just bound\<close>

definition bound :: rstate where
  "bound = bind_manager 5 two_windows"

lemma bound_run: "run_ops [Seq (Bind 5)] two_windows = Inr bound"
  by (simp add: bound_def)

lemma two_windows_fields [simp]:
  "ws_mem two_windows" "ws_done two_windows = None" "wm_next two_windows = 0" "wm_manager two_windows = None"
  "wm_phase two_windows = PHASE_IDLE" "\<not> wm_idle two_windows"
  "wm_windows two_windows = []" "wm_outputs two_windows = []" "wm_queue two_windows = []"
  by (simp_all add: two_windows_def river_wm_create_def wstate.extend_def rstate.fields_def running_def Let_def)

lemma bound_fields [simp]:
  "wm_manager bound = Some 0" "wm_phase bound = PHASE_IDLE" "wm_dirty bound" "ws_mem bound" "ws_done bound = None"
  "wm_next bound = Suc 0" "wm_idle bound"
  "wm_windows bound = []" "wm_outputs bound = []" "wm_queue bound = []"
  by (simp_all add: bound_def bind_manager_def new_resource_def schedule_sequence_def)

theorem sequences_alternate_witness: "\<exists>k. starts 0 bound = in_phase k (wm_phase bound)"
  by (rule sequences_alternate[OF _ bound_run[unfolded two_windows_def]]) (simp_all add: stays_def running_def Let_def)

lemma begin_manage_empty:
  assumes "wm_windows s = []" "wm_outputs s = []" "wm_queue s = []"
  shows "\<exists>u. begin_manage s = Inr u"
proof -
  have "wm_queue (send_pointer_position (advertise_seat s)) = []"
    using assms by (auto simp: send_pointer_position_def advertise_seat_def ensure_pointer_observer_def new_resource_def
        send_def Let_def split: option.split)
  moreover have "wm_outputs t = [] \<Longrightarrow> wm_outputs (advertise_seat t) = []" "wm_windows t = [] \<Longrightarrow> wm_windows (advertise_seat t) = []" for t :: "'a rstate_scheme"
    by (auto simp: advertise_seat_def ensure_pointer_observer_def new_resource_def
        send_def Let_def split: option.split)
  ultimately show ?thesis using assms by (auto simp: begin_manage_def Let_def split: option.split)
qed


text \<open>A cohort settles: the manager finished its proposals and no window has answered.\<close>

definition settling :: rstate where
  "settling = bound\<lparr>wm_phase := PHASE_SETTLE, ws_done := Some 0, ws_trans := Some (9, 
    \<lparr>has_handler = True, participants = [], timer = Some 100, t_size = 1, t_pending = 1, committed = True, complete = False\<rparr>)\<rparr>"

theorem takeover_while_settling_witness:
  "\<exists>t u. run_ops [Seq (Manager_gone 0), Seq (Bind 5), Seq Idle] settling = Inr t \<and> run_op (Seq Timeout) t = Inr u \<and>
    wm_phase t = PHASE_MANAGE \<and> last (wm_events u) = (wm_next settling, RenderStart)"
proof -
  have "case run_ops [Seq (Manager_gone 0), Seq (Bind 5), Seq Idle] settling of Inl _ \<Rightarrow> False
      | Inr t \<Rightarrow> (case run_op (Seq Timeout) t of Inl _ \<Rightarrow> False | Inr u \<Rightarrow> ws_done u = None)"
    by code_simp
  then obtain t u where t: "run_ops [Seq (Manager_gone 0), Seq (Bind 5), Seq Idle] settling = Inr t"
    "run_op (Seq Timeout) t = Inr u" "ws_done u = None"
    by (auto split: sum.splits)
  have "wm_manager settling = Some 0" "wm_phase settling = PHASE_SETTLE" "ws_done settling = Some 0" "ws_mem settling"
    by (simp_all add: settling_def)
  from takeover_while_settling[OF this t(1) _ t(2,3), of 1] t show ?thesis by blast
qed

text \<open>The manager has been sent \<open>manage_start\<close>.\<close>

definition managing :: rstate where
  "managing = bound\<lparr>wm_phase := PHASE_MANAGE\<rparr>"

theorem unavailable_manager_is_served_witness:
  "last (wm_events (bind_manager 5 managing)) = (1, Unavailable) \<and>
   manager_manage_finish 1 (bind_manager 5 managing) = manager_manage_finish 0 (bind_manager 5 managing) \<and>
   manager_manage_finish 0 (manager_manage_finish 1 (bind_manager 5 managing)) =
     send 0 SequenceOrderError (manager_manage_finish 1 (bind_manager 5 managing))"
  using unavailable_manager_is_served[of managing 0 _ 5] by (simp add: managing_def)

end
