(* ===== verification/RiverTyped.thy ===== *)
theory RiverTyped
  imports RiverManager
begin

text \<open>
  Every pointer of \<open>wm/river_wm.c\<close> leads somewhere. A typing of the bridge says what the user data
  of each protocol object, the back pointers of windows, outputs, bindings and shell surfaces, the
  queued events and the pointer bindings of \<open>libswc\<close> point to; every operation keeps it, as long as
  the client and \<open>libswc\<close> stay away from four traps (\<open>proper\<close>), each of which is shown to be one.
\<close>

subsection \<open>The typing\<close>

text \<open>The resources of an interface whose user data is an address, and those of an interface.\<close>

definition points :: "(nat \<Rightarrow> resource option) \<Rightarrow> iface \<Rightarrow> nat \<Rightarrow> addr \<Rightarrow> bool" where
  "points R k r a = (case R r of None \<Rightarrow> False | Some x \<Rightarrow> rr_iface x = k \<and> rr_data x = Some a)"

definition is_a :: "(nat \<Rightarrow> resource option) \<Rightarrow> iface \<Rightarrow> nat \<Rightarrow> bool" where
  "is_a R k r = (case R r of None \<Rightarrow> False | Some x \<Rightarrow> rr_iface x = k)"

text \<open>A heap of objects: whatever a resource points to exists (\<open>Q r a\<close>: resource \<open>r\<close> points to
  \<open>a\<close>), and every object is as it should be.\<close>

definition typed_heap :: "(nat \<Rightarrow> addr \<Rightarrow> bool) \<Rightarrow> (addr \<Rightarrow> 'x \<Rightarrow> bool) \<Rightarrow> (addr \<Rightarrow> 'x option) \<Rightarrow> bool" where
  "typed_heap Q good H \<longleftrightarrow> (\<forall>r a. Q r a \<longrightarrow> H a \<noteq> None) \<and> (\<forall>a x. H a = Some x \<longrightarrow> good a x)"

text \<open>A window knows resources that point to it; once \<open>libswc\<close> let go of it, it knows every resource
  that points to it, so that the last of them to go frees it. \<open>P\<close> and \<open>N\<close> are what the window
  and the node resources point to.\<close>

definition knows :: "(nat \<Rightarrow> addr \<Rightarrow> bool) \<Rightarrow> (nat \<Rightarrow> addr \<Rightarrow> bool) \<Rightarrow> addr \<Rightarrow> river_window \<Rightarrow> bool" where
  "knows P N a x \<longleftrightarrow>
     (\<forall>r. rw_resource x = Some r \<longrightarrow> P r a) \<and> (\<forall>r. rw_node x = Some r \<longrightarrow> N r a) \<and>
     (rw_swc x = None \<longrightarrow> (\<forall>r. P r a \<longleftrightarrow> rw_resource x = Some r) \<and> (\<forall>r. N r a \<longleftrightarrow> rw_node x = Some r))"

definition window_typed ::
  "(nat \<Rightarrow> addr \<Rightarrow> bool) \<Rightarrow> (nat \<Rightarrow> addr \<Rightarrow> bool) \<Rightarrow> (addr \<Rightarrow> river_window option) \<Rightarrow> bool" where
  "window_typed P N H \<longleftrightarrow> typed_heap (\<lambda>r a. P r a \<or> N r a) (knows P N) H"

definition listed :: "(addr \<Rightarrow> river_window option) \<Rightarrow> addr list \<Rightarrow> bool" where
  "listed H ws \<longleftrightarrow> distinct ws \<and> (\<forall>a \<in> set ws. \<exists>x. H a = Some x \<and> rw_swc x \<noteq> None)"

definition output_good :: "(nat \<Rightarrow> addr \<Rightarrow> bool) \<Rightarrow> (nat \<Rightarrow> addr \<Rightarrow> bool) \<Rightarrow> addr \<Rightarrow> river_output \<Rightarrow> bool" where
  "output_good P L a x \<longleftrightarrow>
     (\<forall>r. ro_resource x = Some r \<longrightarrow> P r a) \<and> (\<forall>r. ro_layer_shell x = Some r \<longrightarrow> L r a)"

definition output_typed ::
  "(nat \<Rightarrow> addr \<Rightarrow> bool) \<Rightarrow> (nat \<Rightarrow> addr \<Rightarrow> bool) \<Rightarrow> (addr \<Rightarrow> river_output option) \<Rightarrow> addr list \<Rightarrow> bool" where
  "output_typed P L H os \<longleftrightarrow>
     typed_heap (\<lambda>r a. P r a \<or> L r a) (output_good P L) H \<and> distinct os \<and> (\<forall>a \<in> set os. H a \<noteq> None)"

definition shell_good ::
  "(nat \<Rightarrow> addr \<Rightarrow> bool) \<Rightarrow> (nat \<Rightarrow> addr \<Rightarrow> bool) \<Rightarrow> addr \<Rightarrow> river_shell_surface \<Rightarrow> bool" where
  "shell_good P N a x \<longleftrightarrow> (\<forall>r. P r a \<longleftrightarrow> rs_resource x = r) \<and> (\<forall>r. N r a \<longleftrightarrow> rs_node x = Some r)"

definition shell_typed ::
  "(nat \<Rightarrow> addr \<Rightarrow> bool) \<Rightarrow> (nat \<Rightarrow> addr \<Rightarrow> bool) \<Rightarrow> (addr \<Rightarrow> river_shell_surface option) \<Rightarrow> bool" where
  "shell_typed P N H \<longleftrightarrow> typed_heap (\<lambda>r a. P r a \<or> N r a) (shell_good P N) H"

definition binding_good :: "(nat \<Rightarrow> addr \<Rightarrow> bool) \<Rightarrow> (nat \<Rightarrow> addr \<Rightarrow> bool) \<Rightarrow> addr \<Rightarrow> river_binding \<Rightarrow> bool" where
  "binding_good K B b x \<longleftrightarrow>
     rb_modifiers x \<noteq> MOD_ANY \<and> (rb_type x = BINDING_KEY \<or> rb_type x = BINDING_BUTTON) \<and>
     (\<forall>r. K r b \<longleftrightarrow> rb_type x = BINDING_KEY \<and> rb_resource x = r) \<and>
     (\<forall>r. B r b \<longleftrightarrow> rb_type x = BINDING_BUTTON \<and> rb_resource x = r)"

definition binding_typed ::
  "(nat \<Rightarrow> addr \<Rightarrow> bool) \<Rightarrow> (nat \<Rightarrow> addr \<Rightarrow> bool) \<Rightarrow> (addr \<Rightarrow> river_binding option) \<Rightarrow> addr list \<Rightarrow> bool" where
  "binding_typed K B H ks \<longleftrightarrow>
     typed_heap (\<lambda>r b. K r b \<or> B r b) (binding_good K B) H \<and> distinct ks \<and>
     (\<forall>b \<in> set ks. \<exists>x. H b = Some x \<and> rb_type x = BINDING_KEY)"

text \<open>The pointer bindings of \<open>libswc\<close> are registered ones, no two of them for the same button and
  modifiers.\<close>

definition registrations :: "(addr \<Rightarrow> river_binding option) \<Rightarrow> barray \<Rightarrow> bool" where
  "registrations H a \<longleftrightarrow>
     ba_wf a \<and> distinct (map (\<lambda>d. (bi_value d, bi_modifiers d)) (ba_elems a)) \<and>
     (\<forall>d \<in> set (ba_elems a). \<exists>x. H (bi_data d) = Some x \<and> rb_type x = BINDING_BUTTON \<and> rb_registered x \<and>
        rb_keysym x = bi_value d \<and> rb_modifiers x = bi_modifiers d)"

definition queued :: "(addr \<Rightarrow> river_window option) \<Rightarrow> (addr \<Rightarrow> river_binding option) \<Rightarrow> binding_event list \<Rightarrow> bool" where
  "queued W B q \<longleftrightarrow>
     (\<forall>e \<in> set q. (\<forall>b. event_binding e = Some b \<longrightarrow> B b \<noteq> None) \<and> (\<forall>a. event_window e = Some a \<longrightarrow> W a \<noteq> None))"

definition known :: "(nat \<Rightarrow> resource option) \<Rightarrow> iface \<Rightarrow> nat option \<Rightarrow> bool" where
  "known R k v \<longleftrightarrow> (\<forall>r. v = Some r \<longrightarrow> is_a R k r)"

text \<open>The user data of a binding's object is never null.\<close>

definition bound_data :: "(nat \<Rightarrow> resource option) \<Rightarrow> bool" where
  "bound_data R \<longleftrightarrow>
     (\<forall>r. is_a R KXkbBinding r \<longrightarrow> (\<exists>b. points R KXkbBinding r b)) \<and>
     (\<forall>r. is_a R KPointerBinding r \<longrightarrow> (\<exists>b. points R KPointerBinding r b))"

text \<open>What is allocated is below the next address, and no address is used twice.\<close>

definition allocated :: "'a rstate_scheme \<Rightarrow> bool" where
  "allocated s \<longleftrightarrow>
     (\<forall>r. wm_next s \<le> r \<longrightarrow> wm_res s r = None) \<and>
     (\<forall>a. wm_next_addr s \<le> a \<longrightarrow> wm_win s a = None \<and> wm_out s a = None \<and> wm_shell s a = None \<and> wm_bind s a = None) \<and>
     (\<forall>a. wm_win s a \<noteq> None \<longrightarrow> wm_shell s a = None)"

definition well_typed :: "'a rstate_scheme \<Rightarrow> bool" where
  "well_typed s \<longleftrightarrow>
     window_typed (points (wm_res s) KWindow) (points (wm_res s) KNode) (wm_win s) \<and>
     listed (wm_win s) (wm_windows s) \<and>
     output_typed (points (wm_res s) KOutput) (points (wm_res s) KLayerOutput) (wm_out s) (wm_outputs s) \<and>
     shell_typed (points (wm_res s) KShellSurface) (points (wm_res s) KShellNode) (wm_shell s) \<and>
     binding_typed (points (wm_res s) KXkbBinding) (points (wm_res s) KPointerBinding) (wm_bind s) (wm_key_bindings s) \<and>
     registrations (wm_bind s) (button_bindings (wm_swc s)) \<and>
     queued (wm_win s) (wm_bind s) (wm_queue s) \<and> bound_data (wm_res s) \<and>
     known (wm_res s) KManager (wm_manager s) \<and> known (wm_res s) KSeat (wm_seat s) \<and>
     known (wm_res s) KLayerSeat (wm_layer_seat s) \<and> known (wm_res s) KXkbSeat (wm_xkb_seat s) \<and>
     allocated s"

subsection \<open>Proper use\<close>

text \<open>libwayland hands a request only objects of the interface it takes. Beyond that, four traps
  are excluded: an output of the layer shell that outlives its screen, a window or output whose
  protocol object was forgotten when the manager object went first, two pointer bindings for the
  same button and modifiers, and a node of a shell surface as the sibling of a window.\<close>

primrec proper_seq :: "seq_op \<Rightarrow> 'a rstate_scheme \<Rightarrow> bool" where
  "proper_seq (Bind v) s = True"
| "proper_seq (Manager_gone r) s = is_a (wm_res s) KManager r"
| "proper_seq (Manage_finish r) s = True"
| "proper_seq (Render_finish r) s = True"
| "proper_seq Manage_dirty s = True"
| "proper_seq (Stop r) s = True"
| "proper_seq Exit s = True"
| "proper_seq Idle s = True"
| "proper_seq (Ack w) s = True"
| "proper_seq Timeout s = True"
| "proper_seq (Commit r f) s = True"

primrec proper_shell :: "shell_op \<Rightarrow> 'a rstate_scheme \<Rightarrow> bool" where
  "proper_shell (Get_shell r mem f) s = True"
| "proper_shell (Shell_get_node r) s = is_a (wm_res s) KShellSurface r"
| "proper_shell (Shell_position r x y) s = is_a (wm_res s) KShellNode r"
| "proper_shell (Shell_top r) s = is_a (wm_res s) KShellNode r"
| "proper_shell (Shell_bottom r) s = is_a (wm_res s) KShellNode r"
| "proper_shell (Shell_node_gone r) s = is_a (wm_res s) KShellNode r"
| "proper_shell (Shell_gone r) s = is_a (wm_res s) KShellSurface r"

primrec proper_node :: "node_op \<Rightarrow> 'a rstate_scheme \<Rightarrow> bool" where
  "proper_node (Node_position r x y) s = is_a (wm_res s) KNode r"
| "proper_node (Node_top r) s = is_a (wm_res s) KNode r"
| "proper_node (Node_bottom r) s = is_a (wm_res s) KNode r"
| "proper_node (Node_relative r sib abv) s \<longleftrightarrow>
     is_a (wm_res s) KNode r \<and> (case sib of None \<Rightarrow> True | Some q \<Rightarrow> is_a (wm_res s) KNode q)"
| "proper_node (Node_gone r) s = is_a (wm_res s) KNode r"
| "proper_node (Get_node r) s = is_a (wm_res s) KWindow r"

fun window_target :: "window_op \<Rightarrow> nat" where
  "window_target (Close r) = r" | "window_target (Propose r w h) = r" | "window_target (Hide r) = r"
| "window_target (Show r) = r" | "window_target (Fullscreen r out) = r" | "window_target (Exit_fullscreen r) = r"
| "window_target (Borders r w x y z u) = r" | "window_target (Tiled r) = r" | "window_target (Box r x y w h) = r"
| "window_target (Content_box r x y w h) = r" | "window_target (Window_gone r) = r"

definition proper_window :: "window_op \<Rightarrow> 'a rstate_scheme \<Rightarrow> bool" where
  "proper_window op s \<longleftrightarrow>
     is_a (wm_res s) KWindow (window_target op) \<and>
     (case op of Fullscreen r (Some out) \<Rightarrow> is_a (wm_res s) KOutput out | _ \<Rightarrow> True)"

primrec proper_output :: "output_op \<Rightarrow> 'a rstate_scheme \<Rightarrow> bool" where
  "proper_output (Output_gone r) s = is_a (wm_res s) KOutput r"
| "proper_output (Layer_get_output l r) s = is_a (wm_res s) KOutput r"
| "proper_output (Layer_output_gone r) s = is_a (wm_res s) KLayerOutput r"
| "proper_output (Layer_get_seat l) s = True"
| "proper_output (Layer_seat_gone r) s = is_a (wm_res s) KLayerSeat r"
| "proper_output (Focus r) s = (case r of None \<Rightarrow> True | Some r \<Rightarrow> is_a (wm_res s) KWindow r)"
| "proper_output Clear_focus s = True"
| "proper_output (Seat_gone r) s = is_a (wm_res s) KSeat r"

text \<open>No pointer binding of \<open>libswc\<close> is for the button and the modifiers of this one.\<close>

definition unclaimed :: "nat \<Rightarrow> 'a rstate_scheme \<Rightarrow> bool" where
  "unclaimed r s \<longleftrightarrow>
     (case wm_res s r of
        None \<Rightarrow> True
      | Some x \<Rightarrow>
          (case rr_data x of
             None \<Rightarrow> True
           | Some b \<Rightarrow> \<forall>d \<in> set (ba_elems (button_bindings (wm_swc s))).
                        bi_value d \<noteq> rb_keysym (rbind s b) \<or> bi_modifiers d \<noteq> rb_modifiers (rbind s b)))"

definition is_binding :: "'a rstate_scheme \<Rightarrow> nat \<Rightarrow> bool" where
  "is_binding s r \<longleftrightarrow> is_a (wm_res s) KXkbBinding r \<or> is_a (wm_res s) KPointerBinding r"

primrec proper_binding :: "binding_op \<Rightarrow> 'a rstate_scheme \<Rightarrow> bool" where
  "proper_binding (Key_binding v k m) s = True"
| "proper_binding (Pointer_binding v b m) s = True"
| "proper_binding (Enable moved r) s \<longleftrightarrow> is_binding s r \<and> unclaimed r s"
| "proper_binding (Disable r) s = is_binding s r"
| "proper_binding (Layout r l) s = is_binding s r"
| "proper_binding (Binding_gone r) s = is_binding s r"
| "proper_binding (Get_xkb_seat v) s = True"
| "proper_binding (Xkb_seat_gone r) s = is_a (wm_res s) KXkbSeat r"
| "proper_binding Eat_next s = True"
| "proper_binding Cancel_eat s = True"
| "proper_binding (Watch m) s = True"

text \<open>\<open>libswc\<close> calls \<open>binding_pressed\<close> for a binding in its array, and the handlers of windows and
  screens it was given.\<close>

primrec proper_input :: "input_op \<Rightarrow> 'a rstate_scheme \<Rightarrow> bool" where
  "proper_input (Key k released) s = True"
| "proper_input (Modifiers p c) s = True"
| "proper_input (Button pressed swc) s = True"
| "proper_input (Fire b state) s \<longleftrightarrow> b \<in> bi_data ` set (ba_elems (button_bindings (wm_swc s)))"

definition sole_output :: "addr \<Rightarrow> 'a rstate_scheme \<Rightarrow> bool" where
  "sole_output a s \<longleftrightarrow>
     (\<forall>r < wm_next s. (points (wm_res s) KOutput r a \<longrightarrow> ro_resource (rout s a) = Some r) \<and>
        \<not> points (wm_res s) KLayerOutput r a)"

definition sole_window :: "addr \<Rightarrow> 'a rstate_scheme \<Rightarrow> bool" where
  "sole_window a s \<longleftrightarrow>
     (\<forall>r < wm_next s. (points (wm_res s) KWindow r a \<longrightarrow> rw_resource (rwin s a) = Some r) \<and>
        (points (wm_res s) KNode r a \<longrightarrow> rw_node (rwin s a) = Some r))"

primrec proper_swc :: "swc_op \<Rightarrow> 'a rstate_scheme \<Rightarrow> bool" where
  "proper_swc (Add_screen n) s = True"
| "proper_swc (Screen_destroyed a) s \<longleftrightarrow> a \<in> set (wm_outputs s) \<and> sole_output a s"
| "proper_swc (Screen_geometry a) s \<longleftrightarrow> a \<in> set (wm_outputs s)"
| "proper_swc (Add_window w) s = True"
| "proper_swc (Window_destroyed a) s \<longleftrightarrow> a \<in> set (wm_windows s) \<and> sole_window a s"
| "proper_swc (Title_changed a) s \<longleftrightarrow> a \<in> set (wm_windows s)"
| "proper_swc (App_id_changed a) s \<longleftrightarrow> a \<in> set (wm_windows s)"
| "proper_swc (Entered a) s \<longleftrightarrow> a \<in> set (wm_windows s)"
| "proper_swc (Left a) s \<longleftrightarrow> a \<in> set (wm_windows s)"

primrec proper :: "rop \<Rightarrow> 'a rstate_scheme \<Rightarrow> bool" where
  "proper (Seq op) s = proper_seq op s"
| "proper (Shell op) s = proper_shell op s"
| "proper (Nod op) s = proper_node op s"
| "proper (Win op) s = proper_window op s"
| "proper (Out op) s = proper_output op s"
| "proper (Bnd op) s = proper_binding op s"
| "proper (Inp op) s = proper_input op s"
| "proper (Swc op) s = proper_swc op s"

fun proper_run :: "rop list \<Rightarrow> 'a rstate_scheme \<Rightarrow> bool" where
  "proper_run [] s = True"
| "proper_run (op # ops) s \<longleftrightarrow>
     proper op s \<and> (case run_op op s of Inl _ \<Rightarrow> True | Inr t \<Rightarrow> proper_run ops t)"

subsection \<open>Resources\<close>

lemma points_drop: "points (R(r := None)) k = (\<lambda>q a. q \<noteq> r \<and> points R k q a)"
  by (auto simp: points_def fun_eq_iff)

lemma points_clear:
  "points (R(r := map_option (\<lambda>x. x\<lparr>rr_data := None\<rparr>) (R r))) k = (\<lambda>q a. q \<noteq> r \<and> points R k q a)"
  by (auto simp: points_def fun_eq_iff split: option.splits)

lemma points_new:
  "points (R(r \<mapsto> x)) k = (\<lambda>q a. if q = r then rr_iface x = k \<and> rr_data x = Some a else points R k q a)"
  by (auto simp: points_def fun_eq_iff)

lemma is_a_upd:
  "is_a (R(r := None)) k q \<longleftrightarrow> q \<noteq> r \<and> is_a R k q"
  "is_a (R(r := map_option (\<lambda>x. x\<lparr>rr_data := None\<rparr>) (R r))) k q \<longleftrightarrow> is_a R k q"
  "is_a (R(r \<mapsto> x)) k q \<longleftrightarrow> (if q = r then rr_iface x = k else is_a R k q)"
  by (auto simp: is_a_def split: option.splits)

lemma points_is_a: "points R k r a \<Longrightarrow> is_a R k r"
  by (auto simp: points_def is_a_def split: option.splits)

lemma points_det: "points R k r a \<Longrightarrow> points R k r b \<Longrightarrow> a = b"
  by (auto simp: points_def split: option.splits)

lemma is_a_det: "is_a R k r \<Longrightarrow> is_a R j r \<Longrightarrow> k = j"
  by (auto simp: is_a_def split: option.splits)

text \<open>Resources of another interface do not matter.\<close>

lemma points_other:
  assumes "is_a R j r" "k \<noteq> j"
  shows "points (R(r := None)) k = points R k"
    "points (R(r := map_option (\<lambda>x. x\<lparr>rr_data := None\<rparr>) (R r))) k = points R k"
  using assms by (auto simp: points_def is_a_def fun_eq_iff split: option.splits)

lemma points_other_new:
  assumes "R r = None" "rr_iface x \<noteq> k \<or> rr_data x = None"
  shows "points (R(r \<mapsto> x)) k = points R k"
  using assms by (auto simp: points_def fun_eq_iff)

lemma known_upd:
  "known R k v \<Longrightarrow> v \<noteq> Some r \<Longrightarrow> known (R(r := None)) k v"
  "known R k v \<Longrightarrow> known (R(r := map_option (\<lambda>x. x\<lparr>rr_data := None\<rparr>) (R r))) k v"
  "known R k v \<Longrightarrow> R r = None \<Longrightarrow> known (R(r \<mapsto> x)) k v"
  "known R k None"
  by (auto simp: known_def is_a_upd) (auto simp: is_a_def)

lemma known_other: "known R k v \<Longrightarrow> is_a R j r \<Longrightarrow> k \<noteq> j \<Longrightarrow> known (R(r := None)) k v"
  by (auto simp: known_def is_a_upd dest: is_a_det)

lemma bound_data_upd:
  "bound_data R \<Longrightarrow> bound_data (R(r := None))"
  "bound_data R \<Longrightarrow> is_a R j r \<Longrightarrow> j \<noteq> KXkbBinding \<Longrightarrow> j \<noteq> KPointerBinding \<Longrightarrow>
     bound_data (R(r := map_option (\<lambda>x. x\<lparr>rr_data := None\<rparr>) (R r)))"
  "bound_data R \<Longrightarrow> rr_data x \<noteq> None \<or> rr_iface x \<noteq> KXkbBinding \<and> rr_iface x \<noteq> KPointerBinding \<Longrightarrow>
     bound_data (R(r \<mapsto> x))"
  by (auto simp: bound_data_def is_a_upd points_drop points_clear points_new dest: is_a_det)

lemma drop_idle: "(\<And>a. \<not> N r a) \<Longrightarrow> (\<lambda>q b. q \<noteq> r \<and> N q b) = N"
  by (auto simp: fun_eq_iff)

subsection \<open>Heaps\<close>

lemma heap_good: "typed_heap Q L H \<Longrightarrow> H a = Some x \<Longrightarrow> L a x"
  by (simp add: typed_heap_def)

lemma heap_there: "typed_heap Q L H \<Longrightarrow> Q r a \<Longrightarrow> H a \<noteq> None"
  unfolding typed_heap_def by blast

lemma heapI:
  assumes "\<And>r a. Q r a \<Longrightarrow> H a \<noteq> None" "\<And>a x. H a = Some x \<Longrightarrow> L a x"
  shows "typed_heap Q L H"
  unfolding typed_heap_def using assms by blast

text \<open>Everything that changes one object.\<close>

lemma heap_change:
  assumes "typed_heap Q L H" "L' a x" "\<And>r b. b \<noteq> a \<Longrightarrow> Q' r b \<Longrightarrow> Q r b" "\<And>b y. b \<noteq> a \<Longrightarrow> L b y \<Longrightarrow> L' b y"
  shows "typed_heap Q' L' (H(a \<mapsto> x))"
proof (rule heapI)
  fix b y assume y: "(H(a \<mapsto> x)) b = Some y"
  show "L' b y"
  proof (cases "b = a")
    case False
    then have "L b y" using y by (intro heap_good[OF assms(1)]) simp
    with assms(4) False show ?thesis by blast
  qed (use y assms(2) in simp)
next
  fix r b assume p: "Q' r b"
  show "(H(a \<mapsto> x)) b \<noteq> None"
  proof (cases "b = a")
    case False
    with p assms(3)[of b r] heap_there[OF assms(1), of r b] show ?thesis by simp
  qed simp
qed

lemma heap_free:
  assumes "typed_heap Q L H" "\<And>r. \<not> Q' r a" "\<And>r b. b \<noteq> a \<Longrightarrow> Q' r b \<Longrightarrow> Q r b" "\<And>b y. b \<noteq> a \<Longrightarrow> L b y \<Longrightarrow> L' b y"
  shows "typed_heap Q' L' (H(a := None))"
proof (rule heapI)
  fix b y assume y: "(H(a := None)) b = Some y"
  then have "b \<noteq> a" "L b y" by (auto split: if_splits intro: heap_good[OF assms(1)])
  with assms(4) show "L' b y" by blast
next
  fix r b assume p: "Q' r b"
  with assms(2) have "b \<noteq> a" by blast
  with p assms(3)[of b r] heap_there[OF assms(1), of r b] show "(H(a := None)) b \<noteq> None" by simp
qed

lemma heap_weaken:
  assumes "typed_heap Q L H" "\<And>r b. Q' r b \<Longrightarrow> Q r b" "\<And>b y. H b = Some y \<Longrightarrow> L b y \<Longrightarrow> L' b y"
  shows "typed_heap Q' L' H"
  by (rule heapI) (use assms heap_there[OF assms(1)] heap_good[OF assms(1)] in blast)+

lemma heap_keep:
  assumes "typed_heap Q L H" "\<And>x. H a = Some x \<Longrightarrow> L a x \<Longrightarrow> L a (f x)"
  shows "typed_heap Q L (H(a := map_option f (H a)))"
proof (cases "H a")
  case None
  with assms(1) show ?thesis by (simp add: fun_upd_idem)
next
  case (Some x)
  have "L a (f x)" using heap_good[OF assms(1) Some] assms(2) Some by simp
  with Some show ?thesis by (simp add: heap_change[OF assms(1)])
qed

subsection \<open>Windows\<close>

lemma window_knows: "window_typed P N H \<Longrightarrow> H a = Some x \<Longrightarrow> knows P N a x"
  by (simp add: window_typed_def heap_good)

lemma window_there: "window_typed P N H \<Longrightarrow> P r a \<or> N r a \<Longrightarrow> H a \<noteq> None"
  unfolding window_typed_def by (rule heap_there)

lemma window_change:
  assumes "window_typed P N H" "knows P' N' a x" "\<And>r b. b \<noteq> a \<Longrightarrow> P' r b = P r b" "\<And>r b. b \<noteq> a \<Longrightarrow> N' r b = N r b"
  shows "window_typed P' N' (H(a \<mapsto> x))"
  using assms unfolding window_typed_def by (elim heap_change) (simp_all add: knows_def)

lemma window_keep:
  assumes "window_typed P N H" "\<And>x. rw_swc (f x) = rw_swc x \<and> rw_resource (f x) = rw_resource x \<and> rw_node (f x) = rw_node x"
  shows "window_typed P N (H(a := map_option f (H a)))"
  using assms unfolding window_typed_def by (elim heap_keep) (simp add: knows_def)

lemma window_new:
  assumes "window_typed P N H" "rw_swc x \<noteq> None" "rw_resource x = None" "rw_node x = None"
  shows "window_typed P N (H(a \<mapsto> x))"
  by (rule window_change[OF assms(1)]) (use assms(2-) in \<open>auto simp: knows_def\<close>)

lemma window_drop:
  assumes "window_typed P N H"
  shows "(\<And>a x. H a = Some x \<Longrightarrow> rw_resource x \<noteq> Some r) \<Longrightarrow> window_typed (\<lambda>q b. q \<noteq> r \<and> P q b) N H"
    "(\<And>a x. H a = Some x \<Longrightarrow> rw_node x \<noteq> Some r) \<Longrightarrow> window_typed P (\<lambda>q b. q \<noteq> r \<and> N q b) H"
  using assms unfolding window_typed_def by (auto elim!: heap_weaken simp: knows_def)

lemma window_forget:
  assumes "window_typed (points R KWindow) N H" "H a = Some x" "rw_resource x = Some r"
  shows "window_typed (\<lambda>q b. q \<noteq> r \<and> points R KWindow q b) N (H(a \<mapsto> x\<lparr>rw_resource := None, rw_advertised := False\<rparr>))"
proof (rule window_change[OF assms(1)])
  have k: "knows (points R KWindow) N a x" by (rule window_knows[OF assms(1,2)])
  with assms(3) have "points R KWindow r a" by (simp add: knows_def)
  then show "b \<noteq> a \<Longrightarrow> (q \<noteq> r \<and> points R KWindow q b) = points R KWindow q b" for q b
    using points_det[of R KWindow r a b] by auto
  show "knows (\<lambda>q b. q \<noteq> r \<and> points R KWindow q b) N a (x\<lparr>rw_resource := None, rw_advertised := False\<rparr>)"
    using k assms(3) by (auto simp: knows_def)
qed simp

lemma window_forget_node:
  assumes "window_typed P (points R KNode) H" "H a = Some x" "rw_node x = Some r"
  shows "window_typed P (\<lambda>q b. q \<noteq> r \<and> points R KNode q b) (H(a \<mapsto> x\<lparr>rw_node := None\<rparr>))"
proof (rule window_change[OF assms(1)])
  have k: "knows P (points R KNode) a x" by (rule window_knows[OF assms(1,2)])
  with assms(3) have "points R KNode r a" by (simp add: knows_def)
  then show "b \<noteq> a \<Longrightarrow> (q \<noteq> r \<and> points R KNode q b) = points R KNode q b" for q b
    using points_det[of R KNode r a b] by auto
  show "knows P (\<lambda>q b. q \<noteq> r \<and> points R KNode q b) a (x\<lparr>rw_node := None\<rparr>)" using k assms(3) by (auto simp: knows_def)
qed simp

lemma window_free:
  assumes "window_typed P N H" "H a = Some x" "rw_swc x = None" "rw_resource x = None" "rw_node x = None"
  shows "window_typed P N (H(a := None))"
proof -
  have "\<not> (P r a \<or> N r a)" for r using window_knows[OF assms(1,2)] assms(3-5) by (simp add: knows_def)
  with assms(1) show ?thesis unfolding window_typed_def by (elim heap_free) auto
qed

lemma window_advertised:
  assumes "window_typed P N H" "H a = Some x" "rw_swc x \<noteq> None" "\<And>b. \<not> P r b"
  shows "window_typed (\<lambda>q b. if q = r then b = a else P q b) N
    (H(a \<mapsto> x\<lparr>rw_resource := Some r, rw_advertised := True\<rparr>))"
  by (rule window_change[OF assms(1)]) (use assms(3,4) window_knows[OF assms(1,2)] in \<open>auto simp: knows_def\<close>)

lemma window_noded:
  assumes "window_typed P (points R KNode) H" "H a = Some x" "\<And>b. \<not> points R KNode n b"
  shows "window_typed P (\<lambda>q b. if q = n then b = a else Some q \<noteq> rw_node x \<and> points R KNode q b)
    (H(a \<mapsto> x\<lparr>rw_node := Some n\<rparr>))"
proof (rule window_change[OF assms(1)])
  have k: "knows P (points R KNode) a x" by (rule window_knows[OF assms(1,2)])
  then have "rw_node x = Some q \<Longrightarrow> b \<noteq> a \<Longrightarrow> \<not> points R KNode q b" for q b
    using points_det[of R KNode q a b] by (auto simp: knows_def)
  then show "b \<noteq> a \<Longrightarrow> (if q = n then b = a else Some q \<noteq> rw_node x \<and> points R KNode q b) = points R KNode q b" for q b
    using assms(3) by auto
  show "knows P (\<lambda>q b. if q = n then b = a else Some q \<noteq> rw_node x \<and> points R KNode q b) a (x\<lparr>rw_node := Some n\<rparr>)"
    using k by (auto simp: knows_def)
qed simp

lemma window_released:
  assumes "window_typed P N H" "H a = Some x" "\<And>r. P r a \<Longrightarrow> rw_resource x = Some r" "\<And>r. N r a \<Longrightarrow> rw_node x = Some r"
  shows "window_typed P N (H(a \<mapsto> x\<lparr>rw_closed := True, rw_swc := None\<rparr>))"
proof (rule window_change[OF assms(1)])
  have "P r a = (rw_resource x = Some r)" "N r a = (rw_node x = Some r)" for r
    using assms(3,4)[of r] window_knows[OF assms(1,2)] unfolding knows_def by blast+
  then show "knows P N a (x\<lparr>rw_closed := True, rw_swc := None\<rparr>)" by (simp add: knows_def)
qed simp_all

lemma window_forgotten:
  assumes "window_typed P N H" "H a = Some x" "rw_swc x \<noteq> None"
  shows "window_typed P N (H(a \<mapsto> x\<lparr>rw_resource := None, rw_node := None, rw_advertised := False\<rparr>))"
    "window_typed P N (H(a \<mapsto> x\<lparr>rw_resource := None\<rparr>))"
  by (rule window_change[OF assms(1)]; use assms(3) window_knows[OF assms(1,2)] in \<open>auto simp: knows_def\<close>)+

lemma listed_ops:
  "listed H ws \<Longrightarrow> (\<And>x. rw_swc (f x) = rw_swc x) \<Longrightarrow> listed (H(a := map_option f (H a))) ws"
  "listed H ws \<Longrightarrow> listed H (remove1 a ws)"
  "listed H ws \<Longrightarrow> a \<notin> set ws \<Longrightarrow> listed (H(a := v)) ws"
  "listed H ws \<Longrightarrow> H a = None \<Longrightarrow> rw_swc x \<noteq> None \<Longrightarrow> listed (H(a \<mapsto> x)) (ws @ [a])"
  by (auto simp: listed_def)

subsection \<open>Outputs\<close>

lemma output_change:
  assumes "output_typed P L H os" "output_good P' L' a x" "\<And>r b. b \<noteq> a \<Longrightarrow> P' r b = P r b" "\<And>r b. b \<noteq> a \<Longrightarrow> L' r b = L r b"
  shows "output_typed P' L' (H(a \<mapsto> x)) os"
proof -
  have "typed_heap (\<lambda>r a. P r a \<or> L r a) (output_good P L) H" using assms(1) by (simp add: output_typed_def)
  then have "typed_heap (\<lambda>r a. P' r a \<or> L' r a) (output_good P' L') (H(a \<mapsto> x))"
    by (rule heap_change) (use assms(2-) in \<open>simp_all add: output_good_def\<close>)
  with assms(1) show ?thesis by (simp add: output_typed_def)
qed

lemma output_knows: "output_typed P L H os \<Longrightarrow> H a = Some x \<Longrightarrow> output_good P L a x"
  by (auto simp: output_typed_def intro: heap_good)

lemma output_there: "output_typed P L H os \<Longrightarrow> P r a \<or> L r a \<Longrightarrow> H a \<noteq> None"
  unfolding output_typed_def using heap_there[of _ _ H r a] by blast

lemma output_drop:
  assumes "output_typed P L H os"
  shows "(\<And>a x. H a = Some x \<Longrightarrow> ro_resource x \<noteq> Some r) \<Longrightarrow> output_typed (\<lambda>q b. q \<noteq> r \<and> P q b) L H os"
    "(\<And>a x. H a = Some x \<Longrightarrow> ro_layer_shell x \<noteq> Some r) \<Longrightarrow> output_typed P (\<lambda>q b. q \<noteq> r \<and> L q b) H os"
  using assms unfolding output_typed_def by (auto elim!: heap_weaken simp: output_good_def)

lemma output_forget:
  assumes "output_typed (points R KOutput) L H os" "H a = Some x" "ro_resource x = Some r"
  shows "output_typed (\<lambda>q b. q \<noteq> r \<and> points R KOutput q b) L (H(a \<mapsto> x\<lparr>ro_resource := None, ro_advertised := False\<rparr>)) os"
proof (rule output_change[OF assms(1)])
  have k: "output_good (points R KOutput) L a x" by (rule output_knows[OF assms(1,2)])
  with assms(3) have "points R KOutput r a" by (simp add: output_good_def)
  then show "b \<noteq> a \<Longrightarrow> (q \<noteq> r \<and> points R KOutput q b) = points R KOutput q b" for q b
    using points_det[of R KOutput r a b] by auto
  show "output_good (\<lambda>q b. q \<noteq> r \<and> points R KOutput q b) L a (x\<lparr>ro_resource := None, ro_advertised := False\<rparr>)"
    using k by (simp add: output_good_def)
qed simp

lemma output_forget_layer:
  assumes "output_typed P (points R KLayerOutput) H os" "H a = Some x" "ro_layer_shell x = Some r"
  shows "output_typed P (\<lambda>q b. q \<noteq> r \<and> points R KLayerOutput q b) (H(a \<mapsto> x\<lparr>ro_layer_shell := None\<rparr>)) os"
proof (rule output_change[OF assms(1)])
  have k: "output_good P (points R KLayerOutput) a x" by (rule output_knows[OF assms(1,2)])
  with assms(3) have "points R KLayerOutput r a" by (simp add: output_good_def)
  then show "b \<noteq> a \<Longrightarrow> (q \<noteq> r \<and> points R KLayerOutput q b) = points R KLayerOutput q b" for q b
    using points_det[of R KLayerOutput r a b] by auto
  show "output_good P (\<lambda>q b. q \<noteq> r \<and> points R KLayerOutput q b) a (x\<lparr>ro_layer_shell := None\<rparr>)"
    using k by (simp add: output_good_def)
qed simp

lemma output_advertised:
  assumes "output_typed P L H os" "H a = Some x"
  shows "(\<And>b. \<not> P r b) \<Longrightarrow>
      output_typed (\<lambda>q b. if q = r then b = a else P q b) L (H(a \<mapsto> x\<lparr>ro_resource := Some r, ro_advertised := True\<rparr>)) os"
    "(\<And>b. \<not> L r b) \<Longrightarrow>
      output_typed P (\<lambda>q b. if q = r then b = a else L q b) (H(a \<mapsto> x\<lparr>ro_layer_shell := Some r\<rparr>)) os"
    "output_typed P L (H(a \<mapsto> x\<lparr>ro_resource := None\<rparr>)) os"
    "output_typed P L (H(a \<mapsto> x\<lparr>ro_resource := None, ro_advertised := False\<rparr>)) os"
  using output_knows[OF assms]
  by (rule_tac output_change[OF assms(1)]; auto simp: output_good_def)+

lemma output_free:
  assumes "output_typed (points R KOutput) (points R KLayerOutput) H os" "H a = Some x"
    "\<And>r. points R KOutput r a \<Longrightarrow> ro_resource x = Some r" "\<And>r. \<not> points R KLayerOutput r a"
  shows "ro_resource x = None \<Longrightarrow> output_typed (points R KOutput) (points R KLayerOutput) (H(a := None)) (remove1 a os)"
    "ro_resource x = Some r \<Longrightarrow>
      output_typed (\<lambda>q b. q \<noteq> r \<and> points R KOutput q b) (points R KLayerOutput) (H(a := None)) (remove1 a os)"
proof -
  have h: "typed_heap (\<lambda>r a. points R KOutput r a \<or> points R KLayerOutput r a) (output_good (points R KOutput) (points R KLayerOutput)) H"
    and o: "distinct os" "\<forall>b \<in> set os. H b \<noteq> None"
    using assms(1) by (simp_all add: output_typed_def)
  have os: "distinct (remove1 a os)" "\<forall>b \<in> set (remove1 a os). (H(a := None)) b \<noteq> None" using o by auto
  show "output_typed (points R KOutput) (points R KLayerOutput) (H(a := None)) (remove1 a os)" if "ro_resource x = None"
    using os unfolding output_typed_def by (intro conjI heap_free[OF h]) (use assms(3,4) that in auto)
  show "output_typed (\<lambda>q b. q \<noteq> r \<and> points R KOutput q b) (points R KLayerOutput) (H(a := None)) (remove1 a os)"
    if r: "ro_resource x = Some r"
  proof -
    have "points R KOutput r a" using output_knows[OF assms(1,2)] r by (simp add: output_good_def)
    then have d: "points R KOutput r b \<Longrightarrow> b = a" for b using points_det[of R KOutput r a b] by simp
    have "\<not> (q \<noteq> r \<and> points R KOutput q a \<or> points R KLayerOutput q a)" for q using assms(3)[of q] assms(4)[of q] r by auto
    moreover have "b \<noteq> a \<Longrightarrow> output_good (points R KOutput) (points R KLayerOutput) b y \<Longrightarrow>
        output_good (\<lambda>q b. q \<noteq> r \<and> points R KOutput q b) (points R KLayerOutput) b y" for b y
      using d[of b] by (auto simp: output_good_def)
    ultimately show ?thesis using os unfolding output_typed_def by (intro conjI heap_free[OF h]) blast+
  qed
qed

lemma output_new:
  assumes "output_typed P L H os" "H a = None" "ro_resource x = None" "ro_layer_shell x = None"
  shows "output_typed P L (H(a \<mapsto> x)) (os @ [a])"
proof -
  have "output_typed P L (H(a \<mapsto> x)) os" by (rule output_change[OF assms(1)]) (use assms in \<open>auto simp: output_good_def\<close>)
  with assms(1,2) show ?thesis by (auto simp: output_typed_def)
qed

subsection \<open>Shell surfaces\<close>

lemma shell_change:
  assumes "shell_typed P N H" "shell_good P' N' a x" "\<And>r b. b \<noteq> a \<Longrightarrow> P' r b = P r b" "\<And>r b. b \<noteq> a \<Longrightarrow> N' r b = N r b"
  shows "shell_typed P' N' (H(a \<mapsto> x))"
  using assms unfolding shell_typed_def by (elim heap_change) (simp_all add: shell_good_def)

lemma shell_knows: "shell_typed P N H \<Longrightarrow> H a = Some x \<Longrightarrow> shell_good P N a x"
  by (simp add: shell_typed_def heap_good)

lemma shell_there: "shell_typed P N H \<Longrightarrow> P r a \<or> N r a \<Longrightarrow> H a \<noteq> None"
  unfolding shell_typed_def by (rule heap_there)

lemma shell_forget_node:
  assumes "shell_typed P (points R KShellNode) H" "H a = Some x" "rs_node x = Some r"
  shows "shell_typed P (\<lambda>q b. q \<noteq> r \<and> points R KShellNode q b) (H(a \<mapsto> x\<lparr>rs_node := None\<rparr>))"
proof (rule shell_change[OF assms(1)])
  have k: "shell_good P (points R KShellNode) a x" by (rule shell_knows[OF assms(1,2)])
  with assms(3) have "points R KShellNode r a" by (simp add: shell_good_def)
  then show "b \<noteq> a \<Longrightarrow> (q \<noteq> r \<and> points R KShellNode q b) = points R KShellNode q b" for q b
    using points_det[of R KShellNode r a b] by auto
  show "shell_good P (\<lambda>q b. q \<noteq> r \<and> points R KShellNode q b) a (x\<lparr>rs_node := None\<rparr>)"
    using k assms(3) by (auto simp: shell_good_def)
qed simp

lemma shell_noded:
  assumes "shell_typed P N H" "H a = Some x" "rs_node x = None" "\<And>b. \<not> N n b"
  shows "shell_typed P (\<lambda>q b. if q = n then b = a else N q b) (H(a \<mapsto> x\<lparr>rs_node := Some n\<rparr>))"
  by (rule shell_change[OF assms(1)]) (use shell_knows[OF assms(1,2)] assms(3,4) in \<open>auto simp: shell_good_def\<close>)

lemma shell_new:
  assumes "shell_typed P N H" "H a = None" "\<And>b. \<not> P r b"
  shows "shell_typed (\<lambda>q b. if q = r then b = a else P q b) N (H(a \<mapsto> \<lparr>rs_resource = r, rs_node = None, rs_swc = v\<rparr>))"
proof (rule shell_change[OF assms(1)])
  have "\<not> (P q a \<or> N q a)" for q using shell_there[OF assms(1), of q a] assms(2) by auto
  then show "shell_good (\<lambda>q b. if q = r then b = a else P q b) N a \<lparr>rs_resource = r, rs_node = None, rs_swc = v\<rparr>"
    by (auto simp: shell_good_def)
qed (use assms(3) in auto)

lemma shell_free:
  assumes "shell_typed (points R KShellSurface) (points R KShellNode) H" "H a = Some x" "rs_resource x = r"
  shows "shell_typed (\<lambda>q b. q \<noteq> r \<and> points R KShellSurface q b)
    (\<lambda>q b. Some q \<noteq> rs_node x \<and> points R KShellNode q b) (H(a := None))"
  unfolding shell_typed_def
proof (rule heap_free[OF assms(1)[unfolded shell_typed_def]])
  have k: "shell_good (points R KShellSurface) (points R KShellNode) a x" by (rule shell_knows[OF assms(1,2)])
  then show "\<not> ((q \<noteq> r \<and> points R KShellSurface q a) \<or> (Some q \<noteq> rs_node x \<and> points R KShellNode q a))" for q
    using assms(3) by (auto simp: shell_good_def)
  have "points R KShellSurface r a" "rs_node x = Some n \<Longrightarrow> points R KShellNode n a" for n
    using k assms(3) by (auto simp: shell_good_def)
  then have e: "b \<noteq> a \<Longrightarrow> (q \<noteq> r \<and> points R KShellSurface q b) = points R KShellSurface q b"
      "b \<noteq> a \<Longrightarrow> (Some q \<noteq> rs_node x \<and> points R KShellNode q b) = points R KShellNode q b" for b q
    using points_det[of R KShellSurface r a b] points_det[of R KShellNode q a b] by auto
  show "shell_good (\<lambda>q b. q \<noteq> r \<and> points R KShellSurface q b) (\<lambda>q b. Some q \<noteq> rs_node x \<and> points R KShellNode q b) b y"
    if "b \<noteq> a" "shell_good (points R KShellSurface) (points R KShellNode) b y" for b y
    using that(2) unfolding shell_good_def e[OF that(1)] .
qed auto

subsection \<open>Bindings\<close>

lemma binding_change:
  assumes "binding_typed K B H ks" "binding_good K' B' b x" "\<And>r c. c \<noteq> b \<Longrightarrow> K' r c = K r c" "\<And>r c. c \<noteq> b \<Longrightarrow> B' r c = B r c"
    "b \<in> set ks \<Longrightarrow> rb_type x = BINDING_KEY"
  shows "binding_typed K' B' (H(b \<mapsto> x)) ks"
proof -
  have "typed_heap (\<lambda>r a. K r a \<or> B r a) (binding_good K B) H" using assms(1) by (simp add: binding_typed_def)
  then have "typed_heap (\<lambda>r a. K' r a \<or> B' r a) (binding_good K' B') (H(b \<mapsto> x))"
    by (rule heap_change) (use assms(2-4) in \<open>simp_all add: binding_good_def\<close>)
  with assms(1,5) show ?thesis by (simp add: binding_typed_def)
qed

lemma binding_knows: "binding_typed K B H ks \<Longrightarrow> H b = Some x \<Longrightarrow> binding_good K B b x"
  by (auto simp: binding_typed_def intro: heap_good)

lemma binding_there: "binding_typed K B H ks \<Longrightarrow> K r b \<or> B r b \<Longrightarrow> H b \<noteq> None"
  unfolding binding_typed_def using heap_there[of _ _ H r b] by blast

lemma binding_keep:
  assumes "binding_typed K B H ks" "\<And>x. rb_resource (f x) = rb_resource x \<and> rb_type (f x) = rb_type x \<and> rb_modifiers (f x) = rb_modifiers x"
  shows "binding_typed K B (H(b := map_option f (H b))) ks"
proof -
  have "typed_heap (\<lambda>r b. K r b \<or> B r b) (binding_good K B) (H(b := map_option f (H b)))"
    using assms unfolding binding_typed_def by (elim conjE heap_keep) (simp add: binding_good_def)
  with assms show ?thesis by (auto simp: binding_typed_def)
qed

lemma binding_new:
  assumes "binding_typed K B H ks" "H b = None" "\<And>c. \<not> K r c" "\<And>c. \<not> B r c" "rb_resource x = r" "rb_modifiers x \<noteq> MOD_ANY"
  shows "rb_type x = BINDING_KEY \<Longrightarrow> binding_typed (\<lambda>q c. if q = r then c = b else K q c) B (H(b \<mapsto> x)) ks"
    "rb_type x = BINDING_KEY \<Longrightarrow> binding_typed (\<lambda>q c. if q = r then c = b else K q c) B (H(b \<mapsto> x)) (ks @ [b])"
    "rb_type x = BINDING_BUTTON \<Longrightarrow> binding_typed K (\<lambda>q c. if q = r then c = b else B q c) (H(b \<mapsto> x)) ks"
proof -
  have n: "\<not> K q b" "\<not> B q b" for q using binding_there[OF assms(1), of q b] assms(2) by auto
  have ks: "b \<notin> set ks" using assms(1,2) by (auto simp: binding_typed_def)
  show k: "binding_typed (\<lambda>q c. if q = r then c = b else K q c) B (H(b \<mapsto> x)) ks" if "rb_type x = BINDING_KEY"
    by (rule binding_change[OF assms(1)]) (use n assms(3-) that ks in \<open>auto simp: binding_good_def\<close>)
  show "binding_typed (\<lambda>q c. if q = r then c = b else K q c) B (H(b \<mapsto> x)) (ks @ [b])" if "rb_type x = BINDING_KEY"
    using k[OF that] ks that by (auto simp: binding_typed_def)
  show "binding_typed K (\<lambda>q c. if q = r then c = b else B q c) (H(b \<mapsto> x)) ks" if "rb_type x = BINDING_BUTTON"
    by (rule binding_change[OF assms(1)]) (use n assms(3-) that ks in \<open>auto simp: binding_good_def\<close>)
qed

subsection \<open>Pointer bindings of \<open>libswc\<close>\<close>

abbreviation (input) claim_of :: "binding \<Rightarrow> u32 \<times> u32" where
  "claim_of d \<equiv> (bi_value d, bi_modifiers d)"

lemma registrations_add:
  assumes "registrations H a" "H b = Some x" "rb_type x = BINDING_BUTTON"
    and "\<forall>d \<in> set (ba_elems a). bi_value d \<noteq> rb_keysym x \<or> bi_modifiers d \<noteq> rb_modifiers x"
  shows "registrations (H(b \<mapsto> x\<lparr>rb_registered := True\<rparr>))
    (ba_add moved a \<lparr>bi_value = rb_keysym x, bi_modifiers = rb_modifiers x, bi_handler = h, bi_data = b\<rparr>)"
  using assms by (auto simp: registrations_def ba_wf_add)

lemma registrations_keep:
  assumes "registrations H a" "\<And>x. rb_type (f x) = rb_type x \<and> rb_registered (f x) = rb_registered x \<and>
      rb_keysym (f x) = rb_keysym x \<and> rb_modifiers (f x) = rb_modifiers x"
  shows "registrations (H(b := map_option f (H b))) a"
  using assms by (auto simp: registrations_def)

lemma registrations_key:
  assumes "registrations H a" "H b = Some x" "rb_type x \<noteq> BINDING_BUTTON \<or> \<not> rb_registered x"
  shows "registrations (H(b := v)) a" "b \<notin> bi_data ` set (ba_elems a)"
  using assms by (auto simp: registrations_def)

lemma registrations_new: "registrations H a \<Longrightarrow> H b = None \<Longrightarrow> registrations (H(b := v)) a"
  by (auto simp: registrations_def)

lemma registrations_remove:
  assumes "registrations H a" "H b = Some x" "\<And>c y. H c = Some y \<Longrightarrow> rb_modifiers y \<noteq> MOD_ANY"
  shows "registrations (H(b := v)) (ba_remove a (rb_modifiers x) (rb_keysym x))"
proof -
  let ?a = "ba_remove a (rb_modifiers x) (rb_keysym x)"
  have wf: "ba_wf a" and d: "distinct (map claim_of (ba_elems a))"
    and reg: "\<And>d. d \<in> set (ba_elems a) \<Longrightarrow> \<exists>y. H (bi_data d) = Some y \<and> rb_type y = BINDING_BUTTON \<and> rb_registered y \<and>
        rb_keysym y = bi_value d \<and> rb_modifiers y = bi_modifiers d"
    using assms(1) by (auto simp: registrations_def)
  have own: "bi_matches (rb_modifiers x) (rb_keysym x) d" if "d \<in> set (ba_elems a)" "bi_data d = b" for d
    using reg[OF that(1)] that(2) assms(2) by (auto simp: bi_matches_def)
  have "distinct (map claim_of (ba_elems ?a)) \<and> (\<forall>d \<in> set (ba_elems ?a). d \<in> set (ba_elems a) \<and> bi_data d \<noteq> b)"
  proof (cases "find_binding (ba_elems a) (rb_modifiers x) (rb_keysym x)")
    case None
    then have "ba_elems ?a = ba_elems a" by (simp add: ba_remove_def)
    with d None own show ?thesis by (auto simp: find_binding_None)
  next
    case (Some i)
    let ?e = "ba_elems a ! i"
    have e: "?e \<in> set (ba_elems a)" "bi_matches (rb_modifiers x) (rb_keysym x) ?e" using Some by (auto simp: find_binding_Some)
    have m: "mset (ba_elems a) = add_mset ?e (mset (ba_elems ?a))"
      using ba_remove_mset[OF wf Some] e(1) by simp
    then have "mset (map claim_of (ba_elems a)) = add_mset (claim_of ?e) (mset (map claim_of (ba_elems ?a)))"
      by (metis (no_types, lifting) image_mset_add_mset mset_map)
    then have "mset (map claim_of (ba_elems a)) = mset (claim_of ?e # map claim_of (ba_elems ?a))" by simp
    then have d': "distinct (claim_of ?e # map claim_of (ba_elems ?a))" using d mset_eq_imp_distinct_iff by blast
    have sub: "set (ba_elems ?a) \<subseteq> set (ba_elems a)" using arg_cong[OF m, of set_mset] by auto
    have claim: "claim_of d = (rb_keysym x, rb_modifiers x)"
      if "d \<in> set (ba_elems a)" "bi_matches (rb_modifiers x) (rb_keysym x) d" for d
      using reg[OF that(1)] that(2) assms(3) by (auto simp: bi_matches_def)
    have "bi_data d \<noteq> b" if "d \<in> set (ba_elems ?a)" for d
    proof
      assume "bi_data d = b"
      then have "claim_of d = claim_of ?e" using claim[of d] claim[OF e] own[of d] sub that by auto
      moreover have "claim_of d \<in> set (map claim_of (ba_elems ?a))" using that by simp
      ultimately show False using d' by simp
    qed
    with d' sub show ?thesis by auto
  qed
  then show ?thesis using wf reg unfolding registrations_def by (auto intro: ba_wf_remove)
qed

lemma modifiers_to_swc_any: "modifiers_to_swc m \<noteq> MOD_ANY"
proof -
  have "translate f t m r AND 64 = 0" if "r AND 64 = 0" "t AND 64 = 0" for f t m r :: u32
    using that by (simp add: translate_def bit.conj_disj_distrib2)
  then have "modifiers_to_swc m AND 64 = 0" by (simp add: modifiers_to_swc_def)
  then show ?thesis by (auto simp: MOD_ANY_def)
qed

subsection \<open>The queue\<close>

lemma queued_upd:
  "queued W B q \<Longrightarrow> queued (W(a := map_option f (W a))) B q"
  "queued W B q \<Longrightarrow> queued W (B(b := map_option g (B b))) q"
  "queued W B q \<Longrightarrow> queued (W(a \<mapsto> x)) B q" "queued W B q \<Longrightarrow> queued W (B(b \<mapsto> y)) q"
  "queued W B q \<Longrightarrow> queued (W(a := None)) B (filter (\<lambda>e. event_window e \<noteq> Some a) q)"
  "queued W B q \<Longrightarrow> queued W (B(b := None)) (filter (\<lambda>e. event_binding e \<noteq> Some b) q)"
  "queued W B q \<Longrightarrow> (\<And>b. event_binding e = Some b \<Longrightarrow> B b \<noteq> None) \<Longrightarrow> (\<And>a. event_window e = Some a \<Longrightarrow> W a \<noteq> None) \<Longrightarrow>
     queued W B (q @ [e])"
  by (auto simp: queued_def)

lemma queued_tl: "queued W B q \<Longrightarrow> queued W B (tl q)"
  by (cases q) (auto simp: queued_def)

end
