(* ===== verification/RiverSafe.thy ===== *)
theory RiverSafe
  imports RiverTyped
begin

text \<open>
  Every operation of the bridge keeps the typing of \<open>RiverTyped\<close>, so that no request, event or
  callback meets a pointer to something freed; and the four traps \<open>proper\<close> leaves out.
\<close>

subsection \<open>Frames\<close>

named_theorems typed_intros \<open>steps that keep the typing\<close>

lemma typed_same:
  assumes "well_typed s" "wm_res t = wm_res s" "wm_win t = wm_win s" "wm_windows t = wm_windows s" "wm_out t = wm_out s"
    "wm_outputs t = wm_outputs s" "wm_shell t = wm_shell s" "wm_bind t = wm_bind s" "wm_key_bindings t = wm_key_bindings s"
    "wm_swc t = wm_swc s" "wm_queue t = wm_queue s" "wm_manager t = wm_manager s" "wm_seat t = wm_seat s"
    "wm_layer_seat t = wm_layer_seat s" "wm_xkb_seat t = wm_xkb_seat s" "wm_next t = wm_next s" "wm_next_addr s \<le> wm_next_addr t"
  shows "well_typed t"
  using assms unfolding well_typed_def allocated_def by auto

lemma typed_fields [typed_intros]:
  assumes "well_typed s"
  shows "well_typed (s\<lparr>wm_phase := p\<rparr>)" "well_typed (s\<lparr>wm_dirty := b\<rparr>)" "well_typed (s\<lparr>wm_idle := b\<rparr>)"
    "well_typed (s\<lparr>wm_screen := n\<rparr>)" "well_typed (s\<lparr>wm_eat_next_key := b\<rparr>)" "well_typed (s\<lparr>wm_watched := m\<rparr>)"
    "well_typed (s\<lparr>wm_pointer := q\<rparr>)" "well_typed (s\<lparr>wm_key_observer := b\<rparr>)" "well_typed (s\<lparr>wm_ptr_observer := b\<rparr>)"
    "well_typed (s\<lparr>wm_terminated := b\<rparr>)" "well_typed (send r e s)" "well_typed (schedule_sequence s)"
  by (rule typed_same[OF assms]; simp add: send_def schedule_sequence_def Let_def)+

lemma typed_drives: "well_typed s \<Longrightarrow> drives c s t \<Longrightarrow> well_typed t"
  using river_same[OF drivesD(1), of c s t] by (elim typed_same) simp_all

lemma typed_window [typed_intros]:
  assumes "well_typed s" "\<And>x. rw_swc (f x) = rw_swc x \<and> rw_resource (f x) = rw_resource x \<and> rw_node (f x) = rw_node x"
  shows "well_typed (updrw a f s)"
  using assms(1) window_keep[where f = f and a = a, OF _ assms(2)] assms(2) listed_ops(1)[where f = f and a = a] queued_upd(1)[where f = f and a = a]
  by (simp add: well_typed_def updrw_def allocated_def)

lemma typed_binding [typed_intros]:
  assumes "well_typed s" "\<And>x. rb_resource (f x) = rb_resource x \<and> rb_type (f x) = rb_type x \<and> rb_modifiers (f x) = rb_modifiers x \<and>
      rb_registered (f x) = rb_registered x \<and> rb_keysym (f x) = rb_keysym x"
  shows "well_typed (updrb b f s)"
  using assms(1) binding_keep[where f = f and b = b] registrations_keep[where f = f and b = b] queued_upd(2)[where g = f and b = b] assms(2)
  by (simp add: well_typed_def updrb_def allocated_def)

lemma typed_queue:
  assumes "well_typed s" "\<And>b. event_binding e = Some b \<Longrightarrow> wm_bind s b \<noteq> None" "\<And>a. event_window e = Some a \<Longrightarrow> wm_win s a \<noteq> None"
  shows "well_typed (queue_event e s)"
proof -
  have "queued (wm_win s) (wm_bind s) (wm_queue s @ [e])"
    using assms by (intro queued_upd(7)) (simp_all add: well_typed_def)
  then have "well_typed (s\<lparr>wm_queue := wm_queue s @ [e]\<rparr>)" using assms(1) by (simp add: well_typed_def allocated_def)
  then show ?thesis using assms(1) by (simp add: queue_event_def typed_intros)
qed

lemma typed_fold [typed_intros]:
  "well_typed s \<Longrightarrow> (\<And>x s. well_typed s \<Longrightarrow> well_typed (f x s)) \<Longrightarrow> well_typed (fold f xs s)"
  by (induction xs arbitrary: s) auto

lemma typed_report_size [typed_intros]: "well_typed s \<Longrightarrow> well_typed (report_size a s)"
  by (auto simp: report_size_def Let_def intro!: typed_intros split: option.split prod.split)

lemma typed_begin_render: "well_typed s \<Longrightarrow> well_typed (begin_render b s)"
  by (auto simp: begin_render_def Let_def intro!: typed_intros split: option.split)

lemma typed_with_done: "well_typed s \<Longrightarrow> drives True s (f s) \<Longrightarrow> well_typed (with_done f s)"
  using with_done_cases[of s f] typed_drives[of s True "f s"] typed_begin_render by metis

lemma typed_output_geometry [typed_intros]: "well_typed s \<Longrightarrow> well_typed (send_output_geometry a s)"
  by (auto simp: send_output_geometry_def Let_def intro!: typed_intros split: option.split)

subsection \<open>New objects\<close>

lemma points_new_same:
  "points (R(r \<mapsto> \<lparr>rr_iface = k, rr_data = Some a, rr_version = v\<rparr>)) k = (\<lambda>q b. if q = r then b = a else points R k q b)"
  by (auto simp: points_def fun_eq_iff)

lemma points_none: "R r = None \<Longrightarrow> \<not> points R k r b"
  by (simp add: points_def)

lemma typed_fresh: "well_typed s \<Longrightarrow> wm_res s (wm_next s) = None"
  by (simp add: well_typed_def allocated_def)

lemma typed_no_points: "well_typed s \<Longrightarrow> \<not> points (wm_res s) k (wm_next s) b"
  by (rule points_none) (rule typed_fresh)

lemma typed_fresh_addr:
  assumes "well_typed s" "wm_next_addr s \<le> a"
  shows "wm_win s a = None" "wm_out s a = None" "wm_shell s a = None" "wm_bind s a = None"
  using assms by (simp_all add: well_typed_def allocated_def)

lemma new_resource_cases:
  assumes "new_resource k d v s = (x, t)"
  shows "x = None \<and> t = s \<or>
    x = Some (wm_next s) \<and> ws_mem s \<and> t = s\<lparr>wm_res := (wm_res s)(wm_next s \<mapsto> \<lparr>rr_iface = k, rr_data = d, rr_version = v\<rparr>),
      wm_next := Suc (wm_next s)\<rparr>"
  using assms by (auto simp: new_resource_def split: if_splits)

lemma allocated_new:
  "allocated s \<Longrightarrow> allocated (s\<lparr>wm_res := (wm_res s)(wm_next s \<mapsto> x), wm_next := Suc (wm_next s)\<rparr>)"
  by (auto simp: allocated_def)

lemma allocated_same:
  assumes "allocated s" "wm_next t = wm_next s" "wm_next_addr s \<le> wm_next_addr t"
    "\<And>r. wm_res s r = None \<Longrightarrow> wm_res t r = None" "\<And>a. wm_win s a = None \<Longrightarrow> wm_win t a = None"
    "\<And>a. wm_out s a = None \<Longrightarrow> wm_out t a = None" "\<And>a. wm_shell s a = None \<Longrightarrow> wm_shell t a = None"
    "\<And>a. wm_bind s a = None \<Longrightarrow> wm_bind t a = None"
  shows "allocated t"
  using assms unfolding allocated_def by (metis le_trans)

lemma allocated_heaps:
  "allocated s \<Longrightarrow> allocated (updrw a f s)" "allocated s \<Longrightarrow> allocated (updro a g s)" "allocated s \<Longrightarrow> allocated (updrb a h s)"
  "allocated s \<Longrightarrow> allocated (set_user_data r d s)" "allocated s \<Longrightarrow> allocated (drop_resource r s)"
  by (erule allocated_same; auto simp: updrw_def updro_def updrb_def set_user_data_def drop_resource_def)+

lemma typed_allocated: "well_typed s \<Longrightarrow> allocated s"
  by (simp add: well_typed_def)

text \<open>A resource without an object.\<close>

lemma typed_new:
  assumes "well_typed s" "k \<noteq> KXkbBinding" "k \<noteq> KPointerBinding" "new_resource k None v s = (x, t)"
  shows "well_typed t" "x = Some r \<Longrightarrow> is_a (wm_res t) k r"
  using new_resource_cases[OF assms(4)] assms(1-3) typed_fresh[OF assms(1)]
  by (auto simp: well_typed_def points_other_new allocated_new is_a_upd intro!: known_upd(3) bound_data_upd(3))

lemma typed_known:
  assumes "well_typed s"
  shows "well_typed (s\<lparr>wm_manager := None\<rparr>)" "well_typed (s\<lparr>wm_seat := None\<rparr>)" "well_typed (s\<lparr>wm_layer_seat := None\<rparr>)"
    "well_typed (s\<lparr>wm_xkb_seat := None\<rparr>)" "is_a (wm_res s) KManager r \<Longrightarrow> well_typed (s\<lparr>wm_manager := Some r\<rparr>)"
    "is_a (wm_res s) KSeat r \<Longrightarrow> well_typed (s\<lparr>wm_seat := Some r\<rparr>)"
    "is_a (wm_res s) KLayerSeat r \<Longrightarrow> well_typed (s\<lparr>wm_layer_seat := Some r\<rparr>)"
    "is_a (wm_res s) KXkbSeat r \<Longrightarrow> well_typed (s\<lparr>wm_xkb_seat := Some r\<rparr>)"
  using assms by (simp_all add: well_typed_def known_def allocated_def)

lemma typed_advertise_seat [typed_intros]: "well_typed s \<Longrightarrow> well_typed (advertise_seat s)"
  by (auto simp: advertise_seat_def Let_def ensure_pointer_observer_def intro!: typed_intros typed_known(6)
      split: option.split prod.split dest: typed_new)

lemma typed_advertise_output [typed_intros]:
  assumes "well_typed s" "wm_out s a \<noteq> None"
  shows "well_typed (advertise_output a s)"
proof (cases "wm_manager s = None \<or> ro_advertised (rout s a)")
  case True
  with assms(1) show ?thesis by (auto simp: advertise_output_def split: option.split)
next
  case False
  then obtain m where m: "wm_manager s = Some m" "\<not> ro_advertised (rout s a)" by auto
  obtain x where x: "wm_out s a = Some x" using assms(2) by auto
  obtain o' t where new: "new_resource KOutput (Some a) (version_of m s) s = (o', t)" by force
  have o: "output_typed (points (wm_res s) KOutput) (points (wm_res s) KLayerOutput) (wm_out s) (wm_outputs s)"
    using assms(1) by (simp add: well_typed_def)
  from new_resource_cases[OF new] show ?thesis
  proof (elim disjE conjE)
    assume "o' = None" "t = s"
    moreover have "well_typed (updro a (\<lambda>x. x\<lparr>ro_resource := None\<rparr>) s)"
      using assms(1) x output_advertised(3)[OF o x] allocated_heaps(2)[where a = a and g = "\<lambda>x. x\<lparr>ro_resource := None\<rparr>", OF typed_allocated[OF assms(1)]]
      by (simp add: well_typed_def updro_def)
    ultimately show ?thesis using m new by (simp add: advertise_output_def typed_intros)
  next
    assume n: "o' = Some (wm_next s)" "t = s\<lparr>wm_res := (wm_res s)(wm_next s \<mapsto> \<lparr>rr_iface = KOutput, rr_data = Some a, rr_version = version_of m s\<rparr>),
      wm_next := Suc (wm_next s)\<rparr>"
    have "allocated t" unfolding n(2) by (rule allocated_new[OF typed_allocated[OF assms(1)]])
    then have "allocated (updro a (\<lambda>x. x\<lparr>ro_resource := Some (wm_next s), ro_advertised := True\<rparr>) t)"
      by (rule allocated_heaps)
    then have "well_typed (updro a (\<lambda>x. x\<lparr>ro_resource := Some (wm_next s), ro_advertised := True\<rparr>) t)"
      using assms(1) x output_advertised(1)[OF o x typed_no_points[OF assms(1)]] typed_fresh[OF assms(1)] n(2)
      by (auto simp: well_typed_def updro_def points_new_same points_other_new
          intro!: known_upd(3) bound_data_upd(3))
    then show ?thesis using m new n(1) by (auto simp: advertise_output_def Let_def intro!: typed_intros split: option.split)
  qed
qed

lemma typed_advertise_window [typed_intros]:
  assumes "well_typed s" "wm_win s a = Some x" "rw_swc x \<noteq> None"
  shows "well_typed (advertise_window a s)"
proof (cases "wm_manager s = None \<or> rw_advertised (rwin s a)")
  case True
  with assms(1) show ?thesis by (auto simp: advertise_window_def split: option.split)
next
  case False
  then obtain m where m: "wm_manager s = Some m" "\<not> rw_advertised (rwin s a)" by auto
  obtain o' t where new: "new_resource KWindow (Some a) (version_of m s) s = (o', t)" by force
  have w: "window_typed (points (wm_res s) KWindow) (points (wm_res s) KNode) (wm_win s)"
    and l: "listed (wm_win s) (wm_windows s)" and q: "queued (wm_win s) (wm_bind s) (wm_queue s)"
    using assms(1) by (simp_all add: well_typed_def)
  have l': "listed ((wm_win s)(a \<mapsto> f x)) (wm_windows s)" if "rw_swc (f x) = rw_swc x" for f
    using l assms(2) that by (auto simp: listed_def)
  from new_resource_cases[OF new] show ?thesis
  proof (elim disjE conjE)
    assume "o' = None" "t = s"
    moreover have "well_typed (updrw a (\<lambda>x. x\<lparr>rw_resource := None\<rparr>) s)"
      using assms(1,2) window_forgotten(2)[OF w assms(2,3)] l'[of "\<lambda>x. x\<lparr>rw_resource := None\<rparr>"] queued_upd(3)[OF q]
        allocated_heaps(1)[where a = a and f = "\<lambda>x. x\<lparr>rw_resource := None\<rparr>", OF typed_allocated[OF assms(1)]]
      by (simp add: well_typed_def updrw_def)
    ultimately show ?thesis using m new by (simp add: advertise_window_def typed_intros)
  next
    assume n: "o' = Some (wm_next s)" "t = s\<lparr>wm_res := (wm_res s)(wm_next s \<mapsto> \<lparr>rr_iface = KWindow, rr_data = Some a, rr_version = version_of m s\<rparr>),
      wm_next := Suc (wm_next s)\<rparr>"
    have "allocated t" unfolding n(2) by (rule allocated_new[OF typed_allocated[OF assms(1)]])
    then have "allocated (updrw a (\<lambda>x. x\<lparr>rw_resource := Some (wm_next s), rw_advertised := True\<rparr>) t)"
      by (rule allocated_heaps)
    then have "well_typed (updrw a (\<lambda>x. x\<lparr>rw_resource := Some (wm_next s), rw_advertised := True\<rparr>) t)"
      using assms(1,2) window_advertised[OF w assms(2,3) typed_no_points[OF assms(1)]] typed_fresh[OF assms(1)] n(2)
        l'[of "\<lambda>x. x\<lparr>rw_resource := Some (wm_next s), rw_advertised := True\<rparr>"] queued_upd(3)[OF q]
      by (auto simp: well_typed_def updrw_def points_new_same points_other_new
          intro!: known_upd(3) bound_data_upd(3))
    then show ?thesis using m new n(1) by (auto simp: advertise_window_def Let_def intro!: typed_intros split: option.split)
  qed
qed

subsection \<open>Objects that go\<close>

lemma typed_data: "well_typed s \<Longrightarrow> wm_win s a = Some x \<Longrightarrow> knows (points (wm_res s) KWindow) (points (wm_res s) KNode) a x"
  unfolding well_typed_def by (elim conjE) (rule window_knows)

lemma typed_maybe_free:
  assumes "well_typed s" "wm_win s a = Some x"
  shows "well_typed (maybe_free_window a s)"
proof (cases "rw_swc x \<noteq> None \<or> rw_resource x \<noteq> None \<or> rw_node x \<noteq> None")
  case True
  with assms show ?thesis by (simp add: maybe_free_window_def rwin_def)
next
  case False
  let ?t = "(drop_window_events a s)\<lparr>wm_win := (wm_win s)(a := None)\<rparr>"
  have w: "window_typed (points (wm_res s) KWindow) (points (wm_res s) KNode) (wm_win s)" and l: "listed (wm_win s) (wm_windows s)"
    and q: "queued (wm_win s) (wm_bind s) (wm_queue s)"
    using assms(1) by (simp_all add: well_typed_def)
  have "a \<notin> set (wm_windows s)" using l assms(2) False by (auto simp: listed_def)
  moreover have "allocated ?t"
    by (rule allocated_same[OF typed_allocated[OF assms(1)]]) (auto simp: drop_window_events_def)
  moreover have "window_typed (points (wm_res s) KWindow) (points (wm_res s) KNode) ((wm_win s)(a := None))"
    using False by (intro window_free[OF w assms(2)]) auto
  ultimately have "well_typed ?t"
    using assms(1) listed_ops(3)[OF l] queued_upd(5)[OF q]
    by (simp add: well_typed_def drop_window_events_def)
  then show ?thesis using False assms(2) by (simp add: maybe_free_window_def rwin_def)
qed

lemma drop_maybe_free: "drop_resource r (maybe_free_window a s) = maybe_free_window a (drop_resource r s)"
  by (simp add: maybe_free_window_def drop_resource_def rwin_def drop_window_events_def Let_def)

lemma typed_drop_window:
  assumes "well_typed s" "is_a (wm_res s) KWindow r" "\<And>a x. wm_win s a = Some x \<Longrightarrow> rw_resource x \<noteq> Some r"
  shows "well_typed (drop_resource r s)"
proof -
  have "window_typed (\<lambda>q b. q \<noteq> r \<and> points (wm_res s) KWindow q b) (points (wm_res s) KNode) (wm_win s)"
    using assms(1) by (intro window_drop(1) assms(3)) (simp_all add: well_typed_def)
  then show ?thesis
    using assms(1) allocated_heaps(5)[OF typed_allocated[OF assms(1)], of r]
    by (auto simp: well_typed_def drop_resource_def points_drop[of _ _ KWindow] points_other[OF assms(2)]
        intro: known_other[OF _ assms(2)] bound_data_upd(1))
qed

lemma typed_drop_node:
  assumes "well_typed s" "is_a (wm_res s) KNode r" "\<And>a x. wm_win s a = Some x \<Longrightarrow> rw_node x \<noteq> Some r"
  shows "well_typed (drop_resource r s)"
proof -
  have "window_typed (points (wm_res s) KWindow) (\<lambda>q b. q \<noteq> r \<and> points (wm_res s) KNode q b) (wm_win s)"
    using assms(1) by (intro window_drop(2) assms(3)) (simp_all add: well_typed_def)
  then show ?thesis
    using assms(1) allocated_heaps(5)[OF typed_allocated[OF assms(1)], of r]
    by (auto simp: well_typed_def drop_resource_def points_drop[of _ _ KNode] points_other[OF assms(2)]
        intro: known_other[OF _ assms(2)] bound_data_upd(1))
qed

text \<open>What the user data of a typed resource is.\<close>

lemma win_data_cases:
  assumes "well_typed s" "is_a (wm_res s) k r" "k = KWindow \<or> k = KNode"
  shows "(\<exists>a x. points (wm_res s) k r a \<and> wm_win s a = Some x \<and> win_data r s = Inr (Some a)) \<or>
    win_data r s = Inr None \<and> (\<forall>a. \<not> points (wm_res s) k r a)"
proof -
  obtain y where y: "wm_res s r = Some y" "rr_iface y = k" using assms(2) by (auto simp: is_a_def split: option.splits)
  show ?thesis
  proof (cases "rr_data y")
    case None
    with y show ?thesis by (simp add: user_data_def points_def)
  next
    case (Some a)
    with y have p: "points (wm_res s) k r a" by (simp add: points_def)
    with assms(3) have "points (wm_res s) KWindow r a \<or> points (wm_res s) KNode r a" by auto
    then have "wm_win s a \<noteq> None" using window_there[of _ _ "wm_win s" r a] assms(1) by (auto simp: well_typed_def)
    with y Some p show ?thesis by (auto simp: user_data_def)
  qed
qed

lemma typed_window_gone:
  assumes "well_typed s" "is_a (wm_res s) KWindow r"
  shows "\<exists>t. window_resource_destroy r s = Inr t \<and> well_typed t"
proof -
  have backs: "wm_win s b = Some y \<Longrightarrow> rw_resource y = Some r \<Longrightarrow> points (wm_res s) KWindow r b" for b y
    using typed_data[OF assms(1), of b y] by (simp add: knows_def)
  from win_data_cases[OF assms disjI1[OF refl]] show ?thesis
  proof (elim disjE exE conjE)
    assume "win_data r s = Inr None" "\<forall>a. \<not> points (wm_res s) KWindow r a"
    with backs typed_drop_window[OF assms] show ?thesis by (auto simp: window_resource_destroy_def)
  next
    fix a x assume p: "points (wm_res s) KWindow r a" and x: "wm_win s a = Some x" and d: "win_data r s = Inr (Some a)"
    show ?thesis
    proof (cases "rw_resource x = Some r")
      case False
      then have "wm_win s b = Some y \<Longrightarrow> rw_resource y \<noteq> Some r" for b y
        using backs[of b y] points_det[OF p, of b] x by auto
      with typed_drop_window[OF assms] d x False show ?thesis by (simp add: window_resource_destroy_def rwin_def)
    next
      case True
      let ?u = "drop_resource r (updrw a (\<lambda>x. x\<lparr>rw_resource := None, rw_advertised := False\<rparr>) s)"
      have w: "window_typed (points (wm_res s) KWindow) (points (wm_res s) KNode) (wm_win s)" and l: "listed (wm_win s) (wm_windows s)"
        and q: "queued (wm_win s) (wm_bind s) (wm_queue s)"
        using assms(1) by (simp_all add: well_typed_def)
      have "allocated ?u" by (intro allocated_heaps typed_allocated assms(1))
      then have "well_typed ?u"
        using assms(1) x window_forget[OF w x True] allocated_heaps(5)[OF typed_allocated[OF assms(1)], of r]
          listed_ops(1)[OF l, of "\<lambda>x. x\<lparr>rw_resource := None, rw_advertised := False\<rparr>" a] queued_upd(3)[OF q, of a]
        by (auto simp: well_typed_def drop_resource_def updrw_def points_drop[of _ _ KWindow] points_other[OF assms(2)]
            intro: known_other[OF _ assms(2)] bound_data_upd(1))
      moreover have "wm_win ?u a = Some (x\<lparr>rw_resource := None, rw_advertised := False\<rparr>)"
        using x by (simp add: drop_resource_def updrw_def)
      ultimately have "well_typed (maybe_free_window a ?u)" by (rule typed_maybe_free)
      with d x True show ?thesis by (simp add: window_resource_destroy_def rwin_def drop_maybe_free)
    qed
  qed
qed

lemma typed_node_gone:
  assumes "well_typed s" "is_a (wm_res s) KNode r"
  shows "\<exists>t. node_resource_destroy r s = Inr t \<and> well_typed t"
proof -
  have backs: "wm_win s b = Some y \<Longrightarrow> rw_node y = Some r \<Longrightarrow> points (wm_res s) KNode r b" for b y
    using typed_data[OF assms(1), of b y] by (simp add: knows_def)
  from win_data_cases[OF assms disjI2[OF refl]] show ?thesis
  proof (elim disjE exE conjE)
    assume "win_data r s = Inr None" "\<forall>a. \<not> points (wm_res s) KNode r a"
    with backs typed_drop_node[OF assms] show ?thesis by (auto simp: node_resource_destroy_def)
  next
    fix a x assume p: "points (wm_res s) KNode r a" and x: "wm_win s a = Some x" and d: "win_data r s = Inr (Some a)"
    show ?thesis
    proof (cases "rw_node x = Some r")
      case False
      then have "wm_win s b = Some y \<Longrightarrow> rw_node y \<noteq> Some r" for b y
        using backs[of b y] points_det[OF p, of b] x by auto
      with typed_drop_node[OF assms] d x False show ?thesis by (simp add: node_resource_destroy_def rwin_def)
    next
      case True
      let ?u = "drop_resource r (updrw a (\<lambda>x. x\<lparr>rw_node := None\<rparr>) s)"
      have w: "window_typed (points (wm_res s) KWindow) (points (wm_res s) KNode) (wm_win s)" and l: "listed (wm_win s) (wm_windows s)"
        and q: "queued (wm_win s) (wm_bind s) (wm_queue s)"
        using assms(1) by (simp_all add: well_typed_def)
      have "allocated ?u" by (intro allocated_heaps typed_allocated assms(1))
      then have "well_typed ?u"
        using assms(1) x window_forget_node[OF w x True] allocated_heaps(5)[OF typed_allocated[OF assms(1)], of r]
          listed_ops(1)[OF l, of "\<lambda>x. x\<lparr>rw_node := None\<rparr>" a] queued_upd(3)[OF q, of a]
        by (auto simp: well_typed_def drop_resource_def updrw_def points_drop[of _ _ KNode] points_other[OF assms(2)]
            intro: known_other[OF _ assms(2)] bound_data_upd(1))
      moreover have "wm_win ?u a = Some (x\<lparr>rw_node := None\<rparr>)" using x by (simp add: drop_resource_def updrw_def)
      ultimately have "well_typed (maybe_free_window a ?u)" by (rule typed_maybe_free)
      with d x True show ?thesis by (simp add: node_resource_destroy_def rwin_def drop_maybe_free)
    qed
  qed
qed

lemma user_data_cases:
  assumes "is_a (wm_res s) k r" "\<And>a. points (wm_res s) k r a \<Longrightarrow> alive a"
  shows "(\<exists>a. points (wm_res s) k r a \<and> alive a \<and> user_data alive r s = Inr (Some a)) \<or>
    user_data alive r s = Inr None \<and> (\<forall>a. \<not> points (wm_res s) k r a)"
proof -
  obtain y where y: "wm_res s r = Some y" "rr_iface y = k" using assms(1) by (auto simp: is_a_def split: option.splits)
  show ?thesis
  proof (cases "rr_data y")
    case None
    with y show ?thesis by (simp add: user_data_def points_def)
  next
    case (Some a)
    with y have "points (wm_res s) k r a" by (simp add: points_def)
    with assms(2) y Some show ?thesis by (auto simp: user_data_def)
  qed
qed

lemma typed_below: "well_typed s \<Longrightarrow> points (wm_res s) k r a \<Longrightarrow> r < wm_next s"
  using typed_allocated[of s] points_none[of "wm_res s" r k a] by (fastforce simp: allocated_def not_le[symmetric])

subsection \<open>Outputs\<close>

lemma typed_outputs:
  "well_typed s \<Longrightarrow> output_typed (points (wm_res s) KOutput) (points (wm_res s) KLayerOutput) (wm_out s) (wm_outputs s)"
  by (simp add: well_typed_def)

lemma out_data_cases:
  assumes "well_typed s" "is_a (wm_res s) k r" "k = KOutput \<or> k = KLayerOutput"
  shows "(\<exists>a x. points (wm_res s) k r a \<and> wm_out s a = Some x \<and> out_data r s = Inr (Some a)) \<or>
    out_data r s = Inr None \<and> (\<forall>a. \<not> points (wm_res s) k r a)"
proof -
  have "wm_out s a \<noteq> None" if "points (wm_res s) k r a" for a
    using output_there[OF typed_outputs[OF assms(1)], of r a] assms(3) that by auto
  from user_data_cases[OF assms(2), where alive = "\<lambda>a. wm_out s a \<noteq> None", OF this] show ?thesis by auto
qed

lemma typed_drop_output:
  assumes "well_typed s" "is_a (wm_res s) k r"
    and "k = KOutput \<and> (\<forall>a x. wm_out s a = Some x \<longrightarrow> ro_resource x \<noteq> Some r) \<or>
      k = KLayerOutput \<and> (\<forall>a x. wm_out s a = Some x \<longrightarrow> ro_layer_shell x \<noteq> Some r)"
  shows "well_typed (drop_resource r s)"
  using assms(3)
proof (elim disjE conjE)
  assume k: "k = KOutput" and n: "\<forall>a x. wm_out s a = Some x \<longrightarrow> ro_resource x \<noteq> Some r"
  have "output_typed (\<lambda>q b. q \<noteq> r \<and> points (wm_res s) KOutput q b) (points (wm_res s) KLayerOutput) (wm_out s) (wm_outputs s)"
    by (rule output_drop(1)[OF typed_outputs[OF assms(1)]]) (use n in blast)
  then show ?thesis
    using assms(1) allocated_heaps(5)[OF typed_allocated[OF assms(1)], of r]
    by (auto simp: well_typed_def drop_resource_def points_drop[of _ _ KOutput] points_other[OF assms(2)[unfolded k]]
        intro: known_other[OF _ assms(2)[unfolded k]] bound_data_upd(1))
next
  assume k: "k = KLayerOutput" and n: "\<forall>a x. wm_out s a = Some x \<longrightarrow> ro_layer_shell x \<noteq> Some r"
  have "output_typed (points (wm_res s) KOutput) (\<lambda>q b. q \<noteq> r \<and> points (wm_res s) KLayerOutput q b) (wm_out s) (wm_outputs s)"
    by (rule output_drop(2)[OF typed_outputs[OF assms(1)]]) (use n in blast)
  then show ?thesis
    using assms(1) allocated_heaps(5)[OF typed_allocated[OF assms(1)], of r]
    by (auto simp: well_typed_def drop_resource_def points_drop[of _ _ KLayerOutput] points_other[OF assms(2)[unfolded k]]
        intro: known_other[OF _ assms(2)[unfolded k]] bound_data_upd(1))
qed

lemma typed_output_gone:
  assumes "well_typed s" "is_a (wm_res s) KOutput r"
  shows "\<exists>t. output_resource_destroy r s = Inr t \<and> well_typed t"
proof -
  note o = typed_outputs[OF assms(1)]
  have backs: "wm_out s b = Some y \<Longrightarrow> ro_resource y = Some r \<Longrightarrow> points (wm_res s) KOutput r b" for b y
    using output_knows[OF o, of b y] by (simp add: output_good_def)
  from out_data_cases[OF assms disjI1[OF refl]] show ?thesis
  proof (elim disjE exE conjE)
    assume "out_data r s = Inr None" "\<forall>a. \<not> points (wm_res s) KOutput r a"
    with backs typed_drop_output[OF assms] show ?thesis by (auto simp: output_resource_destroy_def)
  next
    fix a x assume p: "points (wm_res s) KOutput r a" and x: "wm_out s a = Some x" and d: "out_data r s = Inr (Some a)"
    show ?thesis
    proof (cases "ro_resource x = Some r")
      case False
      then have "\<forall>b y. wm_out s b = Some y \<longrightarrow> ro_resource y \<noteq> Some r"
        using backs points_det[OF p] x by (metis option.inject)
      with typed_drop_output[OF assms] d x False show ?thesis by (simp add: output_resource_destroy_def rout_def)
    next
      case True
      let ?u = "drop_resource r (updro a (\<lambda>x. x\<lparr>ro_resource := None, ro_advertised := False\<rparr>) s)"
      have "allocated ?u" by (intro allocated_heaps typed_allocated assms(1))
      then have "well_typed ?u"
        using assms(1) x output_forget[OF o x True]
        by (auto simp: well_typed_def drop_resource_def updro_def points_drop[of _ _ KOutput] points_other[OF assms(2)]
            intro: known_other[OF _ assms(2)] bound_data_upd(1))
      with d x True show ?thesis by (simp add: output_resource_destroy_def rout_def)
    qed
  qed
qed

lemma typed_layer_output_gone:
  assumes "well_typed s" "is_a (wm_res s) KLayerOutput r"
  shows "\<exists>t. layer_output_resource_destroy r s = Inr t \<and> well_typed t"
proof -
  note o = typed_outputs[OF assms(1)]
  have backs: "wm_out s b = Some y \<Longrightarrow> ro_layer_shell y = Some r \<Longrightarrow> points (wm_res s) KLayerOutput r b" for b y
    using output_knows[OF o, of b y] by (simp add: output_good_def)
  from out_data_cases[OF assms disjI2[OF refl]] show ?thesis
  proof (elim disjE exE conjE)
    assume "out_data r s = Inr None" "\<forall>a. \<not> points (wm_res s) KLayerOutput r a"
    with backs typed_drop_output[OF assms] show ?thesis by (auto simp: layer_output_resource_destroy_def)
  next
    fix a x assume p: "points (wm_res s) KLayerOutput r a" and x: "wm_out s a = Some x" and d: "out_data r s = Inr (Some a)"
    show ?thesis
    proof (cases "ro_layer_shell x = Some r")
      case False
      then have "\<forall>b y. wm_out s b = Some y \<longrightarrow> ro_layer_shell y \<noteq> Some r"
        using backs points_det[OF p] x by (metis option.inject)
      with typed_drop_output[OF assms] d x False show ?thesis by (simp add: layer_output_resource_destroy_def rout_def)
    next
      case True
      let ?u = "drop_resource r (updro a (\<lambda>x. x\<lparr>ro_layer_shell := None\<rparr>) s)"
      have "allocated ?u" by (intro allocated_heaps typed_allocated assms(1))
      then have "well_typed ?u"
        using assms(1) x output_forget_layer[OF o x True]
        by (auto simp: well_typed_def drop_resource_def updro_def points_drop[of _ _ KLayerOutput] points_other[OF assms(2)]
            intro: known_other[OF _ assms(2)] bound_data_upd(1))
      with d x True show ?thesis by (simp add: layer_output_resource_destroy_def rout_def)
    qed
  qed
qed

text \<open>The layer shell's object for an output.\<close>

lemma typed_layer_get_output:
  assumes "well_typed s" "is_a (wm_res s) KOutput r"
  shows "\<exists>t. layer_shell_get_output l r s = Inr t \<and> well_typed t"
proof -
  have make: "well_typed (case new_resource KLayerOutput d (version_of l s) s of
        (None, s) \<Rightarrow> send l NoMemory s
      | (Some l, s) \<Rightarrow> (case d of None \<Rightarrow> s | Some a \<Rightarrow> send_output_geometry a (updro a (\<lambda>x. x\<lparr>ro_layer_shell := Some l\<rparr>) s)))"
    if d: "d = None \<or> (\<exists>a x. d = Some a \<and> wm_out s a = Some x)" for d
  proof -
    obtain o' t where new: "new_resource KLayerOutput d (version_of l s) s = (o', t)" by force
    from new_resource_cases[OF new] show ?thesis
    proof (elim disjE conjE)
      assume "o' = None" "t = s"
      with new assms(1) show ?thesis by (simp add: typed_intros)
    next
      assume n: "o' = Some (wm_next s)" "t = s\<lparr>wm_res := (wm_res s)(wm_next s \<mapsto> \<lparr>rr_iface = KLayerOutput, rr_data = d, rr_version = version_of l s\<rparr>),
        wm_next := Suc (wm_next s)\<rparr>"
      show ?thesis
      proof (cases d)
        case None
        then show ?thesis using new n(1) typed_new(1)[OF assms(1) _ _ new[unfolded None]] by simp
      next
        case (Some a)
        with d obtain x where x: "wm_out s a = Some x" by auto
        have "allocated t" unfolding n(2) by (rule allocated_new[OF typed_allocated[OF assms(1)]])
        then have "allocated (updro a (\<lambda>x. x\<lparr>ro_layer_shell := Some (wm_next s)\<rparr>) t)" by (rule allocated_heaps)
        then have "well_typed (updro a (\<lambda>x. x\<lparr>ro_layer_shell := Some (wm_next s)\<rparr>) t)"
          using assms(1) x output_advertised(2)[OF typed_outputs[OF assms(1)] x typed_no_points[OF assms(1)]]
            typed_fresh[OF assms(1)] n(2) Some
          by (auto simp: well_typed_def updro_def points_new_same points_other_new intro!: known_upd(3) bound_data_upd(3))
        then show ?thesis using new n(1) Some by (simp add: typed_intros)
      qed
    qed
  qed
  from out_data_cases[OF assms disjI1[OF refl]] make assms(1) show ?thesis
    by (auto simp: layer_shell_get_output_def intro!: typed_intros)
qed

lemma typed_screen_gone:
  assumes "well_typed s" "a \<in> set (wm_outputs s)" "sole_output a s"
  shows "well_typed (handle_screen_destroy a s)"
proof -
  note o = typed_outputs[OF assms(1)]
  obtain x where x: "wm_out s a = Some x" using o assms(2) by (auto simp: output_typed_def)
  have sole: "\<And>r. points (wm_res s) KOutput r a \<Longrightarrow> ro_resource x = Some r" "\<And>r. \<not> points (wm_res s) KLayerOutput r a"
    using assms(3) x typed_below[OF assms(1)] by (auto simp: sole_output_def rout_def)
  define s1 where "s1 = (case ro_resource x of None \<Rightarrow> s | Some r \<Rightarrow> set_user_data r None (send r Removed s))"
  define s2 where "s2 = (if wm_screen s1 = Some (ro_swc x) then s1\<lparr>wm_screen := None\<rparr> else s1)"
  define t where "t = s2\<lparr>wm_outputs := remove1 a (wm_outputs s2), wm_out := (wm_out s2)(a := None)\<rparr>"
  have "allocated s1" unfolding s1_def
    using allocated_heaps(4)[OF typed_allocated[OF typed_fields(11)[OF assms(1)]]] typed_allocated[OF assms(1)]
    by (simp split: option.split)
  then have "allocated t" by (rule allocated_same) (auto simp: t_def s2_def)
  moreover have "ro_resource x = Some r \<Longrightarrow> is_a (wm_res s) KOutput r" for r
    using output_knows[OF o x] points_is_a by (auto simp: output_good_def)
  ultimately have "well_typed t"
    using assms(1) output_free[OF o x sole]
    by (cases "ro_resource x")
      (auto simp: well_typed_def t_def s2_def s1_def send_def set_user_data_def points_clear[of _ _ KOutput] points_other(2)
        intro: known_upd(2) bound_data_upd(2))
  then have "well_typed (schedule_sequence t)" by (rule typed_intros)
  moreover have "handle_screen_destroy a s = schedule_sequence t"
    unfolding handle_screen_destroy_def Let_def rout_def x option.sel t_def s2_def s1_def by (rule refl)
  ultimately show ?thesis by simp
qed

lemma typed_add_screen:
  assumes "well_typed s"
  shows "well_typed (river_wm_add_screen n s)"
proof -
  let ?a = "wm_next_addr s" and ?x = "\<lparr>ro_resource = None, ro_layer_shell = None, ro_swc = n, ro_advertised = False\<rparr>"
  let ?t = "s\<lparr>wm_next_addr := ?a + 1, wm_outputs := wm_outputs s @ [?a], wm_out := (wm_out s)(?a \<mapsto> ?x)\<rparr>"
  have "allocated ?t" using typed_allocated[OF assms] by (auto simp: allocated_def)
  then have "well_typed ?t"
    using assms output_new[OF typed_outputs[OF assms] typed_fresh_addr(2)[OF assms order_refl], of ?x]
    by (simp add: well_typed_def)
  with assms show ?thesis by (simp add: river_wm_add_screen_def Let_def typed_intros)
qed

subsection \<open>Windows\<close>

lemma typed_windows:
  assumes "well_typed s"
  shows "window_typed (points (wm_res s) KWindow) (points (wm_res s) KNode) (wm_win s)" "listed (wm_win s) (wm_windows s)"
    "queued (wm_win s) (wm_bind s) (wm_queue s)"
  using assms by (simp_all add: well_typed_def)

lemma typed_listed: "well_typed s \<Longrightarrow> a \<in> set (wm_windows s) \<Longrightarrow> \<exists>x. wm_win s a = Some x \<and> rw_swc x \<noteq> None"
  using typed_windows(2)[of s] by (simp add: listed_def)

lemma typed_window_released:
  assumes "well_typed s" "a \<in> set (wm_windows s)" "sole_window a s"
  shows "well_typed (handle_window_destroy a s)"
proof -
  note w = typed_windows[OF assms(1)]
  obtain x where x: "wm_win s a = Some x" using typed_listed[OF assms(1,2)] by auto
  have sole: "\<And>r. points (wm_res s) KWindow r a \<Longrightarrow> rw_resource x = Some r" "\<And>r. points (wm_res s) KNode r a \<Longrightarrow> rw_node x = Some r"
    using assms(3) x typed_below[OF assms(1)] by (auto simp: sole_window_def rwin_def)
  let ?x = "x\<lparr>rw_closed := True, rw_swc := None\<rparr>"
  define v where "v = updrw a (\<lambda>x. x\<lparr>rw_closed := True, rw_swc := None\<rparr>) s"
  define t where "t = v\<lparr>wm_windows := remove1 a (wm_windows v)\<rparr>"
  define u where "u = (case rw_resource (rwin t a) of None \<Rightarrow> t | Some r \<Rightarrow> send r Closed t)"
  have "allocated t" by (rule allocated_same[OF typed_allocated[OF assms(1)]]) (auto simp: t_def v_def updrw_def)
  moreover have "listed ((wm_win s)(a \<mapsto> ?x)) (remove1 a (wm_windows s))"
    using w(2) by (intro listed_ops(3) listed_ops(2)) (auto simp: listed_def)
  ultimately have t: "well_typed t" using assms(1) x window_released[OF w(1) x sole] queued_upd(3)[OF w(3)]
    by (simp add: well_typed_def t_def v_def updrw_def)
  then have "well_typed u" by (auto simp: u_def intro: typed_intros split: option.split)
  moreover have "wm_win u a = Some ?x" using x by (auto simp: u_def t_def v_def updrw_def send_def split: option.split)
  ultimately have "well_typed (schedule_sequence (maybe_free_window a u))" by (intro typed_intros typed_maybe_free)
  moreover have "handle_window_destroy a s = schedule_sequence (maybe_free_window a u)"
    unfolding handle_window_destroy_def Let_def u_def t_def v_def by (rule refl)
  ultimately show ?thesis by simp
qed

lemma typed_add_window:
  assumes "well_typed s" "river_wm_add_window w s = Inr t"
  shows "well_typed t"
proof (cases "ws_mem s")
  case False
  with assms show ?thesis by (simp add: river_wm_add_window_def)
next
  case True
  let ?a = "wm_next_addr s" and ?x = "\<lparr>rw_resource = None, rw_node = None, rw_swc = Some w, rw_advertised = False, rw_closed = False,
    rw_has_proposal = False, rw_width = 0, rw_height = 0, rw_sent_width = 0, rw_sent_height = 0\<rparr>"
  define s1 where "s1 = s\<lparr>wm_next_addr := ?a + 1, wm_windows := wm_windows s @ [?a], wm_win := (wm_win s)(?a \<mapsto> ?x)\<rparr>"
  note W = typed_windows[OF assms(1)]
  have fresh: "wm_win s ?a = None" "wm_shell s ?a = None" using typed_fresh_addr[OF assms(1) order_refl] by auto
  have "allocated s1" using typed_allocated[OF assms(1)] fresh by (auto simp: allocated_def s1_def)
  moreover have "?a \<notin> set (wm_windows s)" using W(2) fresh by (auto simp: listed_def)
  ultimately have "well_typed s1"
    using assms(1) window_new[OF W(1), of ?x ?a] listed_ops(4)[OF W(2) fresh(1), of ?x] queued_upd(3)[OF W(3), of ?a ?x]
    by (simp add: well_typed_def s1_def)
  then have s2: "well_typed (swc_window_set_handler w river_handler s1)"
    by (rule typed_drives[where c = False]) (simp add: drive_intros)
  obtain v z where v: "swc_window_set_tiled w (swc_window_set_handler w river_handler s1) = Inr v"
    and z: "compositor_view_show (w_view (win v w)) v = Some z" and t: "t = schedule_sequence z"
    using assms(2) True unfolding river_wm_add_window_def Let_def s1_def[symmetric]
    by (auto simp: andThen_Inr swc_window_show_def)
  have "well_typed v" by (rule typed_drives[OF s2 drives_set_tiled[OF v drives_refl]])
  then have "well_typed z" by (rule typed_drives[OF _ drives_show[OF z drives_refl]])
  then show ?thesis unfolding t by (rule typed_intros)
qed

lemma typed_get_node:
  assumes "well_typed s" "is_a (wm_res s) KWindow r"
  shows "\<exists>t. window_get_node r s = Inr t \<and> well_typed t"
proof -
  have make: "well_typed (case new_resource KNode d v s of
        (None, s) \<Rightarrow> send r NoMemory s
      | (Some n, s) \<Rightarrow>
          (case d of
             None \<Rightarrow> s
           | Some a \<Rightarrow>
               let s = (case rw_node (rwin s a) of None \<Rightarrow> s | Some old \<Rightarrow> set_user_data old None s)
               in updrw a (\<lambda>x. x\<lparr>rw_node := Some n\<rparr>) s))"
    if d: "d = None \<or> (\<exists>a x. d = Some a \<and> wm_win s a = Some x)" for d v
  proof -
    obtain o' t where new: "new_resource KNode d v s = (o', t)" by force
    from new_resource_cases[OF new] show ?thesis
    proof (elim disjE conjE)
      assume "o' = None" "t = s"
      with new assms(1) show ?thesis by (simp add: typed_intros)
    next
      assume n: "o' = Some (wm_next s)" "t = s\<lparr>wm_res := (wm_res s)(wm_next s \<mapsto> \<lparr>rr_iface = KNode, rr_data = d, rr_version = v\<rparr>),
        wm_next := Suc (wm_next s)\<rparr>"
      show ?thesis
      proof (cases d)
        case None
        then show ?thesis using new n(1) typed_new(1)[OF assms(1) _ _ new[unfolded None]] by simp
      next
        case (Some a)
        with d obtain x where x: "wm_win s a = Some x" by auto
        note w = typed_windows[OF assms(1)]
        define t1 where "t1 = (case rw_node x of None \<Rightarrow> t | Some old \<Rightarrow> set_user_data old None t)"
        let ?u = "updrw a (\<lambda>x. x\<lparr>rw_node := Some (wm_next s)\<rparr>) t1"
        have old: "rw_node x = Some old \<Longrightarrow> is_a (wm_res s) KNode old \<and> old \<noteq> wm_next s" for old
          using typed_data[OF assms(1) x] points_is_a typed_no_points[OF assms(1), of KNode a] by (auto simp: knows_def)
        have "allocated t" unfolding n(2) by (rule allocated_new[OF typed_allocated[OF assms(1)]])
        then have alloc: "allocated ?u" by (cases "rw_node x") (simp_all add: t1_def allocated_heaps)
        have R: "points (wm_res t1) KNode = (\<lambda>q b. if q = wm_next s then b = a else Some q \<noteq> rw_node x \<and> points (wm_res s) KNode q b)"
        proof -
          have "points (wm_res t) KNode = (\<lambda>q b. if q = wm_next s then b = a else points (wm_res s) KNode q b)"
            using n(2) Some by (simp add: points_new_same)
          then show ?thesis using old
            by (cases "rw_node x") (auto simp: t1_def set_user_data_def points_clear fun_eq_iff)
        qed
        have is_old: "rw_node x = Some old \<Longrightarrow> is_a (wm_res t) KNode old" for old using old n(2) by (simp add: is_a_upd)
        have other: "k \<noteq> KNode \<Longrightarrow> points (wm_res t1) k = points (wm_res s) k" for k
        proof -
          assume "k \<noteq> KNode"
          then have "points (wm_res t) k = points (wm_res s) k" using typed_fresh[OF assms(1)] n(2) by (simp add: points_other_new)
          then show ?thesis
            using points_other(2)[OF is_old] \<open>k \<noteq> KNode\<close> by (cases "rw_node x") (simp_all add: t1_def set_user_data_def)
        qed
        have kn: "known (wm_res s) k o'' \<Longrightarrow> known (wm_res t1) k o''" for k o''
        proof -
          assume "known (wm_res s) k o''"
          then have "known (wm_res t) k o''" using typed_fresh[OF assms(1)] n(2) by (simp add: known_upd(3))
          then show ?thesis by (cases "rw_node x") (auto simp: t1_def set_user_data_def intro: known_upd(2))
        qed
        have bd: "bound_data (wm_res t1)"
        proof -
          have "bound_data (wm_res t)" using assms(1) n(2) by (auto simp: well_typed_def intro: bound_data_upd(3))
          then show ?thesis using is_old by (cases "rw_node x") (auto simp: t1_def set_user_data_def intro: bound_data_upd(2))
        qed
        have same: "wm_win t1 = wm_win s" "wm_windows t1 = wm_windows s" "wm_out t1 = wm_out s" "wm_outputs t1 = wm_outputs s"
          "wm_shell t1 = wm_shell s" "wm_bind t1 = wm_bind s" "wm_key_bindings t1 = wm_key_bindings s" "wm_swc t1 = wm_swc s"
          "wm_queue t1 = wm_queue s" "wm_manager t1 = wm_manager s" "wm_seat t1 = wm_seat s" "wm_layer_seat t1 = wm_layer_seat s"
          "wm_xkb_seat t1 = wm_xkb_seat s"
          using n(2) by (cases "rw_node x", simp_all add: t1_def set_user_data_def)+
        have "listed ((wm_win s)(a \<mapsto> x\<lparr>rw_node := Some (wm_next s)\<rparr>)) (wm_windows s)" using w(2) x by (auto simp: listed_def)
        then have "well_typed ?u"
          using assms(1) x window_noded[OF w(1) x typed_no_points[OF assms(1)]] queued_upd(3)[OF w(3)] alloc
          by (auto simp: well_typed_def updrw_def same R other bd intro: kn)
        moreover have "rwin t a = x" using n(2) x by (simp add: rwin_def)
        ultimately show ?thesis using new n(1) Some by (simp add: t1_def)
      qed
    qed
  qed
  from win_data_cases[OF assms disjI1[OF refl]] make assms(1) show ?thesis
    by (elim disjE exE conjE) (simp_all add: window_get_node_def)
qed

lemma typed_manager_gone:
  assumes "well_typed s" "is_a (wm_res s) KManager r"
  shows "well_typed (manager_resource_destroy r s)"
proof -
  have plain: "well_typed (drop_resource r t)"
    if "well_typed t" "is_a (wm_res t) KManager r" "wm_manager t \<noteq> Some r" for t :: "'a rstate_scheme"
    using that(1) known_upd(1)[of "wm_res t" KManager "wm_manager t" r] that(3) allocated_heaps(5)[OF typed_allocated[OF that(1)], of r]
    by (auto simp: well_typed_def drop_resource_def points_other[OF that(2)]
        intro: known_other[OF _ that(2)] bound_data_upd(1))
  show ?thesis
  proof (cases "wm_manager s = Some r")
    case False
    with plain[OF assms] show ?thesis by (simp add: manager_resource_destroy_def)
  next
    case True
    define s1 where "s1 = s\<lparr>wm_manager := None, wm_phase := PHASE_IDLE\<rparr>"
    let ?f = "\<lambda>a. updrw a (\<lambda>x. x\<lparr>rw_resource := None, rw_node := None, rw_advertised := False\<rparr>)"
    let ?g = "\<lambda>a. updro a (\<lambda>x. x\<lparr>ro_resource := None, ro_advertised := False\<rparr>)"
    have s1: "well_typed s1" unfolding s1_def by (intro typed_intros typed_known(1) assms(1))
    have f: "well_typed t \<Longrightarrow> set ws \<subseteq> set (wm_windows t) \<Longrightarrow> well_typed (fold ?f ws t) \<and> wm_windows (fold ?f ws t) = wm_windows t" for ws t
    proof (induction ws arbitrary: t)
      case (Cons a ws)
      note w = typed_windows[OF Cons.prems(1)]
      obtain x where x: "wm_win t a = Some x" "rw_swc x \<noteq> None" using typed_listed[OF Cons.prems(1), of a] Cons.prems(2) by auto
      have "well_typed (?f a t)"
        using Cons.prems(1) x window_forgotten(1)[OF w(1) x] queued_upd(3)[OF w(3), of a] allocated_heaps(1)[OF typed_allocated[OF Cons.prems(1)], of a "\<lambda>x. x\<lparr>rw_resource := None, rw_node := None, rw_advertised := False\<rparr>"]
          listed_ops(1)[OF w(2), of "\<lambda>x. x\<lparr>rw_resource := None, rw_node := None, rw_advertised := False\<rparr>" a]
        by (simp add: well_typed_def updrw_def)
      from Cons.IH[OF this] Cons.prems(2) show ?case by (simp add: updrw_def)
    qed simp
    have g: "well_typed t \<Longrightarrow> set os \<subseteq> set (wm_outputs t) \<Longrightarrow> well_typed (fold ?g os t)" for os t
    proof (induction os arbitrary: t)
      case (Cons a os)
      note o = typed_outputs[OF Cons.prems(1)]
      obtain x where x: "wm_out t a = Some x" using o Cons.prems(2) by (auto simp: output_typed_def)
      have "well_typed (?g a t)"
        using Cons.prems(1) x output_advertised(4)[OF o x] allocated_heaps(2)[OF typed_allocated[OF Cons.prems(1)], of a "\<lambda>x. x\<lparr>ro_resource := None, ro_advertised := False\<rparr>"]
        by (simp add: well_typed_def updro_def)
      from Cons.IH[OF this] Cons.prems(2) show ?case by (simp add: updro_def)
    qed simp
    define s2 where "s2 = fold ?f (wm_windows s1) s1"
    define s3 where "s3 = (fold ?g (wm_outputs s2) s2)\<lparr>wm_seat := None\<rparr>"
    have "well_typed s3" unfolding s3_def s2_def by (intro typed_known(2) g conjunct1[OF f] s1) auto
    have keep: "wm_res (fold ?f ws t) = wm_res t \<and> wm_manager (fold ?f ws t) = wm_manager t"
      "wm_res (fold ?g ws t) = wm_res t \<and> wm_manager (fold ?g ws t) = wm_manager t" for ws and t :: "'a rstate_scheme"
      by (induction ws arbitrary: t) (simp_all add: updrw_def updro_def)
    have "well_typed (drop_resource r s3)"
      by (rule plain[OF \<open>well_typed s3\<close>]) (use assms(2) keep in \<open>simp_all add: s3_def s2_def s1_def\<close>)
    moreover have "manager_resource_destroy r s = drop_resource r s3"
      unfolding manager_resource_destroy_def s3_def s2_def s1_def Let_def using True by simp
    ultimately show ?thesis by simp
  qed
qed

subsection \<open>Shell surfaces\<close>

lemma typed_shells:
  "well_typed s \<Longrightarrow> shell_typed (points (wm_res s) KShellSurface) (points (wm_res s) KShellNode) (wm_shell s)"
  by (simp add: well_typed_def)

lemma shell_data_cases:
  assumes "well_typed s" "is_a (wm_res s) k r" "k = KShellSurface \<or> k = KShellNode"
  shows "(\<exists>a x. points (wm_res s) k r a \<and> wm_shell s a = Some x \<and> shell_data r s = Inr (Some a)) \<or>
    shell_data r s = Inr None \<and> (\<forall>a. \<not> points (wm_res s) k r a)"
proof -
  have "wm_shell s a \<noteq> None" if "points (wm_res s) k r a" for a
    using shell_there[OF typed_shells[OF assms(1)], of r a] assms(3) that by auto
  from user_data_cases[OF assms(2), where alive = "\<lambda>a. wm_shell s a \<noteq> None", OF this] show ?thesis by auto
qed

lemma typed_on_shell:
  assumes "well_typed s" "is_a (wm_res s) KShellNode r" "\<And>v s. drives False s (f v s)"
  shows "\<exists>t. on_shell r f s = Inr t \<and> well_typed t"
  using shell_data_cases[OF assms(1,2) disjI2[OF refl]]
proof (elim disjE exE conjE)
  fix a assume "shell_data r s = Inr (Some a)"
  then show ?thesis using typed_drives[OF assms(1) assms(3)] by (simp add: on_shell_def)
qed (use assms(1) in \<open>simp add: on_shell_def\<close>)

lemma typed_shell_get_node:
  assumes "well_typed s" "is_a (wm_res s) KShellSurface r"
  shows "\<exists>t. shell_surface_get_node r s = Inr t \<and> well_typed t"
proof -
  have make: "well_typed (case new_resource KShellNode d v s of
        (None, s) \<Rightarrow> send r NoMemory s
      | (Some n, s) \<Rightarrow>
          (case d of
             None \<Rightarrow> s
           | Some a \<Rightarrow> s\<lparr>wm_shell := (wm_shell s)(a := map_option (\<lambda>x. x\<lparr>rs_node := Some n\<rparr>) (wm_shell s a))\<rparr>))"
    if d: "d = None \<or> (\<exists>a x. d = Some a \<and> wm_shell s a = Some x \<and> rs_node x = None)" for d v
  proof -
    obtain o' t where new: "new_resource KShellNode d v s = (o', t)" by force
    from new_resource_cases[OF new] show ?thesis
    proof (elim disjE conjE)
      assume "o' = None" "t = s"
      with new assms(1) show ?thesis by (simp add: typed_intros)
    next
      assume n: "o' = Some (wm_next s)" "t = s\<lparr>wm_res := (wm_res s)(wm_next s \<mapsto> \<lparr>rr_iface = KShellNode, rr_data = d, rr_version = v\<rparr>),
        wm_next := Suc (wm_next s)\<rparr>"
      show ?thesis
      proof (cases d)
        case None
        then show ?thesis using new n(1) typed_new(1)[OF assms(1) _ _ new[unfolded None]] by simp
      next
        case (Some a)
        with d obtain x where x: "wm_shell s a = Some x" "rs_node x = None" by auto
        let ?u = "t\<lparr>wm_shell := (wm_shell t)(a := map_option (\<lambda>x. x\<lparr>rs_node := Some (wm_next s)\<rparr>) (wm_shell t a))\<rparr>"
        have "allocated t" unfolding n(2) by (rule allocated_new[OF typed_allocated[OF assms(1)]])
        then have "allocated ?u" by (rule allocated_same) auto
        then have "well_typed ?u"
          using assms(1) x shell_noded[OF typed_shells[OF assms(1)] x typed_no_points[OF assms(1)]] typed_fresh[OF assms(1)] n(2) Some
          by (auto simp: well_typed_def points_new_same points_other_new intro!: known_upd(3) bound_data_upd(3))
        then show ?thesis using new n(1) Some by simp
      qed
    qed
  qed
  from shell_data_cases[OF assms disjI1[OF refl]] show ?thesis
  proof (elim disjE exE conjE)
    fix a x assume "points (wm_res s) KShellSurface r a" "wm_shell s a = Some x" "shell_data r s = Inr (Some a)"
    then show ?thesis using make[of "Some a"] assms(1)
      by (cases "rs_node x") (simp_all add: shell_surface_get_node_def typed_intros)
  qed (use make[of None] in \<open>simp add: shell_surface_get_node_def\<close>)
qed

lemma typed_shell_node_gone:
  assumes "well_typed s" "is_a (wm_res s) KShellNode r"
  shows "\<exists>t. shell_node_resource_destroy r s = Inr t \<and> well_typed t"
proof -
  note h = typed_shells[OF assms(1)]
  have rest: "well_typed (drop_resource r t)"
    if "shell_typed (points (wm_res s) KShellSurface) (\<lambda>q b. q \<noteq> r \<and> points (wm_res s) KShellNode q b) H" "t = s\<lparr>wm_shell := H\<rparr>"
      "\<And>a. wm_shell s a = None \<Longrightarrow> H a = None" for H t
  proof -
    have "allocated t" by (rule allocated_same[OF typed_allocated[OF assms(1)]]) (use that(2,3) in auto)
    then have "allocated (drop_resource r t)" by (rule allocated_heaps)
    then show ?thesis using assms(1) that(1,2)
      by (auto simp: well_typed_def drop_resource_def points_drop[of _ _ KShellNode] points_other[OF assms(2)]
          intro: known_other[OF _ assms(2)] bound_data_upd(1))
  qed
  from shell_data_cases[OF assms disjI2[OF refl]] show ?thesis
  proof (elim disjE exE conjE)
    assume d: "shell_data r s = Inr None" "\<forall>a. \<not> points (wm_res s) KShellNode r a"
    then have "(\<lambda>q b. q \<noteq> r \<and> points (wm_res s) KShellNode q b) = points (wm_res s) KShellNode" by (auto intro: drop_idle)
    with rest[of "wm_shell s" s] h d show ?thesis by (simp add: shell_node_resource_destroy_def)
  next
    fix a x assume p: "points (wm_res s) KShellNode r a" and x: "wm_shell s a = Some x" and d: "shell_data r s = Inr (Some a)"
    have n: "rs_node x = Some r" using shell_knows[OF h x] p by (simp add: shell_good_def)
    let ?t = "s\<lparr>wm_shell := (wm_shell s)(a := map_option (\<lambda>x. x\<lparr>rs_node := None\<rparr>) (wm_shell s a))\<rparr>"
    have "well_typed (drop_resource r ?t)"
      by (rule rest[OF shell_forget_node[OF h x n]]) (use x in \<open>auto split: if_splits\<close>)
    with d x n show ?thesis by (simp add: shell_node_resource_destroy_def)
  qed
qed

lemma typed_shell_gone:
  assumes "well_typed s" "is_a (wm_res s) KShellSurface r" "shell_surface_resource_destroy r s = Inr t"
  shows "well_typed t"
  using shell_data_cases[OF assms(1,2) disjI1[OF refl]]
proof (elim disjE exE conjE)
  assume d: "shell_data r s = Inr None" "\<forall>a. \<not> points (wm_res s) KShellSurface r a"
  then have "(\<lambda>q b. q \<noteq> r \<and> points (wm_res s) KShellSurface q b) = points (wm_res s) KShellSurface" by (auto intro: drop_idle)
  with assms(1) allocated_heaps(5)[OF typed_allocated[OF assms(1)], of r] have "well_typed (drop_resource r s)"
    by (auto simp: well_typed_def drop_resource_def points_drop[of _ _ KShellSurface] points_other[OF assms(2)]
        intro: known_other[OF _ assms(2)] bound_data_upd(1))
  with d assms(3) show ?thesis by (simp add: shell_surface_resource_destroy_def)
next
  fix a x assume p: "points (wm_res s) KShellSurface r a" and x: "wm_shell s a = Some x" and d: "shell_data r s = Inr (Some a)"
  note h = typed_shells[OF assms(1)]
  have k: "rs_resource x = r" "rs_node x = Some n \<Longrightarrow> points (wm_res s) KShellNode n a" for n
    using shell_knows[OF h x] p by (auto simp: shell_good_def)
  obtain u where u: "swc_shell_surface_destroy (ws_renderer s (rs_swc x)) (Some (rs_swc x)) s = Some u"
    using assms(3) d x by (auto simp: shell_surface_resource_destroy_def andThen_Inr Let_def)
  then have "drives False s u" by (auto simp: swc_shell_surface_destroy_def intro: drives_destroy)
  then have tu: "well_typed u" "wm_res u = wm_res s" "wm_shell u = wm_shell s"
    using typed_drives[OF assms(1)] by (simp_all add: river_same[OF drivesD(1)])
  define v where "v = (case rs_node x of None \<Rightarrow> u | Some n \<Rightarrow> set_user_data n None u)"
  have t: "t = drop_resource r (v\<lparr>wm_shell := (wm_shell v)(a := None)\<rparr>)"
    using assms(3) d x u by (simp add: shell_surface_resource_destroy_def Let_def v_def)
  have node: "rs_node x = Some n \<Longrightarrow> is_a (wm_res u) KShellNode n" for n using k(2) tu(2) points_is_a by fastforce
  have "allocated v" using tu(1) by (cases "rs_node x") (simp_all add: v_def allocated_heaps typed_allocated)
  then have "allocated (v\<lparr>wm_shell := (wm_shell v)(a := None)\<rparr>)" by (rule allocated_same) auto
  then have alloc: "allocated t" unfolding t by (rule allocated_heaps)
  have N: "points (wm_res v) KShellNode = (\<lambda>q b. Some q \<noteq> rs_node x \<and> points (wm_res s) KShellNode q b)"
    unfolding tu(2)[symmetric] by (cases "rs_node x") (auto simp: v_def set_user_data_def points_clear fun_eq_iff)
  have other: "k \<noteq> KShellNode \<Longrightarrow> points (wm_res v) k = points (wm_res s) k" for k
    using points_other(2)[OF node] tu(2) by (cases "rs_node x") (simp_all add: v_def set_user_data_def)
  have is_r: "is_a (wm_res v) KShellSurface r" using assms(2) tu(2) by (cases "rs_node x") (simp_all add: v_def set_user_data_def is_a_upd)
  have P: "points (wm_res t) KShellSurface = (\<lambda>q b. q \<noteq> r \<and> points (wm_res s) KShellSurface q b)"
      "points (wm_res t) KShellNode = (\<lambda>q b. Some q \<noteq> rs_node x \<and> points (wm_res s) KShellNode q b)"
      "k \<noteq> KShellSurface \<Longrightarrow> k \<noteq> KShellNode \<Longrightarrow> points (wm_res t) k = points (wm_res s) k" for k
    using points_other(1)[OF is_r] other N by (simp_all add: t drop_resource_def points_drop[of _ _ KShellSurface])
  have kn: "known (wm_res t) j o'" if "known (wm_res s) j o'" "j \<noteq> KShellSurface" for j o'
  proof -
    have "known (wm_res v) j o'" using that(1) tu(2) by (cases "rs_node x") (auto simp: v_def set_user_data_def intro: known_upd(2))
    then show ?thesis using known_other[OF _ is_r that(2)] by (simp add: t drop_resource_def)
  qed
  have bd: "bound_data (wm_res t)"
  proof -
    have "bound_data (wm_res v)" using tu(1) node
      by (cases "rs_node x") (auto simp: v_def set_user_data_def well_typed_def intro: bound_data_upd(2))
    then show ?thesis by (simp add: t drop_resource_def bound_data_upd(1))
  qed
  have same: "wm_win t = wm_win u" "wm_windows t = wm_windows u" "wm_out t = wm_out u" "wm_outputs t = wm_outputs u"
    "wm_shell t = (wm_shell s)(a := None)" "wm_bind t = wm_bind u" "wm_key_bindings t = wm_key_bindings u" "wm_swc t = wm_swc u"
    "wm_queue t = wm_queue u" "wm_manager t = wm_manager u" "wm_seat t = wm_seat u" "wm_layer_seat t = wm_layer_seat u"
    "wm_xkb_seat t = wm_xkb_seat u"
    using tu(3) by (cases "rs_node x", simp_all add: t v_def set_user_data_def drop_resource_def)+
  show ?thesis
    using tu(1) shell_free[OF h x k(1)] alloc unfolding well_typed_def same P bd by (auto simp: P(3) tu(2) bd intro: kn)
qed

lemma typed_get_shell:
  assumes "well_typed s" "manager_get_shell_surface r mem f s = Inr t"
  shows "well_typed t"
proof (cases "ws_mem s")
  case False
  with assms show ?thesis by (auto simp: manager_get_shell_surface_def typed_intros)
next
  case True
  define s1 where "s1 = s\<lparr>wm_next_addr := wm_next_addr s + 1\<rparr>"
  obtain view s2 where c: "swc_shell_surface_create (ws_renderer s1 (the mem)) mem f s1 = (view, s2)" by force
  have "drives False s1 s2" using drives_create[OF drives_refl, where s = s1] c by (metis snd_conv)
  moreover have "well_typed s1" by (rule typed_same[OF assms(1)]) (simp_all add: s1_def)
  ultimately have s2: "well_typed s2" and e: "wm_shell s2 = wm_shell s" "wm_win s2 = wm_win s" "wm_next_addr s2 = wm_next_addr s + 1"
    using river_same[OF drivesD(1), of False s1 s2] by (auto intro: typed_drives simp: s1_def)
  note c' = c[unfolded s1_def, simplified]
  show ?thesis
  proof (cases view)
    case None
    with assms(2) True c' s2 show ?thesis by (auto simp: manager_get_shell_surface_def Let_def typed_intros)
  next
    case (Some v)
    let ?a = "wm_next_addr s"
    obtain o' s3 where new: "new_resource KShellSurface (Some ?a) (version_of r s2) s2 = (o', s3)" by force
    show ?thesis
    proof (cases o')
      case None
      then have "s3 = s2" using new_resource_cases[OF new] by auto
      with None Some assms(2) True c' new obtain u where
        u: "swc_shell_surface_destroy (ws_renderer s2 v) (Some v) s2 = Some u" "t = send r NoMemory u"
        by (auto simp: manager_get_shell_surface_def Let_def andThen_Inr)
      have "well_typed u" using u(1) typed_drives[OF s2 drives_destroy[OF _ drives_refl]] by (auto simp: swc_shell_surface_destroy_def)
      then show ?thesis unfolding u(2) by (rule typed_intros)
    next
      case (Some n)
      with new_resource_cases[OF new] have n: "n = wm_next s2" "s3 = s2\<lparr>wm_res := (wm_res s2)(wm_next s2 \<mapsto>
          \<lparr>rr_iface = KShellSurface, rr_data = Some ?a, rr_version = version_of r s2\<rparr>), wm_next := Suc (wm_next s2)\<rparr>" by auto
      define s4 where "s4 = s3\<lparr>wm_shell := (wm_shell s3)(?a \<mapsto> \<lparr>rs_resource = n, rs_node = None, rs_swc = v\<rparr>)\<rparr>"
      have fresh: "wm_shell s2 ?a = None" "wm_win s2 ?a = None" using typed_fresh_addr[OF assms(1) order_refl] e by auto
      have "allocated s3" unfolding n(2) by (rule allocated_new[OF typed_allocated[OF s2]])
      then have "allocated s4" using e fresh n(2) by (auto simp: allocated_def s4_def)
      then have "well_typed s4"
        using s2 shell_new[OF typed_shells[OF s2] fresh(1) typed_no_points[OF s2], of v] typed_fresh[OF s2] n
        by (auto simp: well_typed_def s4_def points_new_same points_other_new intro!: known_upd(3) bound_data_upd(3))
      moreover have "swc_shell_surface_show (Some v) (swc_shell_surface_set_stack_layer (Some v) 3 s4) = Some t"
        using assms(2) True c' \<open>view = Some v\<close> new Some unfolding s4_def
        by (simp add: manager_get_shell_surface_def Let_def)
      ultimately show ?thesis
        using typed_drives[OF typed_drives[OF _ drives_comp_ops(12)[OF drives_refl]] drives_show[OF _ drives_refl]]
        by (auto simp: swc_shell_surface_show_def swc_shell_surface_set_stack_layer_def)
    qed
  qed
qed

subsection \<open>Bindings\<close>

lemma typed_bindings:
  assumes "well_typed s"
  shows "binding_typed (points (wm_res s) KXkbBinding) (points (wm_res s) KPointerBinding) (wm_bind s) (wm_key_bindings s)"
    "registrations (wm_bind s) (button_bindings (wm_swc s))" "queued (wm_win s) (wm_bind s) (wm_queue s)"
  using assms by (simp_all add: well_typed_def)

text \<open>The user data of a binding's object is its binding.\<close>

lemma bind_data_cases:
  assumes "well_typed s" "is_binding s r"
  shows "\<exists>b x. bind_data r s = Inr (Some b) \<and> wm_bind s b = Some x \<and> rb_resource x = r \<and> rb_modifiers x \<noteq> MOD_ANY \<and>
    (points (wm_res s) KXkbBinding r b \<and> rb_type x = BINDING_KEY \<or> points (wm_res s) KPointerBinding r b \<and> rb_type x = BINDING_BUTTON)"
proof -
  obtain k b where p: "points (wm_res s) k r b" "k = KXkbBinding \<or> k = KPointerBinding"
    using assms by (auto simp: is_binding_def well_typed_def bound_data_def)
  have "wm_bind s b \<noteq> None" using binding_there[OF typed_bindings(1)[OF assms(1)], of r b] p by auto
  then obtain x where x: "wm_bind s b = Some x" by auto
  have "binding_good (points (wm_res s) KXkbBinding) (points (wm_res s) KPointerBinding) b x"
    by (rule binding_knows[OF typed_bindings(1)[OF assms(1)] x])
  moreover have "bind_data r s = Inr (Some b)" using p x by (auto simp: points_def user_data_def split: option.splits)
  ultimately show ?thesis using x p by (auto simp: binding_good_def)
qed

lemma typed_binding_reg:
  assumes "well_typed s" "wm_bind s b = Some x"
    and "registrations ((wm_bind s)(b \<mapsto> x\<lparr>rb_registered := v\<rparr>)) (button_bindings bs)"
  shows "well_typed (updrb b (\<lambda>x. x\<lparr>rb_registered := v\<rparr>) (s\<lparr>wm_swc := bs\<rparr>))"
proof -
  have "allocated (s\<lparr>wm_swc := bs\<rparr>)" by (rule allocated_same[OF typed_allocated[OF assms(1)]]) simp_all
  then have "allocated (updrb b (\<lambda>x. x\<lparr>rb_registered := v\<rparr>) (s\<lparr>wm_swc := bs\<rparr>))" by (rule allocated_heaps)
  with assms binding_keep[OF typed_bindings(1)[OF assms(1)], of "\<lambda>x. x\<lparr>rb_registered := v\<rparr>" b] queued_upd(4)[OF typed_bindings(3)[OF assms(1)], of b]
  show ?thesis by (simp add: well_typed_def updrb_def)
qed

lemma typed_register:
  assumes "well_typed s" "wm_bind s b = Some x" "rb_type x = BINDING_KEY \<or> rb_type x = BINDING_BUTTON"
    and "\<forall>d \<in> set (ba_elems (button_bindings (wm_swc s))). bi_value d \<noteq> rb_keysym x \<or> bi_modifiers d \<noteq> rb_modifiers x"
  shows "well_typed (binding_register moved b s)"
proof (cases "rb_type x = BINDING_KEY \<or> rb_registered x")
  case True
  with assms show ?thesis
    by (auto simp: binding_register_def rbind_def ensure_keyboard_observer_def intro!: typed_intros)
next
  case False
  with assms(3) have t: "rb_type x = BINDING_BUTTON" by auto
  show ?thesis
  proof (cases "ws_mem s")
    case True
    have "registrations ((wm_bind s)(b \<mapsto> x\<lparr>rb_registered := True\<rparr>))
        (ba_add moved (button_bindings (wm_swc s)) \<lparr>bi_value = rb_keysym x, bi_modifiers = rb_modifiers x, bi_handler = 0, bi_data = b\<rparr>)"
      by (rule registrations_add[OF typed_bindings(2)[OF assms(1)] assms(2) t assms(4)])
    then show ?thesis
      using typed_binding_reg[OF assms(1,2), of True] False t True assms(2)
      by (simp add: binding_register_def rbind_def swc_add_binding_def Let_def)
  next
    case mem: False
    have "x\<lparr>rb_registered := False\<rparr> = x" using False by simp
    moreover have "(wm_bind s)(b \<mapsto> x) = wm_bind s" using assms(2) by (simp add: fun_upd_idem)
    ultimately have "registrations ((wm_bind s)(b \<mapsto> x\<lparr>rb_registered := False\<rparr>)) (button_bindings (wm_swc s))"
      using typed_bindings(2)[OF assms(1)] by simp
    then show ?thesis
      using typed_binding_reg[OF assms(1,2), of False "wm_swc s"] False t mem assms(2)
      by (simp add: binding_register_def rbind_def swc_add_binding_def Let_def ENOMEM_def)
  qed
qed

lemma typed_unregister:
  assumes "well_typed s" "wm_bind s b = Some x"
  shows "well_typed (binding_unregister b s)" "\<exists>y. wm_bind (binding_unregister b s) b = Some y \<and> rb_type y = rb_type x \<and>
      rb_resource y = rb_resource x \<and> (rb_type y = BINDING_BUTTON \<longrightarrow> \<not> rb_registered y)"
    "wm_res (binding_unregister b s) = wm_res s"
proof -
  note B = typed_bindings[OF assms(1)]
  have mods: "wm_bind s c = Some y \<Longrightarrow> rb_modifiers y \<noteq> MOD_ANY \<and> (rb_type y = BINDING_KEY \<or> rb_type y = BINDING_BUTTON)" for c y
    using binding_knows[OF B(1), of c y] by (simp add: binding_good_def)
  show "well_typed (binding_unregister b s)"
  proof (cases "rb_type x = BINDING_KEY \<or> \<not> rb_registered x")
    case True
    with assms show ?thesis by (auto simp: binding_unregister_def rbind_def intro!: typed_intros)
  next
    case False
    then have t: "rb_type x = BINDING_BUTTON" using mods[OF assms(2)] by auto
    have "registrations ((wm_bind s)(b \<mapsto> x\<lparr>rb_registered := False\<rparr>)) (ba_remove (button_bindings (wm_swc s)) (rb_modifiers x) (rb_keysym x))"
      by (rule registrations_remove[OF B(2) assms(2)]) (use mods in blast)
    then show ?thesis using typed_binding_reg[OF assms, of False] False t assms(2)
      by (simp add: binding_unregister_def rbind_def swc_remove_binding_def Let_def)
  qed
  show "\<exists>y. wm_bind (binding_unregister b s) b = Some y \<and> rb_type y = rb_type x \<and>
      rb_resource y = rb_resource x \<and> (rb_type y = BINDING_BUTTON \<longrightarrow> \<not> rb_registered y)"
    using assms(2) by (auto simp: binding_unregister_def rbind_def updrb_def Let_def)
  show "wm_res (binding_unregister b s) = wm_res s" by (auto simp: binding_unregister_def updrb_def Let_def)
qed

lemma typed_binding_gone:
  assumes "well_typed s" "is_binding s r"
  shows "\<exists>t. binding_resource_destroy r s = Inr t \<and> well_typed t"
proof -
  obtain b x where d: "bind_data r s = Inr (Some b)" and x: "wm_bind s b = Some x" "rb_resource x = r"
    using bind_data_cases[OF assms] by blast
  define u where "u = binding_unregister b s"
  obtain y where u: "well_typed u" "wm_bind u b = Some y" "rb_resource y = r" "rb_type y = BINDING_BUTTON \<longrightarrow> \<not> rb_registered y" "wm_res u = wm_res s"
    using typed_unregister[OF assms(1) x(1)] x(2) by (auto simp: u_def)
  note B = typed_bindings[OF u(1)]
  have good: "binding_good (points (wm_res u) KXkbBinding) (points (wm_res u) KPointerBinding) b y" by (rule binding_knows[OF B(1) u(2)])
  let ?w = "drop_binding_events b u"
  define v where "v = (if rb_type y = BINDING_KEY then ?w\<lparr>wm_key_bindings := remove1 b (wm_key_bindings ?w)\<rparr> else ?w)"
  define t where "t = drop_resource r (v\<lparr>wm_bind := (wm_bind v)(b := None)\<rparr>)"
  have "is_a (wm_res u) KXkbBinding r \<or> is_a (wm_res u) KPointerBinding r" using assms(2) u(5) by (simp add: is_binding_def)
  then obtain j where j: "is_a (wm_res u) j r" "j = KXkbBinding \<or> j = KPointerBinding" by blast
  have other: "points ((wm_res u)(r := None)) k = points (wm_res u) k" if "k \<noteq> KXkbBinding" "k \<noteq> KPointerBinding" for k
    by (rule points_other(1)[OF j(1)]) (use that j(2) in auto)
  have kn: "known (wm_res u) k o' \<Longrightarrow> k \<noteq> KXkbBinding \<Longrightarrow> k \<noteq> KPointerBinding \<Longrightarrow> known ((wm_res u)(r := None)) k o'" for k o'
    using known_other[OF _ j(1), of k o'] j(2) by auto
  have fields: "wm_key_bindings v = (if rb_type y = BINDING_KEY then remove1 b (wm_key_bindings u) else wm_key_bindings u)"
    "wm_bind v = wm_bind u" "wm_res v = wm_res u" "wm_swc v = wm_swc u" "wm_win v = wm_win u" "wm_windows v = wm_windows u"
    "wm_out v = wm_out u" "wm_outputs v = wm_outputs u" "wm_shell v = wm_shell u" "wm_manager v = wm_manager u" "wm_seat v = wm_seat u"
    "wm_layer_seat v = wm_layer_seat u" "wm_xkb_seat v = wm_xkb_seat u" "wm_next v = wm_next u" "wm_next_addr v = wm_next_addr u"
    "wm_queue v = filter (\<lambda>e. event_binding e \<noteq> Some b) (wm_queue u)"
    by (simp_all add: v_def drop_binding_events_def)
  have ks: "\<forall>c \<in> set (wm_key_bindings v). c \<noteq> b \<and> c \<in> set (wm_key_bindings u)" "distinct (wm_key_bindings v)"
    using B(1) u(2) by (auto simp: fields(1) binding_typed_def)
  have K: "binding_typed (points (wm_res t) KXkbBinding) (points (wm_res t) KPointerBinding) (wm_bind t) (wm_key_bindings t)"
  proof -
    have h: "typed_heap (\<lambda>r c. points (wm_res u) KXkbBinding r c \<or> points (wm_res u) KPointerBinding r c)
        (binding_good (points (wm_res u) KXkbBinding) (points (wm_res u) KPointerBinding)) (wm_bind u)"
      using B(1) by (simp add: binding_typed_def)
    obtain k' where "points (wm_res u) k' r b" using good u(3) by (auto simp: binding_good_def)
    then have same: "c \<noteq> b \<Longrightarrow> (q \<noteq> r \<and> points (wm_res u) k q c) = points (wm_res u) k q c" for q c k
      by (auto simp: points_def split: option.splits)
    have "typed_heap (\<lambda>q c. (q \<noteq> r \<and> points (wm_res u) KXkbBinding q c) \<or> q \<noteq> r \<and> points (wm_res u) KPointerBinding q c)
        (binding_good (\<lambda>q c. q \<noteq> r \<and> points (wm_res u) KXkbBinding q c) (\<lambda>q c. q \<noteq> r \<and> points (wm_res u) KPointerBinding q c))
        ((wm_bind u)(b := None))"
    proof (rule heap_free[OF h])
      show "\<not> (q \<noteq> r \<and> points (wm_res u) KXkbBinding q b \<or> q \<noteq> r \<and> points (wm_res u) KPointerBinding q b)" for q
        using good u(3) by (auto simp: binding_good_def)
      show "binding_good (\<lambda>q c. q \<noteq> r \<and> points (wm_res u) KXkbBinding q c) (\<lambda>q c. q \<noteq> r \<and> points (wm_res u) KPointerBinding q c) c z"
        if "c \<noteq> b" "binding_good (points (wm_res u) KXkbBinding) (points (wm_res u) KPointerBinding) c z" for c z
        using that(2) unfolding binding_good_def same[OF that(1)] .
    qed blast
    moreover have "\<forall>c \<in> set (wm_key_bindings v). \<exists>z. ((wm_bind u)(b := None)) c = Some z \<and> rb_type z = BINDING_KEY"
      using ks(1) B(1) by (auto simp: binding_typed_def)
    ultimately show ?thesis
      using ks(2) by (simp add: binding_typed_def t_def drop_resource_def fields(2,3) points_drop)
  qed
  have R: "registrations (wm_bind t) (button_bindings (wm_swc t))"
  proof -
    have "rb_type y \<noteq> BINDING_BUTTON \<or> \<not> rb_registered y" using u(4) by blast
    from registrations_key(1)[OF B(2) u(2) this] show ?thesis by (simp add: t_def drop_resource_def fields)
  qed
  have "allocated (v\<lparr>wm_bind := (wm_bind v)(b := None)\<rparr>)"
    by (rule allocated_same[OF typed_allocated[OF u(1)]]) (auto simp: fields)
  then have A: "allocated t" unfolding t_def by (rule allocated_heaps)
  have "well_typed t"
    unfolding well_typed_def
  proof (intro conjI K R A)
    show "queued (wm_win t) (wm_bind t) (wm_queue t)"
      using queued_upd(6)[OF B(3)] by (simp add: t_def drop_resource_def fields)
    show "bound_data (wm_res t)" using u(1) by (simp add: t_def drop_resource_def fields well_typed_def bound_data_upd(1))
  qed (use u(1) in \<open>simp_all add: well_typed_def t_def drop_resource_def fields other kn\<close>)
  moreover have "binding_resource_destroy r s = Inr t"
  proof -
    have "rb_type (rbind (drop_binding_events b (binding_unregister b s)) b) = rb_type y"
      using u(2) by (simp add: u_def drop_binding_events_def rbind_def)
    then show ?thesis unfolding binding_resource_destroy_def t_def v_def u_def using d by (simp add: Let_def)
  qed
  ultimately show ?thesis by blast
qed

lemma typed_new_binding:
  assumes "well_typed s" "new_binding k ty v key m s = (bo, t)" "k = KXkbBinding \<and> ty = BINDING_KEY \<or> k = KPointerBinding \<and> ty = BINDING_BUTTON"
  shows "well_typed t" "bo = Some b \<Longrightarrow> k = KXkbBinding \<Longrightarrow> well_typed (t\<lparr>wm_key_bindings := wm_key_bindings t @ [b]\<rparr>)"
proof -
  obtain o' u where new: "new_resource k (Some (wm_next_addr s)) v s = (o', u)" by force
  show "well_typed t" "bo = Some b \<Longrightarrow> k = KXkbBinding \<Longrightarrow> well_typed (t\<lparr>wm_key_bindings := wm_key_bindings t @ [b]\<rparr>)"
  proof (atomize (full), cases o')
    case None
    then have "t = s" "bo = None" using new_resource_cases[OF new] assms(2) new by (auto simp: new_binding_def Let_def)
    with assms(1) show "well_typed t \<and> (bo = Some b \<longrightarrow> k = KXkbBinding \<longrightarrow> well_typed (t\<lparr>wm_key_bindings := wm_key_bindings t @ [b]\<rparr>))" by simp
  next
    case (Some r)
    let ?b = "wm_next_addr s"
    define x where "x = \<lparr>rb_resource = r, rb_type = ty, rb_keysym = key, rb_modifiers = modifiers_to_swc m,
                rb_registered = False, rb_enabled = False, rb_layout = None, rb_held = None\<rparr>"
    from Some new_resource_cases[OF new] have n: "r = wm_next s" "u = s\<lparr>wm_res := (wm_res s)(wm_next s \<mapsto>
        \<lparr>rr_iface = k, rr_data = Some ?b, rr_version = v\<rparr>), wm_next := Suc (wm_next s)\<rparr>" by auto
    have t: "bo = Some ?b" "t = u\<lparr>wm_next_addr := ?b + 1, wm_bind := (wm_bind u)(?b \<mapsto> x)\<rparr>"
      using assms(2) new Some n by (auto simp: new_binding_def x_def Let_def)
    note B = typed_bindings[OF assms(1)]
    note fresh = typed_fresh_addr(4)[OF assms(1) order_refl]
    have "allocated u" unfolding n(2) by (rule allocated_new[OF typed_allocated[OF assms(1)]])
    then have A: "allocated t" "allocated (t\<lparr>wm_key_bindings := ks\<rparr>)" for ks using n(2) by (auto simp: t(2) allocated_def)
    have x: "rb_resource x = wm_next s" "rb_modifiers x \<noteq> MOD_ANY" "rb_type x = ty" using n(1) by (simp_all add: x_def modifiers_to_swc_any)
    note new_b = binding_new[OF B(1) fresh typed_no_points[OF assms(1)] typed_no_points[OF assms(1)] x(1,2)]
    have "well_typed t"
      using assms(1) assms(3) A(1) new_b(1,3) x(3) registrations_new[OF B(2) fresh] queued_upd(4)[OF B(3)] typed_fresh[OF assms(1)] n(2)
      by (auto simp: well_typed_def t(2) points_new_same points_other_new intro!: known_upd(3) bound_data_upd(3))
    moreover have "well_typed (t\<lparr>wm_key_bindings := wm_key_bindings t @ [?b]\<rparr>)" if "k = KXkbBinding"
      using that assms(1) assms(3) A(2) new_b(2) x(3) registrations_new[OF B(2) fresh] queued_upd(4)[OF B(3)] typed_fresh[OF assms(1)] n(2)
      by (auto simp: well_typed_def t(2) points_new_same points_other_new intro!: known_upd(3) bound_data_upd(3))
    ultimately show "well_typed t \<and> (bo = Some b \<longrightarrow> k = KXkbBinding \<longrightarrow> well_typed (t\<lparr>wm_key_bindings := wm_key_bindings t @ [b]\<rparr>))"
      using t(1) by auto
  qed
qed

subsection \<open>Input\<close>

lemma typed_keys: "well_typed s \<Longrightarrow> b \<in> set (wm_key_bindings s) \<Longrightarrow> wm_bind s b \<noteq> None"
  using typed_bindings(1)[of s] by (auto simp: binding_typed_def)

lemma updrb_keys [simp]:
  "wm_bind (updrb b f s) c = None \<longleftrightarrow> wm_bind s c = None" "(\<exists>y. wm_bind (updrb b f s) c = Some y) \<longleftrightarrow> (\<exists>y. wm_bind s c = Some y)"
  "wm_key_bindings (updrb b f s) = wm_key_bindings s"
  by (auto simp: updrb_def)

lemma queue_event_keys [simp]: "wm_key_bindings (queue_event e s) = wm_key_bindings s" "wm_bind (queue_event e s) = wm_bind s"
  by (auto simp: queue_event_def schedule_sequence_def Let_def)

lemma typed_observe_key:
  assumes "well_typed s"
  shows "well_typed (snd (binding_observe_key k released s))"
proof (cases released)
  case True
  have "List.find P (wm_key_bindings s) = Some b \<Longrightarrow> wm_bind s b \<noteq> None" for P b
    using typed_keys[OF assms] by (auto simp: find_Some_iff)
  with True assms show ?thesis
    by (auto simp: binding_observe_key_def intro!: typed_queue typed_intros split: option.split)
next
  case False
  define match where "match = List.find (\<lambda>b. binding_matches (rbind s b) k (en_modifiers (wm_env s) AND NOT (en_consumed (wm_env s) k)) (wm_env s)) (wm_key_bindings s)"
  let ?f = "\<lambda>b s. if rb_held (rbind s b) \<noteq> None \<and> Some b \<noteq> match then queue_event (BStopRepeat b) s else s"
  have f: "well_typed t \<Longrightarrow> set bs \<subseteq> set (wm_key_bindings t) \<Longrightarrow>
      well_typed (fold ?f bs t) \<and> wm_key_bindings (fold ?f bs t) = wm_key_bindings t" for bs t
  proof (induction bs arbitrary: t)
    case (Cons b bs)
    have "well_typed (?f b t)" using Cons.prems typed_keys[OF Cons.prems(1), of b] by (auto intro: typed_queue)
    moreover have "wm_key_bindings (?f b t) = wm_key_bindings t" by simp
    ultimately show ?case using Cons.IH[of "?f b t"] Cons.prems(2) by simp
  qed simp
  define t where "t = fold ?f (wm_key_bindings s) s"
  have t: "well_typed t" "wm_key_bindings t = wm_key_bindings s" using f[OF assms] by (simp_all add: t_def)
  have "match = Some b \<Longrightarrow> wm_bind t b \<noteq> None" for b
    using typed_keys[OF t(1)] t(2) by (auto simp: match_def find_Some_iff)
  moreover have "binding_observe_key k released s =
      (case match of
         Some b \<Rightarrow> (True, (queue_event (BPressed b) (updrb b (\<lambda>x. x\<lparr>rb_held := Some k\<rparr>) t))\<lparr>wm_eat_next_key := False\<rparr>)
       | None \<Rightarrow> if wm_eat_next_key t then (True, queue_event BAteUnbound (t\<lparr>wm_eat_next_key := False\<rparr>)) else (False, t))"
    using False by (simp add: binding_observe_key_def Let_def match_def t_def cong: option.case_cong)
  ultimately show ?thesis using t(1) by (auto intro!: typed_intros typed_queue split: option.split)
qed

lemma typed_observe_button:
  assumes "well_typed s"
  shows "well_typed (seat_observe_button pressed swc s)"
proof -
  have "wm_win s a \<noteq> None" if "List.find P (wm_windows s) = Some a" for P a
    using typed_listed[OF assms, of a] that by (auto simp: find_Some_iff)
  with assms show ?thesis
    by (auto simp: seat_observe_button_def queue_window_interaction_def intro!: typed_queue split: option.split)
qed

subsection \<open>A sequence begins\<close>

lemma typed_flush_event:
  assumes "queued (wm_win s) (wm_bind s) (wm_queue s)" "e \<in> set (wm_queue s)"
  shows "\<exists>t. flush_event e s = Inr t \<and> (t = s \<or> (\<exists>r x. t = send r x s))"
  using assms by (cases e) (fastforce simp: flush_event_def queued_def split: option.split)+

lemma typed_flush:
  "well_typed s \<Longrightarrow> wm_queue s = es \<Longrightarrow> \<exists>t. flush_binding_events es s = Inr t \<and> well_typed t"
proof (induction es arbitrary: s)
  case (Cons e es)
  obtain t where t: "flush_event e s = Inr t" "t = s \<or> (\<exists>r x. t = send r x s)"
    using typed_flush_event[OF typed_windows(3)[OF Cons.prems(1)], of e] Cons.prems(2) by auto
  have "well_typed t" using t(2) Cons.prems(1) by (auto intro: typed_intros)
  moreover have "wm_queue t = e # es" using t(2) Cons.prems(2) by auto
  moreover have "well_typed (t\<lparr>wm_queue := tl (wm_queue t)\<rparr>)"
    using \<open>well_typed t\<close> queued_tl[OF typed_windows(3)[OF \<open>well_typed t\<close>]] by (simp add: well_typed_def allocated_def)
  ultimately show ?case using t(1) Cons.IH[of "t\<lparr>wm_queue := tl (wm_queue t)\<rparr>"] by simp
qed simp

lemma advertise_lists [simp]:
  "wm_outputs (advertise_output a s) = wm_outputs s" "wm_windows (advertise_output a s) = wm_windows s"
  "wm_windows (advertise_window a s) = wm_windows s" "wm_windows (advertise_seat s) = wm_windows s"
  by (auto simp: advertise_output_def advertise_window_def advertise_seat_def send_output_geometry_def updro_def updrw_def
      send_def new_resource_def ensure_pointer_observer_def Let_def split: option.split)

lemma typed_pointer_position [typed_intros]: "well_typed s \<Longrightarrow> well_typed (send_pointer_position s)"
  by (auto simp: send_pointer_position_def Let_def intro!: typed_intros split: option.split prod.split)

lemma typed_begin_manage:
  assumes "well_typed s"
  shows "\<exists>t. begin_manage s = Inr t \<and> well_typed t"
proof (cases "wm_manager s = None \<or> wm_phase s \<noteq> PHASE_IDLE")
  case True
  with assms show ?thesis by (auto simp: begin_manage_def split: option.split)
next
  case False
  then obtain m where m: "wm_manager s = Some m" "wm_phase s = PHASE_IDLE" by auto
  have o: "well_typed t \<Longrightarrow> set os \<subseteq> set (wm_outputs t) \<Longrightarrow> well_typed (fold advertise_output os t)" for os t
  proof (induction os arbitrary: t)
    case (Cons a os)
    have "wm_out t a \<noteq> None" using typed_outputs[OF Cons.prems(1)] Cons.prems(2) by (auto simp: output_typed_def)
    then have "well_typed (advertise_output a t)" by (rule typed_advertise_output[OF Cons.prems(1)])
    with Cons.IH[of "advertise_output a t"] Cons.prems(2) show ?case by simp
  qed simp
  let ?w = "\<lambda>a s. updrw a (\<lambda>x. x\<lparr>rw_has_proposal := False\<rparr>) (advertise_window a s)"
  have w: "well_typed t \<Longrightarrow> set ws \<subseteq> set (wm_windows t) \<Longrightarrow> well_typed (fold ?w ws t)" for ws t
  proof (induction ws arbitrary: t)
    case (Cons a ws)
    obtain x where x: "wm_win t a = Some x" "rw_swc x \<noteq> None" using typed_listed[OF Cons.prems(1), of a] Cons.prems(2) by auto
    then have "well_typed (?w a t)" using typed_advertise_window[OF Cons.prems(1)] by (simp add: typed_intros)
    moreover have "wm_windows (?w a t) = wm_windows t" by (simp add: updrw_def)
    ultimately show ?case using Cons.IH[of "?w a t"] Cons.prems(2) by simp
  qed simp
  define s1 where "s1 = advertise_seat (fold advertise_output (wm_outputs s) s)"
  define s2 where "s2 = send_pointer_position (fold ?w (wm_windows s1) s1)"
  have "well_typed s2" unfolding s2_def s1_def by (intro typed_intros w o assms) simp_all
  from typed_flush[OF this refl] obtain t where t: "flush_binding_events (wm_queue s2) s2 = Inr t" "well_typed t" by blast
  then have "begin_manage s = Inr (send m ManageStart (t\<lparr>wm_dirty := False, wm_phase := PHASE_MANAGE\<rparr>))"
    using m by (simp add: begin_manage_def Let_def s2_def s1_def)
  with t(2) show ?thesis by (simp add: typed_intros)
qed

subsection \<open>Every operation\<close>

lemma typed_on_window:
  assumes "well_typed s" "is_a (wm_res s) k r" "k = KWindow \<or> k = KNode" "\<And>a x u. wm_win s a = Some x \<Longrightarrow> f a s = Inr u \<Longrightarrow> well_typed u"
  shows "on_window r f s = Inr u \<Longrightarrow> well_typed u"
    "(\<And>a x. wm_win s a = Some x \<Longrightarrow> f a s \<noteq> Inl UseAfterFree) \<Longrightarrow> on_window r f s \<noteq> Inl UseAfterFree"
  using win_data_cases[OF assms(1-3)] assms(1,4) by (auto simp: on_window_def split: if_splits)

lemma typed_seq:
  assumes "run_seq op s = Inr u" "well_typed s" "proper_seq op s"
  shows "well_typed u"
proof (cases op)
  case (Bind v)
  then show ?thesis using assms
    by (auto simp: bind_manager_def Let_def intro!: typed_intros typed_known(5) split: option.splits prod.splits if_splits dest: typed_new)
next
  case (Manage_finish r)
  show ?thesis
  proof (cases "wm_phase s = PHASE_MANAGE")
    case False
    with assms Manage_finish show ?thesis by (auto simp: manager_manage_finish_def typed_intros)
  next
    case True
    define mem where "mem = (if ws_mem s then Some (wm_next_addr s) else None)"
    define s1 where "s1 = s\<lparr>wm_phase := PHASE_SETTLE, wm_next_addr := wm_next_addr s + 1\<rparr>"
    define s2 where "s2 = snd (swc_transaction_begin mem s1)"
    define s3 where "s3 = fold apply_proposal (wm_windows s2) s2"
    have "well_typed s1" by (rule typed_same[OF assms(2)]) (simp_all add: s1_def)
    then have "well_typed s2" unfolding s2_def by (rule typed_drives[OF _ drives_cohort_ops(1)[OF drives_refl]])
    then have s3: "well_typed s3" unfolding s3_def
      by (rule typed_fold) (auto simp: apply_proposal_def Let_def intro!: typed_with_done drives_set_geometry split: option.split)
    define c where "c = swc_transaction_commit 100 (Some 0) s3"
    have c: "wstate.more c = wstate.more s3" and cases: "with_done (swc_transaction_commit 100 (Some 0)) s3 = c \<or>
        (\<exists>b. with_done (swc_transaction_commit 100 (Some 0)) s3 = begin_render b c)"
      using commit_cases[where t = s3 and ms = 100 and cb = 0] by (auto simp: c_def)
    have "well_typed c" by (rule typed_same[OF s3]; simp add: river_same[OF c])
    then have "well_typed (with_done (swc_transaction_commit 100 (Some 0)) s3)" using cases typed_begin_render by auto
    moreover have "manager_manage_finish r s = with_done (swc_transaction_commit 100 (Some 0)) s3"
      by (simp only: manager_manage_finish_def True Let_def mem_def s1_def s2_def s3_def not_True_eq_False if_False refl) simp
    ultimately show ?thesis using assms(1) Manage_finish by simp
  qed
next
  case (Render_finish r)
  have "well_typed (swc_transaction_present s)" by (rule typed_drives[OF assms(2) drives_cohort_ops(2)[OF drives_refl]])
  then show ?thesis using assms Render_finish by (auto simp: manager_render_finish_def Let_def typed_intros split: if_splits)
next
  case Idle
  from typed_begin_manage[of "s\<lparr>wm_idle := False\<rparr>"] assms Idle show ?thesis by (auto simp: handle_idle_def typed_intros)
next
  case (Ack w)
  then show ?thesis using assms typed_with_done[OF assms(2), of "window_ack_configure w", OF drives_cohort_ops(4)[OF drives_refl]] by simp
next
  case Timeout
  then show ?thesis using assms typed_with_done[OF assms(2), of transaction_timeout, OF drives_cohort_ops(3)[OF drives_refl]] by simp
next
  case (Commit r f)
  then show ?thesis using assms typed_drives[OF assms(2) drives_window_commit[OF drives_refl]] by auto
qed (use assms typed_manager_gone in \<open>auto simp: manager_manage_dirty_def manager_stop_def manager_exit_session_def intro: typed_intros\<close>)

lemma typed_shell:
  assumes "run_shell op s = Inr u" "well_typed s" "proper_shell op s"
  shows "well_typed u"
proof (cases op)
  case (Shell_position r x y)
  then show ?thesis using assms typed_on_shell[OF assms(2), of r "\<lambda>v. swc_shell_surface_set_position (Some v) x y"]
    by (auto simp: shell_node_set_position_def swc_shell_surface_set_position_def drive_intros)
next
  case (Shell_top r)
  then show ?thesis using assms typed_on_shell[OF assms(2), of r "\<lambda>v. swc_shell_surface_raise (Some v)"]
    by (auto simp: shell_node_place_top_def swc_shell_surface_raise_def intro!: drives_requests[OF drives_refl] request_intros)
next
  case (Shell_bottom r)
  then show ?thesis using assms typed_on_shell[OF assms(2), of r "\<lambda>v. swc_shell_surface_lower (Some v)"]
    by (auto simp: shell_node_place_bottom_def swc_shell_surface_lower_def intro!: drives_requests[OF drives_refl] request_intros)
qed (use assms typed_get_shell typed_shell_get_node typed_shell_node_gone typed_shell_gone in fastforce)+

lemma typed_node:
  assumes "run_node op s = Inr u" "well_typed s" "proper_node op s"
  shows "well_typed u"
proof (cases op)
  case (Node_position r x y)
  then show ?thesis
    using assms typed_on_window(1)[OF assms(2), of KNode r "\<lambda>a s. Inr (with_done (swc_window_set_position (rw_swc (rwin s a)) x y) s)" u]
    by (auto simp: node_set_position_def intro!: typed_with_done drive_intros)
next
  case (Node_top r)
  then show ?thesis
    using assms typed_on_window(1)[OF assms(2), of KNode r "\<lambda>a s. Inr (swc_window_raise (view_of s a) s)" u]
    by (auto simp: node_place_top_def intro!: typed_drives[OF assms(2) drives_comp_ops(9)[OF drives_refl]])
next
  case (Node_bottom r)
  then show ?thesis
    using assms typed_on_window(1)[OF assms(2), of KNode r "\<lambda>a s. Inr (swc_window_lower (view_of s a) s)" u]
    by (auto simp: node_place_bottom_def intro!: typed_drives[OF assms(2) drives_comp_ops(10)[OF drives_refl]])
next
  case (Node_relative r sib abv)
  then have "u = s \<or> (\<exists>a b. u = swc_window_restack (view_of s a) (view_of s b) abv s)" using assms(1)
    by (auto simp: node_place_relative_def andThen_Inr split: option.split) blast
  then show ?thesis using assms(2) typed_drives[OF assms(2) drives_window_ops(6)[OF drives_refl]] by auto
qed (use assms typed_node_gone typed_get_node in fastforce)+

lemma typed_output:
  assumes "run_output op s = Inr u" "well_typed s" "proper_output op s"
  shows "well_typed u"
proof -
  have drop: "well_typed (drop_resource r t)"
    if "well_typed t" "is_a (wm_res t) k r" "k = KSeat \<and> wm_seat t \<noteq> Some r \<or> k = KLayerSeat \<and> wm_layer_seat t \<noteq> Some r"
    for t :: "'a rstate_scheme" and k r
    using that(1) known_upd(1)[of "wm_res t" k _ r] that(3) allocated_heaps(5)[OF typed_allocated[OF that(1)], of r]
    by (auto simp: well_typed_def drop_resource_def points_other[OF that(2)]
        intro: known_other[OF _ that(2)] bound_data_upd(1))
  show ?thesis
  proof (cases op)
    case (Focus r)
    show ?thesis
    proof (cases r)
      case None
      then show ?thesis using Focus assms typed_drives[OF assms(2) drives_focus[OF drives_refl]] by (auto simp: seat_focus_window_def)
    next
      case (Some q)
      then show ?thesis using Focus assms typed_on_window(1)[OF assms(2), of KWindow q "\<lambda>a s. Inr (swc_window_focus (rw_swc (rwin s a)) s)" u]
        by (auto simp: seat_focus_window_def intro: typed_drives[OF assms(2) drives_focus[OF drives_refl]])
    qed
  next
    case (Layer_get_seat l)
    then show ?thesis using assms
      by (auto simp: layer_shell_get_seat_def intro!: typed_intros typed_known(7) split: if_splits option.splits prod.splits dest: typed_new)
  next
    case (Layer_seat_gone r)
    then show ?thesis using assms drop[of s KLayerSeat r] drop[of "s\<lparr>wm_layer_seat := None\<rparr>" KLayerSeat r] typed_known(3)[OF assms(2)]
      by (auto simp: layer_seat_resource_destroy_def)
  next
    case (Seat_gone r)
    then show ?thesis using assms drop[of s KSeat r] drop[of "s\<lparr>wm_seat := None\<rparr>" KSeat r] typed_known(2)[OF assms(2)]
      by (auto simp: seat_resource_destroy_def)
  next
    case Clear_focus
    then show ?thesis using assms typed_drives[OF assms(2) drives_focus[OF drives_refl]] by (auto simp: seat_clear_focus_def)
  next
    case (Output_gone r)
    then show ?thesis using assms typed_output_gone[OF assms(2), of r] by auto
  next
    case (Layer_get_output l r)
    then show ?thesis using assms typed_layer_get_output[OF assms(2), of r l] by auto
  next
    case (Layer_output_gone r)
    then show ?thesis using assms typed_layer_output_gone[OF assms(2), of r] by auto
  qed
qed

lemma typed_binding_op:
  assumes "run_binding op s = Inr u" "well_typed s" "proper_binding op s"
  shows "well_typed u"
proof (cases op)
  case (Key_binding v k m)
  obtain bo t where new: "new_binding KXkbBinding BINDING_KEY v k m s = (bo, t)" by force
  then show ?thesis using assms Key_binding typed_new_binding[OF assms(2) new]
    by (cases bo) (auto simp: xkb_bindings_get_xkb_binding_def)
next
  case (Pointer_binding v b m)
  obtain bo t where new: "new_binding KPointerBinding BINDING_BUTTON v b m s = (bo, t)" by force
  then show ?thesis using assms Pointer_binding typed_new_binding(1)[OF assms(2) new] by (auto simp: seat_get_pointer_binding_def)
next
  case (Enable moved r)
  obtain b x where "bind_data r s = Inr (Some b)" "wm_bind s b = Some x" "rb_type x = BINDING_KEY \<or> rb_type x = BINDING_BUTTON"
    "points (wm_res s) KXkbBinding r b \<or> points (wm_res s) KPointerBinding r b"
    using bind_data_cases[OF assms(2), of r] assms(3) Enable by fastforce
  then show ?thesis using assms Enable typed_register[OF assms(2), of b x moved]
    by (auto simp: binding_enable_def unclaimed_def points_def rbind_def split: option.splits)
next
  case (Disable r)
  obtain b x where "bind_data r s = Inr (Some b)" "wm_bind s b = Some x"
    using bind_data_cases[OF assms(2), of r] assms(3) Disable by fastforce
  then show ?thesis using assms Disable typed_unregister(1)[OF assms(2)] by (auto simp: binding_disable_def)
next
  case (Layout r l)
  then show ?thesis using assms
    by (auto simp: binding_set_layout_override_def andThen_Inr intro!: typed_intros split: option.split)
next
  case (Get_xkb_seat v)
  then show ?thesis using assms
    by (auto simp: xkb_bindings_get_seat_def intro!: typed_known(8) split: option.splits prod.splits dest: typed_new)
next
  case (Xkb_seat_gone r)
  have drop: "well_typed (drop_resource r t)"
    if "well_typed t" "is_a (wm_res t) KXkbSeat r" "wm_xkb_seat t \<noteq> Some r" for t :: "'a rstate_scheme"
    using that(1) known_upd(1)[of "wm_res t" KXkbSeat _ r] that(3) allocated_heaps(5)[OF typed_allocated[OF that(1)], of r]
    by (auto simp: well_typed_def drop_resource_def points_other[OF that(2)]
        intro: known_other[OF _ that(2)] bound_data_upd(1))
  have "well_typed (s\<lparr>wm_xkb_seat := None, wm_eat_next_key := False, wm_watched := 0\<rparr>)"
    by (intro typed_intros typed_known(4) assms(2))
  then show ?thesis using assms Xkb_seat_gone drop[OF assms(2)] drop[of "s\<lparr>wm_xkb_seat := None, wm_eat_next_key := False, wm_watched := 0\<rparr>"]
    by (auto simp: xkb_seat_resource_destroy_def)
qed (use assms typed_binding_gone in \<open>fastforce simp: xkb_seat_ensure_next_key_eaten_def
    xkb_seat_cancel_ensure_next_key_eaten_def xkb_seat_modifiers_watch_def intro: typed_intros\<close>)+
lemma typed_window_op:
  assumes "run_window op s = Inr u" "well_typed s" "proper_window op s"
  shows "well_typed u"
proof (cases op)
  case (Close r)
  then have "u = s \<or> (\<exists>a. u = swc_window_close (the (rw_swc (rwin s a))) s)"
    using assms(1) on_window_cases[of r _ s u] by (fastforce simp: window_close_def)
  moreover have "drives False s (swc_window_close w s)" for w by (intro drive_intros drives_refl)
  ultimately show ?thesis using assms(2) typed_drives by blast
next
  case (Propose r w h)
  then show ?thesis using assms by (auto simp: window_propose_dimensions_def dest!: on_window_cases intro!: typed_intros)
next
  case (Hide r)
  then show ?thesis using assms by (auto simp: window_hide_def swc_window_hide_def dest!: on_window_cases intro: typed_drives[OF assms(2) drives_hide])
next
  case (Show r)
  then show ?thesis using assms by (auto simp: window_show_def swc_window_show_def dest!: on_window_cases intro: typed_drives[OF assms(2) drives_show])
next
  case (Fullscreen r out)
  have "well_typed u" if "u = (case t of None \<Rightarrow> s | Some t \<Rightarrow>
      with_done (swc_window_set_fullscreen (rw_swc (rwin s a)) (Some (en_usable (wm_env s) (ro_swc (rout s t))))) s)" for a t
    using that assms(2) by (auto intro!: typed_with_done drives_set_fullscreen split: option.split)
  with assms Fullscreen show ?thesis by (auto simp: window_fullscreen_def andThen_Inr dest!: on_window_cases)
next
  case (Exit_fullscreen r)
  with assms show ?thesis
    by (auto simp: window_exit_fullscreen_def dest!: on_window_cases intro!: typed_with_done drives_set_fullscreen)
next
  case (Borders r w red g b a)
  then obtain x where "u = s \<or> u = swc_window_set_border (the (rw_swc (rwin s x))) (border_argb red g b a) (if sint w < 0 then 0 else w) 0 0 s"
    using assms(1) by (auto simp: window_set_borders_def dest!: on_window_cases)
  moreover have "drives False s (swc_window_set_border y c v 0 0 s)" for y c v by (intro drive_intros drives_refl)
  ultimately show ?thesis using assms(2) typed_drives by blast
next
  case (Tiled r)
  with assms show ?thesis
    by (auto simp: window_set_tiled_def dest!: on_window_cases intro: typed_drives[OF assms(2) drives_set_tiled])
next
  case (Box r x y w h)
  with assms show ?thesis
    by (auto simp: window_set_box_def dest!: on_window_cases split: if_splits intro: typed_intros
        typed_drives[OF assms(2) drives_window_ops(4)[OF drives_refl]] typed_drives[OF assms(2) drives_window_ops(5)[OF drives_refl]])
next
  case (Content_box r x y w h)
  with assms show ?thesis
    by (auto simp: window_set_content_box_def dest!: on_window_cases split: if_splits intro: typed_intros
        typed_drives[OF assms(2) drives_window_ops(4)[OF drives_refl]] typed_drives[OF assms(2) drives_window_ops(5)[OF drives_refl]])
next
  case (Window_gone r)
  with assms typed_window_gone[OF assms(2), of r] show ?thesis by (auto simp: proper_window_def)
qed

lemma typed_input:
  assumes "run_input op s = Inr u" "well_typed s" "proper_input op s"
  shows "well_typed u"
proof (cases op)
  case (Key k released)
  with assms typed_observe_key[OF assms(2), of k released] show ?thesis by auto
next
  case (Modifiers p c)
  with assms show ?thesis by (auto simp: binding_observe_modifiers_def intro!: typed_queue)
next
  case (Button pressed swc)
  with assms typed_observe_button[OF assms(2), of pressed swc] show ?thesis by auto
next
  case (Fire b state)
  with assms show ?thesis by (auto simp: binding_pressed_def intro!: typed_queue split: if_splits)
qed

lemma typed_swc:
  assumes "run_swc op s = Inr u" "well_typed s" "proper_swc op s"
  shows "well_typed u"
proof (cases op)
  case (Add_screen n)
  with assms typed_add_screen[OF assms(2), of n] show ?thesis by auto
next
  case (Screen_destroyed a)
  with assms typed_screen_gone[OF assms(2), of a] show ?thesis by auto
next
  case (Screen_geometry a)
  with assms show ?thesis by (auto simp: handle_screen_geometry_def intro: typed_intros)
next
  case (Add_window w)
  with assms typed_add_window[OF assms(2), of w] show ?thesis by auto
next
  case (Window_destroyed a)
  with assms typed_window_released[OF assms(2), of a] show ?thesis by auto
next
  case (Title_changed a)
  with assms show ?thesis by (auto simp: handle_window_title_def intro!: typed_intros split: option.split)
next
  case (App_id_changed a)
  with assms show ?thesis by (auto simp: handle_window_app_id_def intro!: typed_intros split: option.split)
next
  case (Entered a)
  with assms show ?thesis by (auto simp: handle_window_entered_def intro!: typed_intros split: option.split)
next
  case (Left a)
  with assms show ?thesis by (auto simp: handle_window_left_def intro!: typed_intros split: option.split)
qed

lemma typed_op: "run_op op s = Inr u \<Longrightarrow> well_typed s \<Longrightarrow> proper op s \<Longrightarrow> well_typed u"
  by (cases op) (auto intro: typed_seq typed_shell typed_node typed_window_op typed_output typed_binding_op typed_input typed_swc)

lemma typed_run: "run_ops ops s = Inr u \<Longrightarrow> well_typed s \<Longrightarrow> proper_run ops s \<Longrightarrow> well_typed u"
proof (induction ops arbitrary: s)
  case (Cons op ops)
  then obtain t where t: "run_op op s = Inr t" "run_ops ops t = Inr u" by (auto simp: andThen_Inr)
  with Cons.prems have "well_typed t" "proper_run ops t" by (auto intro: typed_op)
  with Cons.IH[OF t(2)] show ?case by blast
qed simp

lemma typed_create: "well_typed (river_wm_create s env)"
  by (simp add: well_typed_def river_wm_create_def wstate.extend_def rstate.fields_def window_typed_def typed_heap_def
      points_def listed_def output_typed_def shell_typed_def binding_typed_def registrations_def ba_elems_def ba_empty_def ba_wf_def
      bindings_initialize_def queued_def bound_data_def is_a_def known_def allocated_def)

end
