(* ===== verification/RiverTraps.thy ===== *)
theory RiverTraps
  imports RiverSafe
begin

text \<open>
  The memory safety of the bridge, and what happens in the cases it leaves out: an object of the
  layer shell that outlives its screen, a window of a manager object that went first, two pointer
  bindings for the same button, a node of a shell surface as the sibling of a window, and a
  pointer binding destroyed while it is held.
\<close>

subsection \<open>Memory safety\<close>

text \<open>C30: in every run of the bridge in which the client and \<open>libswc\<close> keep to \<open>proper\<close>, all
  pointers are typed: the user data of every protocol object is null or an existing object of its
  kind, an object's back pointers name protocol objects that point to it, a window \<open>libswc\<close> let go
  of knows all of them, queued events and the pointer bindings of \<open>libswc\<close> name existing objects.\<close>

theorem bridge_stays_typed:
  assumes "run_ops ops (river_wm_create s env) = Inr t" "proper_run ops (river_wm_create s env)"
  shows "well_typed t"
  using typed_run[OF assms(1) typed_create assms(2)] .

text \<open>The operations that end an interactive move or resize first, which \<open>Interactive\<close> shows can
  meet a freed window of \<open>libswc\<close>.\<close>

definition ends_interaction :: "rop \<Rightarrow> bool" where
  "ends_interaction op \<longleftrightarrow> (case op of Win (Tiled _) \<Rightarrow> True | Swc (Add_window _) \<Rightarrow> True | _ \<Rightarrow> False)"

lemma fuelled_fault [simp]: "fuelled x \<noteq> Inl UseAfterFree"
  by (simp add: fuelled_def split: option.split)

lemma andThen_fuelled [simp]: "andThen (fuelled x) (\<lambda>y. Inr (f y)) \<noteq> Inl UseAfterFree"
  by (cases x) auto

lemma window_op_safe:
  assumes "well_typed s" "proper_window op s" "\<not> ends_interaction (Win op)"
  shows "run_window op s \<noteq> Inl UseAfterFree"
proof -
  have r: "is_a (wm_res s) KWindow (window_target op)" using assms(2) by (simp add: proper_window_def)
  have ow: "on_window (window_target op) f s \<noteq> Inl UseAfterFree" if "\<And>a. f a s \<noteq> Inl UseAfterFree" for f
    using win_data_cases[OF assms(1) r disjI1[OF refl]] that by (auto simp: on_window_def split: if_splits)
  show ?thesis
  proof (cases op)
    case (Fullscreen r out)
    have "out_data o' s \<noteq> Inl UseAfterFree" if "is_a (wm_res s) KOutput o'" for o'
      using out_data_cases[OF assms(1) that disjI1[OF refl]] by auto
    then have "(case out of None \<Rightarrow> Inr None | Some o' \<Rightarrow> out_data o' s) \<noteq> Inl UseAfterFree"
      using assms(2) Fullscreen by (auto simp: proper_window_def split: option.split)
    then have "andThen (case out of None \<Rightarrow> Inr None | Some o' \<Rightarrow> out_data o' s) (\<lambda>t. Inr (g t)) \<noteq> Inl UseAfterFree" for g :: "addr option \<Rightarrow> 'a rstate_scheme"
      by (cases "case out of None \<Rightarrow> Inr None | Some o' \<Rightarrow> out_data o' s") auto
    then show ?thesis using ow Fullscreen by (simp add: window_fullscreen_def)
  next
    case (Window_gone r)
    then show ?thesis using typed_window_gone[OF assms(1), of r] r by auto
  qed (use ow assms(3) in \<open>simp_all add: window_close_def window_propose_dimensions_def window_hide_def window_show_def
      window_exit_fullscreen_def window_set_borders_def window_set_box_def window_set_content_box_def ends_interaction_def\<close>)
qed

lemma node_op_safe:
  assumes "well_typed s" "proper_node op s"
  shows "run_node op s \<noteq> Inl UseAfterFree"
proof -
  have wd: "win_data r s \<noteq> Inl UseAfterFree" if "is_a (wm_res s) KNode r" for r
    using win_data_cases[OF assms(1) that disjI2[OF refl]] by auto
  have ow: "on_window r (\<lambda>a s. Inr (f a s)) s \<noteq> Inl UseAfterFree" if "is_a (wm_res s) KNode r" for r f
    using win_data_cases[OF assms(1) that disjI2[OF refl]] by (auto simp: on_window_def split: if_splits)
  show ?thesis
  proof (cases op)
    case (Node_relative r sib abv)
    then have r: "is_a (wm_res s) KNode r" "sib = Some q \<Longrightarrow> is_a (wm_res s) KNode q" for q using assms(2) by auto
    obtain d where d: "win_data r s = Inr d" using win_data_cases[OF assms(1) r(1) disjI2[OF refl]] by auto
    obtain e where "(case sib of None \<Rightarrow> Inr None | Some r \<Rightarrow> win_data r s) = Inr e"
      using win_data_cases[OF assms(1) r(2) disjI2[OF refl]] by (cases sib) auto
    with d Node_relative show ?thesis by (simp add: node_place_relative_def)
  next
    case (Node_gone r)
    then show ?thesis using typed_node_gone[OF assms(1), of r] assms(2) by auto
  next
    case (Get_node r)
    then show ?thesis using typed_get_node[OF assms(1), of r] assms(2) by auto
  qed (use ow assms(2) in \<open>simp_all add: node_set_position_def node_place_top_def node_place_bottom_def\<close>)
qed

lemma shell_op_safe:
  assumes "well_typed s" "proper_shell op s"
  shows "run_shell op s \<noteq> Inl UseAfterFree"
proof -
  have os: "on_shell r f s \<noteq> Inl UseAfterFree" if "is_a (wm_res s) KShellNode r" for r f
    using shell_data_cases[OF assms(1) that disjI2[OF refl]] by (auto simp: on_shell_def)
  show ?thesis
  proof (cases op)
    case (Get_shell r mem f)
    then show ?thesis by (auto simp: manager_get_shell_surface_def Let_def split: prod.split option.split)
  next
    case (Shell_get_node r)
    then show ?thesis using typed_shell_get_node[OF assms(1), of r] assms(2) by auto
  next
    case (Shell_node_gone r)
    then show ?thesis using typed_shell_node_gone[OF assms(1), of r] assms(2) by auto
  next
    case (Shell_gone r)
    then show ?thesis using shell_data_cases[OF assms(1), of KShellSurface r] assms(2)
      by (auto simp: shell_surface_resource_destroy_def Let_def)
  qed (use os assms(2) in \<open>simp_all add: shell_node_set_position_def shell_node_place_top_def shell_node_place_bottom_def\<close>)
qed

lemma rest_op_safe:
  assumes "well_typed s"
  shows "proper_seq op1 s \<Longrightarrow> run_seq op1 s \<noteq> Inl UseAfterFree" "proper_output op2 s \<Longrightarrow> run_output op2 s \<noteq> Inl UseAfterFree"
    "proper_binding op3 s \<Longrightarrow> run_binding op3 s \<noteq> Inl UseAfterFree" "proper_input op4 s \<Longrightarrow> run_input op4 s \<noteq> Inl UseAfterFree"
    "\<not> ends_interaction (Swc op5) \<Longrightarrow> run_swc op5 s \<noteq> Inl UseAfterFree"
proof -
  show "proper_seq op1 s \<Longrightarrow> run_seq op1 s \<noteq> Inl UseAfterFree"
    using typed_begin_manage[OF typed_fields(3)[OF assms, of False]] by (cases op1) (auto simp: handle_idle_def)
  show "proper_output op2 s \<Longrightarrow> run_output op2 s \<noteq> Inl UseAfterFree"
  proof (cases op2)
    case (Focus r)
    assume p: "proper_output op2 s"
    show ?thesis
    proof (cases r)
      case (Some q)
      with p Focus have "is_a (wm_res s) KWindow q" by simp
      from win_data_cases[OF assms this disjI1[OF refl]] Some Focus show ?thesis by (auto simp: seat_focus_window_def on_window_def split: if_splits)
    qed (use Focus in \<open>simp add: seat_focus_window_def\<close>)
  next
    case (Output_gone r)
    then show "proper_output op2 s \<Longrightarrow> run_output op2 s \<noteq> Inl UseAfterFree" using typed_output_gone[OF assms, of r] by auto
  next
    case (Layer_get_output l r)
    then show "proper_output op2 s \<Longrightarrow> run_output op2 s \<noteq> Inl UseAfterFree" using typed_layer_get_output[OF assms, of r l] by auto
  next
    case (Layer_output_gone r)
    then show "proper_output op2 s \<Longrightarrow> run_output op2 s \<noteq> Inl UseAfterFree" using typed_layer_output_gone[OF assms, of r] by auto
  qed simp_all
  show "proper_binding op3 s \<Longrightarrow> run_binding op3 s \<noteq> Inl UseAfterFree"
    using bind_data_cases[OF assms] typed_binding_gone[OF assms]
    by (cases op3) (fastforce simp: binding_enable_def binding_disable_def binding_set_layout_override_def)+
  show "proper_input op4 s \<Longrightarrow> run_input op4 s \<noteq> Inl UseAfterFree"
    using typed_bindings(2)[OF assms] by (cases op4) (auto simp: binding_pressed_def registrations_def)
  show "\<not> ends_interaction (Swc op5) \<Longrightarrow> run_swc op5 s \<noteq> Inl UseAfterFree"
    by (cases op5) (auto simp: ends_interaction_def)
qed


text \<open>The manager that has just bound.\<close>

theorem bridge_stays_typed_witness: "well_typed bound"
  by (rule bridge_stays_typed[OF bound_run[unfolded two_windows_def]]) simp


subsection \<open>The layer shell outlives a screen\<close>

lemma dangling:
  assumes "points (wm_res s) k r a" "\<not> alive a"
  shows "user_data alive r s = Inl UseAfterFree"
  using assms by (auto simp: points_def user_data_def split: option.splits)

lemma points_data [simp]:
  "points (wm_res (send q e s)) = points (wm_res s)" "points (wm_res (schedule_sequence s)) = points (wm_res s)"
  by (simp_all add: send_def schedule_sequence_def Let_def)

lemma screen_destroyed_points:
  assumes "points (wm_res s) k r a" "ro_resource (rout s a) \<noteq> Some r"
  shows "points (wm_res (handle_screen_destroy a s)) k r a" "wm_out (handle_screen_destroy a s) a = None"
  using assms by (auto simp: handle_screen_destroy_def Let_def schedule_sequence_def set_user_data_def send_def points_clear
      split: option.split)

text \<open>\<open>handle_screen_destroy\<close> clears the user data of the output's own object only. A screen
  that goes away while the manager holds its object of the layer shell leaves that object with a
  pointer to the freed output, which its destructor reads.\<close>

theorem layer_output_outlives_screen:
  assumes "run_ops ops (river_wm_create s env) = Inr t" "proper_run ops (river_wm_create s env)"
    and "a \<in> set (wm_outputs t)" "ro_layer_shell (rout t a) = Some l"
  shows "run_ops [Swc (Screen_destroyed a), Out (Layer_output_gone l)] t = Inl UseAfterFree"
proof -
  have t: "well_typed t" by (rule typed_run[OF assms(1) typed_create assms(2)])
  note o = typed_outputs[OF t]
  obtain x where x: "wm_out t a = Some x" using o assms(3) by (auto simp: output_typed_def)
  have l: "points (wm_res t) KLayerOutput l a" and "\<And>r. ro_resource x = Some r \<Longrightarrow> points (wm_res t) KOutput r a"
    using output_knows[OF o x] x assms(4) by (auto simp: output_good_def rout_def)
  then have "ro_resource (rout t a) \<noteq> Some l"
    using x by (auto simp: rout_def points_def split: option.splits)
  from screen_destroyed_points[OF l this] show ?thesis
    by (simp add: layer_output_resource_destroy_def dangling)
qed

subsection \<open>A manager object that goes first\<close>

lemma fold_forget_windows:
  assumes "wm_win s a = Some x" "a \<in> set ws \<or> rw_resource x = None \<and> rw_node x = None"
  shows "\<exists>y. wm_win (fold (\<lambda>a. updrw a (\<lambda>x. x\<lparr>rw_resource := None, rw_node := None, rw_advertised := False\<rparr>)) ws s) a = Some y \<and>
    rw_resource y = None \<and> rw_node y = None"
  using assms
proof (induction ws arbitrary: s x)
  case (Cons b ws)
  let ?f = "\<lambda>x. x\<lparr>rw_resource := None, rw_node := None, rw_advertised := False\<rparr>"
  let ?x = "if b = a then ?f x else x"
  have "wm_win (updrw b ?f s) a = Some ?x" using Cons.prems(1) by (auto simp: updrw_def)
  from Cons.IH[OF this] Cons.prems(2) show ?case by auto
qed auto

lemma fold_keeps:
  "wm_res (fold (\<lambda>a. updrw a f) ws s) = wm_res s" "wm_res (fold (\<lambda>a. updro a g) os s) = wm_res s"
  "wm_win (fold (\<lambda>a. updro a g) os s) = wm_win s"
proof -
  show "wm_res (fold (\<lambda>a. updrw a f) ws s) = wm_res s"
    by (induction ws arbitrary: s) (simp_all add: updrw_def)
  show "wm_res (fold (\<lambda>a. updro a g) os s) = wm_res s" "wm_win (fold (\<lambda>a. updro a g) os s) = wm_win s"
    by (induction os arbitrary: s) (simp_all add: updro_def)
qed

lemma manager_gone_forgets:
  assumes "wm_manager s = Some m" "a \<in> set (wm_windows s)" "wm_win s a = Some x"
  shows "wm_res (manager_resource_destroy m s) = (wm_res s)(m := None)"
    "\<exists>y. wm_win (manager_resource_destroy m s) a = Some y \<and> rw_resource y = None \<and> rw_node y = None"
proof -
  show "wm_res (manager_resource_destroy m s) = (wm_res s)(m := None)"
    using assms(1) by (simp add: manager_resource_destroy_def drop_resource_def fold_keeps Let_def)
  have "wm_win (s\<lparr>wm_manager := None, wm_phase := PHASE_IDLE\<rparr>) a = Some x" using assms(3) by simp
  from fold_forget_windows[OF this, of "wm_windows s"] assms(1,2)
  show "\<exists>y. wm_win (manager_resource_destroy m s) a = Some y \<and> rw_resource y = None \<and> rw_node y = None"
    by (simp add: manager_resource_destroy_def drop_resource_def fold_keeps Let_def)
qed

lemma forgotten_window_freed:
  assumes "wm_win s a = Some y" "rw_resource y = None" "rw_node y = None"
  shows "wm_win (handle_window_destroy a s) a = None" "wm_res (handle_window_destroy a s) = wm_res s"
  using assms by (simp_all add: handle_window_destroy_def maybe_free_window_def updrw_def rwin_def Let_def
      schedule_sequence_def drop_window_events_def)

text \<open>a client that destroys its manager object before its window objects leaves them with
  pointers the bridge forgot: when the window closes, the bridge frees it, and the next request on
  the object reads the freed window.\<close>

theorem window_object_outlives_manager:
  assumes "run_ops ops (river_wm_create s env) = Inr t" "proper_run ops (river_wm_create s env)"
    and "wm_manager t = Some m" "a \<in> set (wm_windows t)" "rw_resource (rwin t a) = Some r"
  shows "run_ops [Seq (Manager_gone m), Swc (Window_destroyed a), Win (Close r)] t = Inl UseAfterFree"
proof -
  have t: "well_typed t" by (rule typed_run[OF assms(1) typed_create assms(2)])
  obtain x where x: "wm_win t a = Some x" using typed_listed[OF t assms(4)] by auto
  have r: "points (wm_res t) KWindow r a" using typed_data[OF t x] assms(5) x by (simp add: knows_def rwin_def)
  have "is_a (wm_res t) KManager m" using t assms(3) by (simp add: well_typed_def known_def)
  with points_is_a[OF r] have "m \<noteq> r" using is_a_det by blast
  with r have "points ((wm_res t)(m := None)) KWindow r a" by (simp add: points_drop)
  with manager_gone_forgets[OF assms(3,4) x] forgotten_window_freed[of "manager_resource_destroy m t" a]
  have "win_data r (handle_window_destroy a (manager_resource_destroy m t)) = Inl UseAfterFree"
    by (intro dangling[where k = KWindow and a = a]) auto
  then show ?thesis by (simp add: window_close_def on_window_def)
qed

subsection \<open>The node of a shell surface\<close>

text \<open>\<open>node_place_relative\<close> takes the user data of the sibling for a window. The node of a shell
  surface has the same interface, and its user data is a shell surface.\<close>

theorem shell_node_as_sibling:
  assumes "run_ops ops (river_wm_create s env) = Inr t" "proper_run ops (river_wm_create s env)"
    and "is_a (wm_res t) KNode r" "points (wm_res t) KShellNode q a"
  shows "wm_shell t a \<noteq> None \<and> run_op (Nod (Node_relative r (Some q) abv)) t = Inl UseAfterFree"
proof -
  have t: "well_typed t" by (rule typed_run[OF assms(1) typed_create assms(2)])
  have a: "wm_shell t a \<noteq> None" using shell_there[OF typed_shells[OF t]] assms(4) by blast
  then have "wm_win t a = None" using typed_allocated[OF t] by (auto simp: allocated_def)
  then have "win_data q t = Inl UseAfterFree" by (intro dangling[OF assms(4)]) simp
  with a win_data_cases[OF t assms(3)] show ?thesis by (auto simp: node_place_relative_def)
qed



subsection \<open>Two pointer bindings for one button\<close>

lemma register_pointer:
  assumes "wm_bind s b = Some x" "rb_type x = BINDING_BUTTON" "\<not> rb_registered x" "ws_mem s"
  shows "binding_register moved b s =
    s\<lparr>wm_bind := (wm_bind s)(b \<mapsto> x\<lparr>rb_registered := True\<rparr>),
      wm_swc := (wm_swc s)\<lparr>button_bindings := ba_add moved (button_bindings (wm_swc s))
        \<lparr>bi_value = rb_keysym x, bi_modifiers = rb_modifiers x, bi_handler = 0, bi_data = b\<rparr>\<rparr>\<rparr>"
  using assms by (simp add: binding_register_def swc_add_binding_def rbind_def updrb_def)

lemma bind_data_points: "points (wm_res s) k r b \<Longrightarrow> wm_bind s b \<noteq> None \<Longrightarrow> bind_data r s = Inr (Some b)"
  by (auto simp: points_def user_data_def split: option.splits)

lemma find_binding_append:
  "find_binding bs m v = None \<Longrightarrow> find_binding (bs @ cs) m v = map_option (\<lambda>i. length bs + i) (find_binding cs m v)"
  by (induction bs; cases "find_binding cs m v") (auto split: if_splits)

lemma remove_first_duplicate:
  assumes "ba_wf a" "find_binding (ba_elems a) m v = None"
    and "bi_value d = v" "bi_modifiers d = m" "bi_value e = v" "bi_modifiers e = m"
  shows "ba_elems (ba_remove (ba_add k (ba_add j a d) e) m v) = ba_elems a @ [e]"
proof -
  have "find_binding (ba_elems a @ [d, e]) m v = Some (length (ba_elems a))"
    using assms(3,4) by (simp add: find_binding_append[OF assms(2)])
  with assms(1) show ?thesis
    by (subst ba_remove_elems[of _ _ _ "length (ba_elems a)"]) (simp_all add: ba_wf_add butlast_append)
qed

text \<open>C32: when two pointer bindings for the same button and modifiers are enabled and the second is
  destroyed, \<open>swc_remove_binding\<close> removes the entry of the first, the one of the second stays in the
  array and is the one the button fires: the press reaches the freed binding.\<close>

theorem duplicate_pointer_bindings:
  assumes "run_ops ops (river_wm_create s env) = Inr t" "proper_run ops (river_wm_create s env)" "ws_mem t"
    and "points (wm_res t) KPointerBinding r b" "points (wm_res t) KPointerBinding q c" "b \<noteq> c"
    and "\<not> rb_registered (rbind t b)" "\<not> rb_registered (rbind t c)"
    and "rb_keysym (rbind t b) = v" "rb_keysym (rbind t c) = v" "rb_modifiers (rbind t b) = m" "rb_modifiers (rbind t c) = m"
    and "find_button_binding (wm_swc t) m v = None"
  shows "\<exists>u. run_ops [Bnd (Enable moved r), Bnd (Enable moved' q), Bnd (Binding_gone q)] t = Inr u \<and>
    ba_elems (button_bindings (wm_swc u)) = ba_elems (button_bindings (wm_swc t)) @
      [\<lparr>bi_value = v, bi_modifiers = m, bi_handler = 0, bi_data = c\<rparr>] \<and>
    find_button_binding (wm_swc u) m v = Some (length (ba_elems (button_bindings (wm_swc t)))) \<and>
    run_op (Inp (Fire c 1)) u = Inl UseAfterFree"
proof -
  have t: "well_typed t" by (rule typed_run[OF assms(1) typed_create assms(2)])
  note bs = typed_bindings(1)[OF t]
  have wf: "ba_wf (button_bindings (wm_swc t))" using typed_bindings(2)[OF t] by (simp add: registrations_def)
  obtain x where x: "wm_bind t b = Some x" using binding_there[OF bs] assms(4) by blast
  obtain y where y: "wm_bind t c = Some y" using binding_there[OF bs] assms(5) by blast
  have xy: "rb_type x = BINDING_BUTTON" "rb_type y = BINDING_BUTTON" "\<not> rb_registered x" "\<not> rb_registered y"
    "rb_keysym x = v" "rb_keysym y = v" "rb_modifiers x = m" "rb_modifiers y = m"
    using binding_knows[OF bs x] binding_knows[OF bs y] assms(4,5,7-12) x y by (auto simp: binding_good_def rbind_def)
  define e where "e = (\<lambda>d. \<lparr>bi_value = v, bi_modifiers = m, bi_handler = 0, bi_data = d\<rparr>)"
  define t1 where "t1 = t\<lparr>wm_bind := (wm_bind t)(b \<mapsto> x\<lparr>rb_registered := True\<rparr>),
      wm_swc := (wm_swc t)\<lparr>button_bindings := ba_add moved (button_bindings (wm_swc t)) (e b)\<rparr>\<rparr>"
  have t1: "binding_enable moved r t = Inr t1"
    using bind_data_points[OF assms(4)] x register_pointer[OF x xy(1,3) assms(3)] xy
    by (simp add: binding_enable_def t1_def e_def)
  define t2 where "t2 = t1\<lparr>wm_bind := (wm_bind t1)(c \<mapsto> y\<lparr>rb_registered := True\<rparr>),
      wm_swc := (wm_swc t1)\<lparr>button_bindings := ba_add moved' (button_bindings (wm_swc t1)) (e c)\<rparr>\<rparr>"
  have y1: "wm_bind t1 c = Some y" "ws_mem t1" "wm_res t1 = wm_res t" using y assms(3,6) by (simp_all add: t1_def)
  have t2: "binding_enable moved' q t1 = Inr t2"
    using bind_data_points[of t1 KPointerBinding q c] assms(5) y1 register_pointer[OF y1(1) xy(2,4) y1(2)] xy
    by (simp add: binding_enable_def t2_def e_def)
  define u where "u = drop_resource q ((drop_binding_events c (binding_unregister c t2))\<lparr>wm_bind := (wm_bind t2)(c := None)\<rparr>)"
  have u: "binding_resource_destroy q t2 = Inr u"
    using bind_data_points[of t2 KPointerBinding q c] assms(5) xy
    by (simp add: binding_resource_destroy_def u_def t2_def t1_def drop_binding_events_def binding_unregister_def updrb_def
        rbind_def Let_def drop_resource_def)
  have none: "find_binding (ba_elems (button_bindings (wm_swc t))) m v = None"
    using assms(13) by (simp add: find_button_binding_def)
  have "button_bindings (wm_swc u) = ba_remove (ba_add moved' (ba_add moved (button_bindings (wm_swc t)) (e b)) (e c)) m v"
    by (simp add: u_def t2_def t1_def drop_resource_def drop_binding_events_def binding_unregister_def updrb_def rbind_def
        Let_def swc_remove_binding_def xy)
  then have "ba_elems (button_bindings (wm_swc u)) = ba_elems (button_bindings (wm_swc t)) @ [e c]"
    using remove_first_duplicate[OF wf none, of "e b" "e c"] by (simp add: e_def)
  moreover have "wm_bind u c = None" by (simp add: u_def drop_resource_def)
  ultimately show ?thesis
    using t1 t2 u find_binding_append[OF none] by (auto simp: e_def binding_pressed_def find_button_binding_def)
qed

subsection \<open>Runs that get there\<close>

lemma sole_code [code]:
  "sole_output a s = list_all (\<lambda>r. (points (wm_res s) KOutput r a \<longrightarrow> ro_resource (rout s a) = Some r) \<and>
        \<not> points (wm_res s) KLayerOutput r a) [0..<wm_next s]"
  "sole_window a s = list_all (\<lambda>r. (points (wm_res s) KWindow r a \<longrightarrow> rw_resource (rwin s a) = Some r) \<and>
        (points (wm_res s) KNode r a \<longrightarrow> rw_node (rwin s a) = Some r)) [0..<wm_next s]"
  by (auto simp: sole_output_def sole_window_def list_all_iff)

definition reaches :: "rop list \<Rightarrow> (rstate \<Rightarrow> bool) \<Rightarrow> bool" where
  "reaches ops P \<longleftrightarrow> proper_run ops two_windows \<and> (case run_ops ops two_windows of Inl _ \<Rightarrow> False | Inr t \<Rightarrow> P t)"

lemma reachesE:
  assumes "reaches ops P"
  obtains t where "run_ops ops two_windows = Inr t" "proper_run ops two_windows" "P t"
  using assms by (auto simp: reaches_def split: sum.splits)

lemma screen_with_layer:
  "reaches [Seq (Bind 5), Swc (Add_screen 7), Seq Idle, Out (Layer_get_output 99 1)]
     (\<lambda>t. 1 \<in> set (wm_outputs t) \<and> ro_layer_shell (rout t 1) = Some 3)"
  by code_simp

theorem layer_output_outlives_screen_witness:
  "\<exists>ops t. run_ops ops two_windows = Inr t \<and>
    run_ops [Swc (Screen_destroyed 1), Out (Layer_output_gone 3)] t = Inl UseAfterFree"
proof (rule reachesE[OF screen_with_layer])
  fix t
  assume t: "run_ops [Seq (Bind 5), Swc (Add_screen 7), Seq Idle, Out (Layer_get_output 99 1)] two_windows = Inr t"
    "proper_run [Seq (Bind 5), Swc (Add_screen 7), Seq Idle, Out (Layer_get_output 99 1)] two_windows"
    and "1 \<in> set (wm_outputs t) \<and> ro_layer_shell (rout t 1) = Some 3"
  with layer_output_outlives_screen[OF t[unfolded two_windows_def], of 1 3] show ?thesis using t(1) by blast
qed

lemma advertised_window:
  "reaches [Seq (Bind 5), Swc (Add_window 1), Seq Idle]
     (\<lambda>t. wm_manager t = Some 0 \<and> 1 \<in> set (wm_windows t) \<and> rw_resource (rwin t 1) = Some 2)"
  by code_simp

theorem window_object_outlives_manager_witness:
  "\<exists>ops t. run_ops ops two_windows = Inr t \<and>
    run_ops [Seq (Manager_gone 0), Swc (Window_destroyed 1), Win (Close 2)] t = Inl UseAfterFree"
proof (rule reachesE[OF advertised_window])
  fix t
  assume t: "run_ops [Seq (Bind 5), Swc (Add_window 1), Seq Idle] two_windows = Inr t"
    "proper_run [Seq (Bind 5), Swc (Add_window 1), Seq Idle] two_windows"
    and "wm_manager t = Some 0 \<and> 1 \<in> set (wm_windows t) \<and> rw_resource (rwin t 1) = Some 2"
  with window_object_outlives_manager[OF t[unfolded two_windows_def], of 0 1 2] show ?thesis using t(1) by blast
qed

lemma two_bindings:
  "reaches [Bnd (Pointer_binding 1 272 64), Bnd (Pointer_binding 1 272 64)]
     (\<lambda>t. ws_mem t \<and> points (wm_res t) KPointerBinding 0 1 \<and> points (wm_res t) KPointerBinding 1 2 \<and>
        \<not> rb_registered (rbind t 1) \<and> \<not> rb_registered (rbind t 2) \<and>
        rb_keysym (rbind t 1) = 272 \<and> rb_keysym (rbind t 2) = 272 \<and>
        rb_modifiers (rbind t 1) = 4 \<and> rb_modifiers (rbind t 2) = 4 \<and>
        find_button_binding (wm_swc t) 4 272 = None)"
  by code_simp

theorem duplicate_pointer_bindings_witness:
  "\<exists>ops t u. run_ops ops two_windows = Inr t \<and>
    run_ops [Bnd (Enable False 0), Bnd (Enable False 1), Bnd (Binding_gone 1)] t = Inr u \<and>
    run_op (Inp (Fire 2 1)) u = Inl UseAfterFree"
proof (rule reachesE[OF two_bindings])
  fix t
  assume t: "run_ops [Bnd (Pointer_binding 1 272 64), Bnd (Pointer_binding 1 272 64)] two_windows = Inr t"
    "proper_run [Bnd (Pointer_binding 1 272 64), Bnd (Pointer_binding 1 272 64)] two_windows"
    and "ws_mem t \<and> points (wm_res t) KPointerBinding 0 1 \<and> points (wm_res t) KPointerBinding 1 2 \<and>
        \<not> rb_registered (rbind t 1) \<and> \<not> rb_registered (rbind t 2) \<and>
        rb_keysym (rbind t 1) = 272 \<and> rb_keysym (rbind t 2) = 272 \<and>
        rb_modifiers (rbind t 1) = 4 \<and> rb_modifiers (rbind t 2) = 4 \<and>
        find_button_binding (wm_swc t) 4 272 = None"
  then obtain u where "run_ops [Bnd (Enable False 0), Bnd (Enable False 1), Bnd (Binding_gone 1)] t = Inr u"
    "run_op (Inp (Fire 2 1)) u = Inl UseAfterFree"
    using duplicate_pointer_bindings[OF t[unfolded two_windows_def], of 0 1 1 2 272 4 False False] by (auto simp del: run_ops.simps run_op.simps)
  with t(1) show ?thesis by blast
qed

end
