(* ===== verification/InputFocus.thy ===== *)
theory InputFocus
  imports Prelude
begin

text \<open>
  \<open>libswc/input.c\<close>: the focus of an input device. The device's protocol objects are kept in two
  lists, \<open>active\<close> for those of the client that owns the focused view and \<open>inactive\<close> for the rest;
  a handler sends the enter and leave events. The contract is that input reaches every object of
  the focused client and no other.

  What libwayland and the surfaces answer about clients is part of the state: \<open>f_owner\<close> is
  \<open>wl_resource_get_client\<close> of a protocol object, \<open>f_vowner\<close> the client of a view's surface.
\<close>

subsection \<open>State and operations\<close>

record input_focus =
  f_client :: "nat option"
  f_view :: "addr option"
  f_active :: "nat list"
  f_inactive :: "nat list"
  f_changes :: "(addr option \<times> addr option) list"
  f_owner :: "nat \<Rightarrow> nat"
  f_vowner :: "addr \<Rightarrow> nat"

text \<open>A function of a focus handler: the objects it sends to, and the view.\<close>

type_synonym 's focus_fun = "nat list \<Rightarrow> addr option \<Rightarrow> 's \<Rightarrow> 's"

definition focus :: "'a input_focus_scheme focus_fun \<Rightarrow> addr option \<Rightarrow> 'a input_focus_scheme \<Rightarrow> 'a input_focus_scheme" where
  "focus enter view s =
     (let s = (case view of
                 None \<Rightarrow> s\<lparr>f_client := None\<rparr>
               | Some v \<Rightarrow>
                   let client = f_vowner s v
                   in s\<lparr>f_active := rev (filter (\<lambda>r. f_owner s r = client) (f_inactive s)) @ f_active s,
                        f_inactive := filter (\<lambda>r. f_owner s r \<noteq> client) (f_inactive s),
                        f_client := Some client\<rparr>);
          s = s\<lparr>f_view := view\<rparr>
      in enter (f_active s) view s)"

definition unfocus :: "'a input_focus_scheme focus_fun \<Rightarrow> 'a input_focus_scheme \<Rightarrow> 'a input_focus_scheme" where
  "unfocus leave s =
     (let s = leave (f_active s) (f_view s) s
      in s\<lparr>f_inactive := f_active s @ f_inactive s, f_active := []\<rparr>)"

definition handle_focus_view_destroy ::
  "'a input_focus_scheme focus_fun \<Rightarrow> 'a input_focus_scheme \<Rightarrow> 'a input_focus_scheme" where
  "handle_focus_view_destroy leave s =
     (if f_view s \<noteq> None then unfocus leave s else s)\<lparr>f_client := None, f_view := None\<rparr>"

definition input_focus_add_resource ::
  "'a input_focus_scheme focus_fun \<Rightarrow> nat \<Rightarrow> 'a input_focus_scheme \<Rightarrow> 'a input_focus_scheme" where
  "input_focus_add_resource enter r s =
     (if Some (f_owner s r) = f_client s
      then (let s = enter [r] (f_view s) s in s\<lparr>f_active := r # f_active s\<rparr>)
      else s\<lparr>f_inactive := r # f_inactive s\<rparr>)"

definition input_focus_remove_resource :: "nat \<Rightarrow> 'a input_focus_scheme \<Rightarrow> 'a input_focus_scheme" where
  "input_focus_remove_resource r s =
     s\<lparr>f_active := remove1 r (f_active s), f_inactive := remove1 r (f_inactive s)\<rparr>"

definition input_focus_set ::
  "'a input_focus_scheme focus_fun \<Rightarrow> 'a input_focus_scheme focus_fun \<Rightarrow> addr option \<Rightarrow>
   'a input_focus_scheme \<Rightarrow> 'a input_focus_scheme" where
  "input_focus_set enter leave view s =
     (if view = f_view s then s
      else
        let old = f_view s; s = focus enter view (unfocus leave s)
        in s\<lparr>f_changes := f_changes s @ [(old, view)]\<rparr>)"

subsection \<open>The contract\<close>

definition focus_ok :: "'a input_focus_scheme \<Rightarrow> bool" where
  "focus_ok s \<longleftrightarrow>
     distinct (f_active s @ f_inactive s) \<and> f_client s = map_option (f_vowner s) (f_view s) \<and>
     (\<forall>r \<in> set (f_active s). Some (f_owner s r) = f_client s) \<and>
     (\<forall>r \<in> set (f_inactive s). Some (f_owner s r) \<noteq> f_client s)"

definition same_focus :: "'a input_focus_scheme \<Rightarrow> 'a input_focus_scheme \<Rightarrow> bool" where
  "same_focus s t \<longleftrightarrow>
     f_client s = f_client t \<and> f_view s = f_view t \<and> f_active s = f_active t \<and> f_inactive s = f_inactive t \<and>
     f_changes s = f_changes t \<and> f_owner s = f_owner t \<and> f_vowner s = f_vowner t"

lemma same_focusD:
  assumes "same_focus s t"
  shows "f_client s = f_client t" "f_view s = f_view t" "f_active s = f_active t" "f_inactive s = f_inactive t"
    "f_owner s = f_owner t" "f_vowner s = f_vowner t"
  using assms by (simp_all add: same_focus_def)

lemma focus_ok_same: "same_focus s t \<Longrightarrow> focus_ok s = focus_ok t"
  by (simp only: focus_ok_def same_focusD[of s t])

text \<open>A handler sends events and leaves the focus alone.\<close>

locale focus_handler =
  fixes enter leave :: "'a input_focus_scheme focus_fun"
  assumes enter_same: "same_focus (enter rs v s) s"
    and leave_same: "same_focus (leave rs v s) s"
begin

lemma unfocus_fields:
  "f_active (unfocus leave s) = []" "f_inactive (unfocus leave s) = f_active s @ f_inactive s"
  "f_client (unfocus leave s) = f_client s" "f_view (unfocus leave s) = f_view s"
  "f_owner (unfocus leave s) = f_owner s" "f_vowner (unfocus leave s) = f_vowner s"
  by (simp_all add: unfocus_def Let_def same_focusD[OF leave_same])

lemma set_ok: "focus_ok s \<Longrightarrow> focus_ok (input_focus_set enter leave v s)"
  by (cases v) (auto simp: input_focus_set_def focus_def Let_def focus_ok_def same_focusD[OF enter_same] unfocus_fields)

lemma destroy_ok: "focus_ok s \<Longrightarrow> focus_ok (handle_focus_view_destroy leave s)"
  by (cases "f_view s") (auto simp: handle_focus_view_destroy_def focus_ok_def unfocus_fields)

lemma add_ok:
  "focus_ok s \<Longrightarrow> r \<notin> set (f_active s) \<Longrightarrow> r \<notin> set (f_inactive s) \<Longrightarrow> focus_ok (input_focus_add_resource enter r s)"
  by (auto simp: input_focus_add_resource_def Let_def focus_ok_def same_focusD[OF enter_same])

lemma remove_ok: "focus_ok s \<Longrightarrow> focus_ok (input_focus_remove_resource r s)"
  by (auto simp: input_focus_remove_resource_def focus_ok_def distinct_remove1 set_remove1_eq)

text \<open>After a focus change the objects of the view's client, and only those, are active.\<close>

lemma set_active:
  assumes "focus_ok s"
  shows "set (f_active (input_focus_set enter leave (Some v) s)) =
    {r \<in> set (f_active s) \<union> set (f_inactive s). f_owner s r = f_vowner s v}"
  using assms by (cases "f_view s = Some v")
    (auto simp: input_focus_set_def focus_def Let_def focus_ok_def same_focusD[OF enter_same] unfocus_fields)

end

end
