(* ===== verification/Keyboard.thy ===== *)
theory Keyboard
  imports InputFocus Bindings
begin

text \<open>
  \<open>libswc/keyboard.c\<close>: the keys that are down and the handler each of them was given to, the chain of
  handlers (the bindings of \<open>bindings.c\<close>, the observers a window manager adds, the focused client),
  the modifiers, and what the keyboard objects of clients are sent.

  libxkbcommon and the functions other parts register (the handlers of bindings, the observers) are
  the parameter \<open>klib\<close>; the state such functions work on is \<open>kb_world\<close>. They do not call back into
  the keyboard.
\<close>

subsection \<open>State\<close>

text \<open>\<open>struct key\<close>, with its \<open>struct press\<close>. The three handlers are \<open>key_binding_handler\<close>,
  \<open>observer_handler\<close> and \<open>client_handler\<close>.\<close>

datatype khandler = KBindings | KObservers | KClient

record key =
  k_value :: u32
  k_serial :: u32
  k_data :: "bptr option"
  k_handler :: "khandler option"

record keyboard_modifier_state =
  ms_depressed :: u32
  ms_latched :: u32
  ms_locked :: u32
  ms_group :: u32

record mod_indices =
  ix_ctrl :: u32
  ix_alt :: u32
  ix_super :: u32
  ix_shift :: u32
  ix_mod3 :: u32
  ix_mod5 :: u32

text \<open>The events of \<open>wl_keyboard\<close>, with the arguments in the order of the protocol:
  \<open>KModifiers serial depressed latched locked group\<close>.\<close>

datatype kevent =
    KKeymap
  | KRepeatInfo
  | KEnter u32 "addr option" "u32 list"
  | KLeave u32 "addr option"
  | KKey u32 u32 u32
  | KModifiers u32 u32 u32 u32 u32

text \<open>\<open>'x\<close> is \<open>struct xkb_state\<close>. An observer is the address of its functions and its data;
  \<open>lib_key\<close> is \<open>None\<close> when it has no \<open>key\<close> function.\<close>

record ('x, 'w) klib =
  lib_new :: 'x
  lib_update :: "'x \<Rightarrow> u32 \<Rightarrow> bool \<Rightarrow> 'x"
  lib_mods :: "'x \<Rightarrow> keyboard_modifier_state"
  lib_sym :: "'x \<Rightarrow> u32 \<Rightarrow> u32"
  lib_level0 :: "'x \<Rightarrow> u32 \<Rightarrow> u32 option"
  lib_fire :: "handler_call \<Rightarrow> 'w \<Rightarrow> 'w"
  lib_key :: "addr \<Rightarrow> (addr \<Rightarrow> u32 \<Rightarrow> u32 \<Rightarrow> 'w \<Rightarrow> bool \<times> 'w) option"
  lib_modifiers :: "addr \<Rightarrow> (addr \<Rightarrow> u32 \<Rightarrow> u32 \<Rightarrow> 'w \<Rightarrow> 'w) option"

record ('x, 'w) keyboard = input_focus +
  kb_xkb :: 'x
  kb_indices :: mod_indices
  kb_keys :: "key list"
  kb_handlers :: "khandler list"
  kb_client_keys :: "u32 list"
  kb_mods :: keyboard_modifier_state
  kb_modifiers :: u32
  kb_observers :: "(addr \<times> addr) list"
  kb_observing :: bool
  kb_last :: u32
  kb_bindings :: bindings_state
  kb_serial :: u32
  kb_events :: "(nat \<times> kevent) list"
  kb_world :: 'w

abbreviation (input) RELEASED :: u32 where "RELEASED \<equiv> 0"
abbreviation (input) PRESSED :: u32 where "PRESSED \<equiv> 1"

definition no_mods :: keyboard_modifier_state where
  "no_mods = \<lparr>ms_depressed = 0, ms_latched = 0, ms_locked = 0, ms_group = 0\<rparr>"

text \<open>Keycodes are offset by 8 in XKB.\<close>

definition XKB_KEY :: "u32 \<Rightarrow> u32" where
  "XKB_KEY key = key + 8"

text \<open>\<open>wl_display_next_serial\<close>.\<close>

definition next_serial :: "('x, 'w, 'a) keyboard_scheme \<Rightarrow> ('x, 'w, 'a) keyboard_scheme" where
  "next_serial s = s\<lparr>kb_serial := kb_serial s + 1\<rparr>"

definition kb_send :: "(nat \<times> kevent) list \<Rightarrow> ('x, 'w, 'a) keyboard_scheme \<Rightarrow> ('x, 'w, 'a) keyboard_scheme" where
  "kb_send es s = s\<lparr>kb_events := kb_events s @ es\<rparr>"

subsection \<open>Focus\<close>

text \<open>Here and in \<open>client_handle_modifiers\<close> the modifiers are sent with \<open>locked\<close> where the protocol
  has \<open>latched\<close>, and the reverse.\<close>

definition kb_enter :: "nat list \<Rightarrow> addr option \<Rightarrow> ('x, 'w, 'a) keyboard_scheme \<Rightarrow> ('x, 'w, 'a) keyboard_scheme" where
  "kb_enter resources view s =
     (let st = kb_mods s; s = next_serial s; serial = kb_serial s
      in kb_send (concat (map (\<lambda>r.
           [(r, KModifiers serial (ms_depressed st) (ms_locked st) (ms_latched st) (ms_group st)),
            (r, KEnter serial view (kb_client_keys s))]) resources)) s)"

definition kb_leave :: "nat list \<Rightarrow> addr option \<Rightarrow> ('x, 'w, 'a) keyboard_scheme \<Rightarrow> ('x, 'w, 'a) keyboard_scheme" where
  "kb_leave resources view s =
     (let s = next_serial s in kb_send (map (\<lambda>r. (r, KLeave (kb_serial s) view)) resources) s)"

definition keyboard_set_focus :: "addr option \<Rightarrow> ('x, 'w, 'a) keyboard_scheme \<Rightarrow> ('x, 'w, 'a) keyboard_scheme" where
  "keyboard_set_focus view s = input_focus_set kb_enter kb_leave view s"

text \<open>\<open>mem\<close>: the resource could be created.\<close>

definition keyboard_bind :: "bool \<Rightarrow> nat \<Rightarrow> nat \<Rightarrow> ('x, 'w, 'a) keyboard_scheme \<Rightarrow> ('x, 'w, 'a) keyboard_scheme" where
  "keyboard_bind mem version r s =
     (if \<not> mem then s
      else
        let s = kb_send [(r, KKeymap)] s;
            s = input_focus_add_resource kb_enter r s
        in if 4 \<le> version then kb_send [(r, KRepeatInfo)] s else s)"

definition kb_unbind :: "nat \<Rightarrow> ('x, 'w, 'a) keyboard_scheme \<Rightarrow> ('x, 'w, 'a) keyboard_scheme" where
  "kb_unbind r s = input_focus_remove_resource r s"

subsection \<open>Modifiers\<close>

definition XKB_MOD_INVALID :: u32 where "XKB_MOD_INVALID = -1"

definition mod_active :: "u32 \<Rightarrow> u32 \<Rightarrow> bool" where
  "mod_active mods_active index \<longleftrightarrow>
     index \<noteq> XKB_MOD_INVALID \<and> mods_active AND push_bit (unat index) 1 \<noteq> 0"

definition add_mod :: "u32 \<Rightarrow> u32 \<Rightarrow> u32 \<Rightarrow> u32 \<Rightarrow> u32" where
  "add_mod mods index swc_mod result = (if mod_active mods index then result OR swc_mod else result)"

definition mask_to_swc :: "mod_indices \<Rightarrow> u32 \<Rightarrow> u32" where
  "mask_to_swc ix xkb_mask =
     add_mod xkb_mask (ix_mod5 ix) 32 (add_mod xkb_mask (ix_mod3 ix) 16 (add_mod xkb_mask (ix_shift ix) 8
    (add_mod xkb_mask (ix_super ix) 4 (add_mod xkb_mask (ix_alt ix) 2 (add_mod xkb_mask (ix_ctrl ix) 1 0)))))"

definition client_handle_modifiers :: "('x, 'w, 'a) keyboard_scheme \<Rightarrow> ('x, 'w, 'a) keyboard_scheme" where
  "client_handle_modifiers s =
     (if f_active s = [] then s
      else
        let st = kb_mods s; s = next_serial s
        in kb_send (map (\<lambda>r. (r, KModifiers (kb_serial s) (ms_depressed st) (ms_locked st) (ms_latched st) (ms_group st)))
             (f_active s)) s)"

definition observer_handle_modifiers ::
  "('x, 'w) klib \<Rightarrow> ('x, 'w, 'a) keyboard_scheme \<Rightarrow> ('x, 'w, 'a) keyboard_scheme" where
  "observer_handle_modifiers lib s =
     (let previous = kb_last s
      in if kb_modifiers s = previous then s
         else
           let s = s\<lparr>kb_last := kb_modifiers s\<rparr>
           in s\<lparr>kb_world := fold (\<lambda>(impl, data) w.
                  case lib_modifiers lib impl of None \<Rightarrow> w | Some f \<Rightarrow> f data previous (kb_modifiers s) w)
                (kb_observers s) (kb_world s)\<rparr>)"

definition run_modifiers ::
  "('x, 'w) klib \<Rightarrow> khandler \<Rightarrow> ('x, 'w, 'a) keyboard_scheme \<Rightarrow> ('x, 'w, 'a) keyboard_scheme" where
  "run_modifiers lib h s =
     (case h of KBindings \<Rightarrow> s | KObservers \<Rightarrow> observer_handle_modifiers lib s | KClient \<Rightarrow> client_handle_modifiers s)"

definition update_xkb_state ::
  "('x, 'w) klib \<Rightarrow> u32 \<Rightarrow> u32 \<Rightarrow> ('x, 'w, 'a) keyboard_scheme \<Rightarrow> ('x, 'w, 'a) keyboard_scheme" where
  "update_xkb_state lib value state s =
     (let s = s\<lparr>kb_xkb := lib_update lib (kb_xkb s) (XKB_KEY value) (state = PRESSED)\<rparr>;
          st = lib_mods lib (kb_xkb s)
      in if st = kb_mods s then s
         else
           let s = s\<lparr>kb_mods := st,
                 kb_modifiers := mask_to_swc (kb_indices s) (ms_depressed st OR ms_latched st)\<rparr>
           in fold (run_modifiers lib) (kb_handlers s) s)"

subsection \<open>The handlers of keys\<close>

fun observers_key ::
  "('x, 'w) klib \<Rightarrow> (addr \<times> addr) list \<Rightarrow> u32 \<Rightarrow> u32 \<Rightarrow> 'w \<Rightarrow> bool \<times> 'w" where
  "observers_key lib [] value state w = (False, w)"
| "observers_key lib ((impl, data) # os) value state w =
     (case lib_key lib impl of
        None \<Rightarrow> observers_key lib os value state w
      | Some f \<Rightarrow>
          let (taken, w) = f data value state w
          in if taken then (True, w) else observers_key lib os value state w)"

text \<open>\<open>mem\<close>: \<open>client_keys\<close> could be extended.\<close>

definition client_handle_key ::
  "bool \<Rightarrow> key \<Rightarrow> u32 \<Rightarrow> ('x, 'w, 'a) keyboard_scheme \<Rightarrow> bool \<times> ('x, 'w, 'a) keyboard_scheme" where
  "client_handle_key mem key state s =
     (if state = PRESSED \<and> \<not> mem then (False, s)
      else
        let s = s\<lparr>kb_client_keys := (if state = PRESSED then kb_client_keys s @ [k_value key]
                                      else remove1 (k_value key) (kb_client_keys s))\<rparr>
        in (True, kb_send (map (\<lambda>r. (r, KKey (k_serial key) (k_value key) state)) (f_active s)) s))"

text \<open>A handler is passed a pointer to the key and may set its \<open>press.data\<close>.\<close>

definition handler_key ::
  "('x, 'w) klib \<Rightarrow> bool \<Rightarrow> khandler \<Rightarrow> key \<Rightarrow> u32 \<Rightarrow> ('x, 'w, 'a) keyboard_scheme \<Rightarrow>
   (bool \<times> key \<times> ('x, 'w, 'a) keyboard_scheme) result" where
  "handler_key lib mem h key state s =
     (case h of
        KBindings \<Rightarrow>
          (case handle_key (kb_bindings s) (kb_modifiers s) (lib_sym lib (kb_xkb s) (XKB_KEY (k_value key)))
                  (lib_level0 lib (kb_xkb s) (XKB_KEY (k_value key))) (k_data key) state of
             None \<Rightarrow> Inl UseAfterFree
           | Some (taken, data, calls) \<Rightarrow>
               Inr (taken, key\<lparr>k_data := data\<rparr>, s\<lparr>kb_world := fold (lib_fire lib) calls (kb_world s)\<rparr>))
      | KObservers \<Rightarrow>
          (let (taken, w) = observers_key lib (kb_observers s) (k_value key) state (kb_world s)
           in Inr (taken, key, s\<lparr>kb_world := w\<rparr>))
      | KClient \<Rightarrow>
          (let (taken, s) = client_handle_key mem key state s in Inr (taken, key, s)))"

fun offer ::
  "('x, 'w) klib \<Rightarrow> bool \<Rightarrow> khandler list \<Rightarrow> key \<Rightarrow> ('x, 'w, 'a) keyboard_scheme \<Rightarrow>
   (key \<times> ('x, 'w, 'a) keyboard_scheme) result" where
  "offer lib mem [] key s = Inr (key, s)"
| "offer lib mem (h # hs) key s =
     andThen (handler_key lib mem h key PRESSED s) (\<lambda>(taken, key, s).
       if taken then Inr (key\<lparr>k_handler := Some h\<rparr>, s) else offer lib mem hs key s)"

subsection \<open>Keys\<close>

text \<open>\<open>array_remove\<close> of the first entry with the value.\<close>

fun remove_key :: "u32 \<Rightarrow> key list \<Rightarrow> key list" where
  "remove_key value [] = []"
| "remove_key value (k # ks) = (if k_value k = value then ks else k # remove_key value ks)"

text \<open>\<open>mem\<close> tells whether \<open>keys\<close> could be extended, \<open>mem'\<close> whether \<open>client_keys\<close> could.\<close>

definition keyboard_handle_key ::
  "('x, 'w) klib \<Rightarrow> bool \<Rightarrow> bool \<Rightarrow> u32 \<Rightarrow> u32 \<Rightarrow> ('x, 'w, 'a) keyboard_scheme \<Rightarrow>
   ('x, 'w, 'a) keyboard_scheme result" where
  "keyboard_handle_key lib mem mem' value state s =
     (let s = next_serial s; serial = kb_serial s
      in case List.find (\<lambda>k. k_value k = value) (kb_keys s) of
           Some k \<Rightarrow>
             if state = PRESSED then Inr s
             else
               andThen
                 (case k_handler k of
                    None \<Rightarrow> Inr s
                  | Some h \<Rightarrow> andThen (handler_key lib mem' h (k\<lparr>k_serial := serial\<rparr>) state s) (\<lambda>(_, _, s). Inr s))
                 (\<lambda>s. Inr (update_xkb_state lib value state (s\<lparr>kb_keys := remove_key value (kb_keys s)\<rparr>)))
         | None \<Rightarrow>
             if state = RELEASED then Inr s
             else if \<not> mem then Inr (update_xkb_state lib value state s)
             else
               andThen
                 (offer lib mem' (kb_handlers s)
                    \<lparr>k_value = value, k_serial = serial, k_data = None, k_handler = None\<rparr> s)
                 (\<lambda>(k, s). Inr (update_xkb_state lib value state (s\<lparr>kb_keys := kb_keys s @ [k]\<rparr>))))"

fun release_keys ::
  "('x, 'w) klib \<Rightarrow> key list \<Rightarrow> ('x, 'w, 'a) keyboard_scheme \<Rightarrow> ('x, 'w, 'a) keyboard_scheme result" where
  "release_keys lib [] s = Inr s"
| "release_keys lib (k # ks) s =
     (case k_handler k of
        None \<Rightarrow> release_keys lib ks s
      | Some h \<Rightarrow>
          (let s = next_serial s
           in andThen (handler_key lib True h (k\<lparr>k_serial := kb_serial s\<rparr>) RELEASED s)
                (\<lambda>(_, _, s). release_keys lib ks s)))"

text \<open>\<open>mem\<close>: a new \<open>xkb_state\<close> could be made.\<close>

definition keyboard_reset ::
  "('x, 'w) klib \<Rightarrow> bool \<Rightarrow> ('x, 'w, 'a) keyboard_scheme \<Rightarrow> (bool \<times> ('x, 'w, 'a) keyboard_scheme) result" where
  "keyboard_reset lib mem s =
     andThen (release_keys lib (kb_keys s) s) (\<lambda>s.
       if kb_client_keys s \<noteq> [] then Inl AssertionFailed
       else
         let s = s\<lparr>kb_keys := [], kb_mods := no_mods, kb_modifiers := 0\<rparr>
         in if \<not> mem then Inr (False, s) else Inr (True, s\<lparr>kb_xkb := lib_new lib\<rparr>))"

subsection \<open>Observers\<close>

text \<open>\<open>keyboard\<close>: the seat has a keyboard, and \<open>impl\<close> is not null.\<close>

definition swc_add_keyboard_observer ::
  "bool \<Rightarrow> bool \<Rightarrow> addr \<Rightarrow> addr \<Rightarrow> ('x, 'w, 'a) keyboard_scheme \<Rightarrow> ('x, 'w, 'a) keyboard_scheme \<times> int" where
  "swc_add_keyboard_observer keyboard mem impl data s =
     (if \<not> keyboard then (s, - EINVAL)
      else if \<not> mem then (s, - ENOMEM)
      else
        let s = (if kb_observing s then s
                 else s\<lparr>kb_observers := [], kb_observing := True, kb_last := kb_modifiers s,
                        kb_handlers := insert_before KClient KObservers (kb_handlers s)\<rparr>)
        in (s\<lparr>kb_observers := kb_observers s @ [(impl, data)]\<rparr>, 0))"

definition swc_remove_keyboard_observer ::
  "addr \<Rightarrow> addr \<Rightarrow> ('x, 'w, 'a) keyboard_scheme \<Rightarrow> ('x, 'w, 'a) keyboard_scheme" where
  "swc_remove_keyboard_observer impl data s =
     (if \<not> kb_observing s then s else s\<lparr>kb_observers := remove1 (impl, data) (kb_observers s)\<rparr>)"

text \<open>\<open>keyboard_create\<close> when every allocation succeeds, with the handler of the bindings that
  \<open>swc_initialize\<close> puts first.\<close>

definition keyboard_create ::
  "('x, 'w) klib \<Rightarrow> mod_indices \<Rightarrow> (nat \<Rightarrow> nat) \<Rightarrow> (addr \<Rightarrow> nat) \<Rightarrow> 'w \<Rightarrow> ('x, 'w) keyboard" where
  "keyboard_create lib ix owner vowner w =
     \<lparr>f_client = None, f_view = None, f_active = [], f_inactive = [], f_changes = [], f_owner = owner, f_vowner = vowner,
      kb_xkb = lib_new lib, kb_indices = ix, kb_keys = [], kb_handlers = [KBindings, KClient], kb_client_keys = [],
      kb_mods = no_mods, kb_modifiers = 0, kb_observers = [], kb_observing = False, kb_last = 0,
      kb_bindings = bindings_initialize, kb_serial = 0, kb_events = [], kb_world = w\<rparr>"

end
