(* ===== verification/KeyRouting.thy ===== *)
theory KeyRouting
  imports Keyboard
begin

text \<open>
  What the keyboard promises: every key that is down has one handler, which is also given its
  release; \<open>client_keys\<close> are the keys the client handler took; every keyboard object of the focused
  client has been told exactly these; the assertion in \<open>keyboard_reset\<close> holds.
\<close>

subsection \<open>Runs\<close>

text \<open>\<open>Other\<close> is what happens outside the keyboard: bindings are added or removed, the window
  manager goes on.\<close>

datatype 'w kop =
    KeyEvent bool bool u32 u32 | Reset bool | SetFocus "addr option" | ViewDestroyed
  | BindKeyboard bool nat nat | Unbind nat | AddObserver bool bool addr addr
  | RemoveObserver addr addr | Other bindings_state 'w

fun run_kop :: "('x, 'w) klib \<Rightarrow> 'w kop \<Rightarrow> ('x, 'w) keyboard \<Rightarrow> ('x, 'w) keyboard result" where
  "run_kop lib (KeyEvent mem mem' value state) s = keyboard_handle_key lib mem mem' value state s"
| "run_kop lib (Reset mem) s = andThen (keyboard_reset lib mem s) (\<lambda>(_, s). Inr s)"
| "run_kop lib (SetFocus v) s = Inr (keyboard_set_focus v s)"
| "run_kop lib ViewDestroyed s = Inr (handle_focus_view_destroy kb_leave s)"
| "run_kop lib (BindKeyboard mem version r) s = Inr (keyboard_bind mem version r s)"
| "run_kop lib (Unbind r) s = Inr (kb_unbind r s)"
| "run_kop lib (AddObserver k mem impl data) s = Inr (fst (swc_add_keyboard_observer k mem impl data s))"
| "run_kop lib (RemoveObserver impl data) s = Inr (swc_remove_keyboard_observer impl data s)"
| "run_kop lib (Other bs w) s = Inr (s\<lparr>kb_bindings := bs, kb_world := w\<rparr>)"

fun run_kops :: "('x, 'w) klib \<Rightarrow> 'w kop list \<Rightarrow> ('x, 'w) keyboard \<Rightarrow> ('x, 'w) keyboard result" where
  "run_kops lib [] s = Inr s"
| "run_kops lib (op # ops) s = andThen (run_kop lib op s) (run_kops lib ops)"

text \<open>A new protocol object has a new id.\<close>

definition kop_ok :: "'w kop \<Rightarrow> ('x, 'w) keyboard \<Rightarrow> bool" where
  "kop_ok op s \<longleftrightarrow>
     (case op of
        BindKeyboard mem version r \<Rightarrow>
          r \<notin> set (f_active s) \<and> r \<notin> set (f_inactive s) \<and> r \<notin> fst ` set (kb_events s)
      | _ \<Rightarrow> True)"

fun kops_ok :: "('x, 'w) klib \<Rightarrow> 'w kop list \<Rightarrow> ('x, 'w) keyboard \<Rightarrow> bool" where
  "kops_ok lib [] s = True"
| "kops_ok lib (op # ops) s \<longleftrightarrow>
     kop_ok op s \<and> (case run_kop lib op s of Inl _ \<Rightarrow> True | Inr t \<Rightarrow> kops_ok lib ops t)"

subsection \<open>What a client knows\<close>

text \<open>The keys a client believes to be down, from the events its keyboard object was sent.\<close>

fun told :: "kevent \<Rightarrow> u32 list \<Rightarrow> u32 list" where
  "told (KEnter _ _ keys) ks = keys"
| "told (KLeave _ _) ks = []"
| "told (KKey _ value state) ks = (if state = PRESSED then ks @ [value] else remove1 value ks)"
| "told _ ks = ks"

definition client_view :: "nat \<Rightarrow> (nat \<times> kevent) list \<Rightarrow> u32 list" where
  "client_view r es = fold (\<lambda>(q, e) ks. if q = r then told e ks else ks) es []"

lemma view_Nil [simp]: "client_view r [] = []"
  by (simp add: client_view_def)

lemma view_snoc: "client_view r (es @ (q, e) # fs) = client_view r ((es @ [(q, e)]) @ fs)"
  by simp

lemma view_one: "client_view r (es @ [(q, e)]) = (if q = r then told e (client_view r es) else client_view r es)"
  by (simp add: client_view_def)

lemma view_others: "r \<notin> fst ` set fs \<Longrightarrow> client_view r (es @ fs) = client_view r es"
proof (induction fs arbitrary: es)
  case (Cons p fs)
  with Cons.IH[of "es @ [p]"] show ?case by (cases p) (simp add: view_one)
qed simp

lemma view_each:
  assumes "distinct rs"
  shows "client_view r (es @ map (\<lambda>q. (q, f q)) rs) =
    (if r \<in> set rs then told (f r) (client_view r es) else client_view r es)"
  using assms
proof (induction rs arbitrary: es)
  case (Cons q rs)
  then show ?case using Cons.IH[of "es @ [(q, f q)]"] by (auto simp: view_one)
qed simp

lemma view_pairs:
  assumes "distinct rs" "\<And>ks. told (f r) ks = ks"
  shows "client_view r (es @ concat (map (\<lambda>q. [(q, f q), (q, g q)]) rs)) =
    (if r \<in> set rs then told (g r) (client_view r es) else client_view r es)"
  using assms(1)
proof (induction rs arbitrary: es)
  case (Cons q rs)
  then show ?case using Cons.IH[of "es @ [(q, f q), (q, g q)]"] assms(2)
      view_one[of r "es @ [(q, f q)]" q "g q"] by (auto simp: view_one)
qed simp

subsection \<open>The invariant\<close>

definition keys_ok :: "('x, 'w) keyboard \<Rightarrow> bool" where
  "keys_ok s \<longleftrightarrow>
     distinct (map k_value (kb_keys s)) \<and>
     kb_client_keys s = map k_value (filter (\<lambda>k. k_handler k = Some KClient) (kb_keys s))"

definition informed :: "('x, 'w) keyboard \<Rightarrow> bool" where
  "informed s \<longleftrightarrow>
     (\<forall>r \<in> set (f_active s). client_view r (kb_events s) = kb_client_keys s) \<and>
     (\<forall>r \<in> set (f_inactive s). client_view r (kb_events s) = [])"

definition keyboard_ok :: "('x, 'w) keyboard \<Rightarrow> bool" where
  "keyboard_ok s \<longleftrightarrow> focus_ok s \<and> keys_ok s \<and> informed s"

text \<open>Steps a client does not notice.\<close>

definition quiet :: "('x, 'w) keyboard \<Rightarrow> ('x, 'w) keyboard \<Rightarrow> bool" where
  "quiet s t \<longleftrightarrow>
     same_focus t s \<and> kb_keys t = kb_keys s \<and> kb_client_keys t = kb_client_keys s \<and>
     kb_handlers t = kb_handlers s \<and>
     (\<forall>r. client_view r (kb_events t) = client_view r (kb_events s))"

lemma quiet_refl [simp]: "quiet s s"
  by (simp add: quiet_def same_focus_def)

lemma quiet_trans: "quiet s t \<Longrightarrow> quiet t u \<Longrightarrow> quiet s u"
  by (simp add: quiet_def same_focus_def)

lemma quiet_ok: "quiet s t \<Longrightarrow> keyboard_ok s \<Longrightarrow> keyboard_ok t"
  using focus_ok_same[of t s] by (auto simp: keyboard_ok_def quiet_def keys_ok_def informed_def same_focus_def)

lemma view_unnoticed: "(\<forall>q e ks. (q, e) \<in> set fs \<longrightarrow> told e ks = ks) \<Longrightarrow> client_view r (es @ fs) = client_view r es"
proof (induction fs arbitrary: es)
  case (Cons p fs)
  obtain q e where p: "p = (q, e)" by (cases p)
  from Cons.IH[of "es @ [p]"] Cons.prems have "client_view r (es @ p # fs) = client_view r (es @ [p])" by auto
  also have "\<dots> = client_view r es" using Cons.prems p by (simp add: view_one)
  finally show ?case .
qed simp

lemma quiet_send: "(\<forall>q e ks. (q, e) \<in> set fs \<longrightarrow> told e ks = ks) \<Longrightarrow> quiet s t \<Longrightarrow> quiet s (kb_send fs t)"
  using view_unnoticed[of fs] by (auto simp: quiet_def kb_send_def same_focus_def)

lemma quiet_fields [simp]:
  "quiet s (next_serial t) = quiet s t" "quiet s (t\<lparr>kb_world := w\<rparr>) = quiet s t" "quiet s (t\<lparr>kb_last := l\<rparr>) = quiet s t"
  "quiet s (t\<lparr>kb_xkb := x\<rparr>) = quiet s t" "quiet s (t\<lparr>kb_mods := m, kb_modifiers := n\<rparr>) = quiet s t"
  "quiet s (t\<lparr>kb_bindings := bs\<rparr>) = quiet s t" "quiet s (t\<lparr>kb_observers := os\<rparr>) = quiet s t"
  by (simp_all add: quiet_def next_serial_def same_focus_def)

lemma quiet_modifiers: "quiet s (run_modifiers lib h s)"
  by (cases h) (auto simp: run_modifiers_def observer_handle_modifiers_def client_handle_modifiers_def Let_def intro!: quiet_send)

lemma quiet_fold: "(\<And>x s. quiet s (f x s)) \<Longrightarrow> quiet s (fold f xs s)"
  by (induction xs arbitrary: s) (auto intro: quiet_trans)

lemma quiet_xkb: "quiet s (update_xkb_state lib value state s)"
proof (cases "lib_mods lib (lib_update lib (kb_xkb s) (XKB_KEY value) (state = PRESSED)) = kb_mods s")
  case False
  then show ?thesis unfolding update_xkb_state_def Let_def
    by (simp, intro quiet_trans[OF _ quiet_fold[OF quiet_modifiers]]) simp
qed (simp add: update_xkb_state_def)

text \<open>The handlers other than the client's are not noticed; the client's adds or removes the key.\<close>

lemma handler_quiet:
  "handler_key lib mem h key state s = Inr (taken, key', t) \<Longrightarrow> h \<noteq> KClient \<Longrightarrow>
     quiet s t \<and> k_value key' = k_value key \<and> k_handler key' = k_handler key"
  by (cases h) (auto simp: handler_key_def split: option.splits prod.splits)

lemma client_pressed:
  assumes "focus_ok s" "informed s" "client_handle_key True key PRESSED s = (b, t)"
  shows "b" "same_focus t s" "kb_keys t = kb_keys s" "kb_client_keys t = kb_client_keys s @ [k_value key]" "informed t"
    "kb_handlers t = kb_handlers s"
  using assms by (auto simp: client_handle_key_def kb_send_def same_focus_def informed_def focus_ok_def view_each)

lemma client_released:
  assumes "focus_ok s" "informed s" "state \<noteq> PRESSED" "client_handle_key mem key state s = (b, t)"
  shows "same_focus t s" "kb_keys t = kb_keys s" "kb_client_keys t = remove1 (k_value key) (kb_client_keys s)" "informed t"
    "kb_handlers t = kb_handlers s"
  using assms by (auto simp: client_handle_key_def kb_send_def same_focus_def informed_def focus_ok_def view_each)

text \<open>Offering a key: the first handler that takes it is the key's.\<close>

lemma offered:
  assumes "offer lib mem hs key s = Inr (k, t)" "focus_ok s" "informed s" "k_handler key = None"
  shows "same_focus t s \<and> kb_keys t = kb_keys s \<and> kb_handlers t = kb_handlers s \<and> informed t \<and> k_value k = k_value key \<and>
    kb_client_keys t = (if k_handler k = Some KClient then kb_client_keys s @ [k_value key] else kb_client_keys s)"
  using assms
proof (induction hs arbitrary: key s)
  case (Cons h hs)
  from Cons.prems(1) obtain taken key' u where
    h: "handler_key lib mem h key PRESSED s = Inr (taken, key', u)"
    and rest: "if taken then k = key'\<lparr>k_handler := Some h\<rparr> \<and> t = u else offer lib mem hs key' u = Inr (k, t)"
    by (auto simp: andThen_Inr split: if_splits)
  show ?case
  proof (cases "h = KClient")
    case False
    from handler_quiet[OF h this] have q: "quiet s u" "k_value key' = k_value key" "k_handler key' = None"
      using Cons.prems(4) by auto
    from q(1) Cons.prems(2,3) have u: "focus_ok u" "informed u"
      by (auto simp: quiet_def focus_ok_same[of u s] informed_def same_focus_def)
    show ?thesis
    proof (cases taken)
      case True
      with rest q False u show ?thesis by (auto simp: quiet_def)
    next
      case False
      with rest Cons.IH[of key' u] u q show ?thesis by (auto simp: quiet_def same_focus_def)
    qed
  next
    case True
    show ?thesis
    proof (cases mem)
      case True
      with h \<open>h = KClient\<close> have c: "client_handle_key True key PRESSED s = (taken, u)" "key' = key"
        by (auto simp: handler_key_def split: prod.splits)
      from client_pressed[OF Cons.prems(2,3) c(1)] c(2) rest \<open>h = KClient\<close> show ?thesis by auto
    next
      case False
      with h \<open>h = KClient\<close> have "\<not> taken" "key' = key" "u = s"
        by (auto simp: handler_key_def client_handle_key_def)
      with rest Cons.IH[of key s] Cons.prems show ?thesis by auto
    qed
  qed
qed (auto simp: same_focus_def)

subsection \<open>Every operation keeps it\<close>

lemma remove_key_values: "set (map k_value (remove_key v ks)) \<subseteq> set (map k_value ks)"
  by (induction ks) auto

lemma remove_key_distinct: "distinct (map k_value ks) \<Longrightarrow> distinct (map k_value (remove_key v ks))"
  by (induction ks) (use remove_key_values in auto)

lemma remove_key_filter:
  "distinct (map k_value ks) \<Longrightarrow> List.find (\<lambda>k. k_value k = v) ks = Some k \<Longrightarrow>
   map k_value (filter P (remove_key v ks)) =
     (if P k then remove1 v (map k_value (filter P ks)) else map k_value (filter P ks))"
  by (induction ks) (auto split: if_splits simp: remove1_idem)

lemma informed_keys [simp]: "informed (s\<lparr>kb_keys := ks\<rparr>) = informed s" "focus_ok (s\<lparr>kb_keys := ks\<rparr>) = focus_ok s"
  by (auto simp: informed_def focus_ok_def)

lemma released_ok:
  assumes "keyboard_ok s" "List.find (\<lambda>k. k_value k = value) (kb_keys s) = Some k" "state \<noteq> PRESSED"
    and "(case k_handler k of None \<Rightarrow> Inr s
      | Some h \<Rightarrow> andThen (handler_key lib mem h (k\<lparr>k_serial := n\<rparr>) state s) (\<lambda>(_, _, s). Inr s)) = Inr t"
  shows "keyboard_ok (t\<lparr>kb_keys := remove_key value (kb_keys t)\<rparr>)"
proof -
  note s = assms(1)[unfolded keyboard_ok_def keys_ok_def]
  have v: "k_value k = value" using assms(2) by (auto dest: find_SomeD)
  have keys: "focus_ok t \<and> informed t \<and> kb_keys t = kb_keys s \<and>
    kb_client_keys t = (if k_handler k = Some KClient then remove1 value (kb_client_keys s) else kb_client_keys s)"
  proof (cases "k_handler k = Some KClient")
    case True
    with assms(4) obtain b where "client_handle_key mem (k\<lparr>k_serial := n\<rparr>) state s = (b, t)"
      by (auto simp: handler_key_def andThen_Inr split: prod.splits)
    from client_released[OF _ _ assms(3) this] s True v focus_ok_same[of t s] show ?thesis by auto
  next
    case False
    have "quiet s t"
    proof (cases "k_handler k")
      case (Some h)
      with assms(4) obtain b k1 where "handler_key lib mem h (k\<lparr>k_serial := n\<rparr>) state s = Inr (b, k1, t)"
        by (auto simp: andThen_Inr)
      from handler_quiet[OF this] False Some show ?thesis by auto
    qed (use assms(4) in simp)
    with s False focus_ok_same[of t s] show ?thesis by (auto simp: quiet_def informed_def same_focus_def)
  qed
  moreover have "distinct (map k_value (kb_keys s))" using s by simp
  note remove_key_filter[OF this assms(2), of "\<lambda>k. k_handler k = Some KClient"] remove_key_distinct[OF this, of "value"]
  ultimately show ?thesis using s by (auto simp: keyboard_ok_def keys_ok_def)
qed

lemma key_ok:
  assumes "keyboard_ok s" "keyboard_handle_key lib mem mem' value state s = Inr t"
  shows "keyboard_ok t"
proof -
  let ?s = "next_serial s"
  have s: "keyboard_ok ?s" by (rule quiet_ok[OF _ assms(1)]) simp
  show ?thesis
  proof (cases "List.find (\<lambda>k. k_value k = value) (kb_keys ?s)")
    case (Some k)
    show ?thesis
    proof (cases "state = PRESSED")
      case False
      with Some assms(2) obtain u where
        u: "(case k_handler k of None \<Rightarrow> Inr ?s
          | Some h \<Rightarrow> andThen (handler_key lib mem' h (k\<lparr>k_serial := kb_serial ?s\<rparr>) state ?s) (\<lambda>(_, _, s). Inr s)) = Inr u"
        and t: "t = update_xkb_state lib value state (u\<lparr>kb_keys := remove_key value (kb_keys u)\<rparr>)"
        by (auto simp: keyboard_handle_key_def Let_def andThen_Inr)
      show ?thesis unfolding t by (rule quiet_ok[OF quiet_xkb released_ok[OF s Some False u]])
    qed (use Some assms s in \<open>auto simp: keyboard_handle_key_def Let_def\<close>)
  next
    case None
    show ?thesis
    proof (cases "state = RELEASED \<or> \<not> mem")
      case True
      with None assms(2) have "t = ?s \<or> t = update_xkb_state lib value state ?s"
        by (auto simp: keyboard_handle_key_def Let_def split: if_splits)
      with s quiet_ok[OF quiet_xkb s] show ?thesis by auto
    next
      case False
      with None assms(2) obtain k u where
        u: "offer lib mem' (kb_handlers ?s) \<lparr>k_value = value, k_serial = kb_serial ?s, k_data = None, k_handler = None\<rparr> ?s = Inr (k, u)"
        and t: "t = update_xkb_state lib value state (u\<lparr>kb_keys := kb_keys u @ [k]\<rparr>)"
        by (auto simp: keyboard_handle_key_def Let_def andThen_Inr)
      have "keyboard_ok (u\<lparr>kb_keys := kb_keys u @ [k]\<rparr>)"
        using offered[OF u] s None focus_ok_same[of u ?s] by (auto simp: keyboard_ok_def keys_ok_def find_None_all)
      then show ?thesis unfolding t by (rule quiet_ok[OF quiet_xkb])
    qed
  qed
qed

interpretation kb: focus_handler kb_enter kb_leave
  by unfold_locales (simp_all add: kb_enter_def kb_leave_def kb_send_def next_serial_def same_focus_def Let_def)

text \<open>Changes of focus.\<close>

lemma enter_views:
  assumes "distinct rs"
  shows "client_view r (kb_events (kb_enter rs v s)) =
    (if r \<in> set rs then kb_client_keys s else client_view r (kb_events s))"
  using view_pairs[OF assms, of "\<lambda>q. KModifiers (kb_serial s + 1) (ms_depressed (kb_mods s)) (ms_locked (kb_mods s))
      (ms_latched (kb_mods s)) (ms_group (kb_mods s))" r "kb_events s" "\<lambda>q. KEnter (kb_serial s + 1) v (kb_client_keys s)"]
  by (simp add: kb_enter_def kb_send_def next_serial_def Let_def)

lemma leave_views:
  "distinct rs \<Longrightarrow> client_view r (kb_events (kb_leave rs v s)) = (if r \<in> set rs then [] else client_view r (kb_events s))"
  by (simp add: kb_leave_def kb_send_def next_serial_def Let_def view_each)

lemma enter_leave_keys [simp]:
  "kb_keys (kb_enter rs v s) = kb_keys s" "kb_client_keys (kb_enter rs v s) = kb_client_keys s"
  "kb_keys (kb_leave rs v s) = kb_keys s" "kb_client_keys (kb_leave rs v s) = kb_client_keys s"
  by (simp_all add: kb_enter_def kb_leave_def kb_send_def next_serial_def Let_def)

lemma unfocus_informed:
  assumes "focus_ok s" "informed s"
  shows "r \<in> set (f_active s) \<union> set (f_inactive s) \<Longrightarrow> client_view r (kb_events (unfocus kb_leave s)) = []"
    "kb_keys (unfocus kb_leave s) = kb_keys s" "kb_client_keys (unfocus kb_leave s) = kb_client_keys s"
  using assms by (auto simp: unfocus_def Let_def leave_views focus_ok_def informed_def)

lemma set_focus_ok:
  assumes "keyboard_ok s"
  shows "keyboard_ok (keyboard_set_focus v s)"
proof (cases "v = f_view s")
  case False
  let ?u = "unfocus kb_leave s"
  have s: "focus_ok s" "informed s" "keys_ok s" using assms by (simp_all add: keyboard_ok_def)
  define t where "t = (case v of
                 None \<Rightarrow> ?u\<lparr>f_client := None\<rparr>
               | Some v \<Rightarrow>
                   let client = f_vowner ?u v
                   in ?u\<lparr>f_active := rev (filter (\<lambda>r. f_owner ?u r = client) (f_inactive ?u)) @ f_active ?u,
                        f_inactive := filter (\<lambda>r. f_owner ?u r \<noteq> client) (f_inactive ?u),
                        f_client := Some client\<rparr>)"
  have t: "kb_keys t = kb_keys s" "kb_client_keys t = kb_client_keys s" "distinct (f_active t)"
    "set (f_active t) \<inter> set (f_inactive t) = {}"
    "set (f_active t) \<union> set (f_inactive t) = set (f_active s) \<union> set (f_inactive s)" "kb_events t = kb_events ?u"
    using s unfocus_informed[OF s(1,2)] by (auto simp: t_def kb.unfocus_fields focus_ok_def Let_def split: option.splits)
  have eq: "keyboard_set_focus v s = (kb_enter (f_active t) v (t\<lparr>f_view := v\<rparr>))\<lparr>f_changes := f_changes
      (kb_enter (f_active t) v (t\<lparr>f_view := v\<rparr>)) @ [(f_view s, v)]\<rparr>"
    using False by (simp add: keyboard_set_focus_def input_focus_set_def focus_def t_def[symmetric] Let_def)
  have "informed (keyboard_set_focus v s)"
    using t unfocus_informed(1)[OF s(1,2)] unfolding eq
    by (auto simp: informed_def enter_views same_focusD[OF kb.enter_same])
  moreover have "keys_ok (keyboard_set_focus v s)" using s(3) t unfolding eq by (simp add: keys_ok_def)
  moreover have "focus_ok (keyboard_set_focus v s)" unfolding keyboard_set_focus_def by (rule kb.set_ok[OF s(1)])
  ultimately show ?thesis by (simp add: keyboard_ok_def)
qed (use assms in \<open>simp add: keyboard_set_focus_def input_focus_set_def\<close>)

lemma view_destroyed_ok:
  assumes "keyboard_ok s"
  shows "keyboard_ok (handle_focus_view_destroy kb_leave s)"
proof -
  have s: "focus_ok s" "informed s" "keys_ok s" using assms by (simp_all add: keyboard_ok_def)
  have "f_view s = None \<Longrightarrow> f_active s = []" using s(1) by (cases "f_active s") (auto simp: focus_ok_def)
  then show ?thesis using kb.destroy_ok[OF s(1)] s(2,3) unfocus_informed[OF s(1,2)]
    by (auto simp: keyboard_ok_def handle_focus_view_destroy_def informed_def keys_ok_def kb.unfocus_fields)
qed

lemma bind_ok:
  assumes "keyboard_ok s" "r \<notin> set (f_active s)" "r \<notin> set (f_inactive s)" "r \<notin> fst ` set (kb_events s)"
  shows "keyboard_ok (keyboard_bind mem version r s)"
proof (cases mem)
  case True
  let ?s = "kb_send [(r, KKeymap)] s"
  have s: "quiet s ?s" by (rule quiet_send) auto
  then have ok: "keyboard_ok ?s" using assms(1) by (rule quiet_ok)
  have new: "client_view r (kb_events ?s) = []"
    using view_others[of r "kb_events s" "[]"] assms(4) by (simp add: kb_send_def view_one)
  let ?t = "input_focus_add_resource kb_enter r ?s"
  have "keyboard_ok ?t"
    using ok kb.add_ok[of ?s r] assms(2,3) new
    by (auto simp: keyboard_ok_def input_focus_add_resource_def Let_def informed_def keys_ok_def enter_views
        same_focusD[OF kb.enter_same] kb_send_def)
  then have "keyboard_ok (if 4 \<le> version then kb_send [(r, KRepeatInfo)] ?t else ?t)"
    using quiet_ok[OF quiet_send[OF _ quiet_refl], of "[(r, KRepeatInfo)]" ?t] by auto
  then show ?thesis using True by (simp add: keyboard_bind_def Let_def)
qed (use assms in \<open>simp add: keyboard_bind_def\<close>)

lemma unbind_ok: "keyboard_ok s \<Longrightarrow> keyboard_ok (kb_unbind r s)"
  using kb.remove_ok[of s r] by (auto simp: keyboard_ok_def kb_unbind_def input_focus_remove_resource_def keys_ok_def informed_def
      dest: notin_set_remove1)

text \<open>A reset releases the keys in the order they were pressed, which is the order of \<open>client_keys\<close>.\<close>

lemma keys_released:
  assumes "release_keys lib ks s = Inr t" "focus_ok s" "informed s"
    and "kb_client_keys s = map k_value (filter (\<lambda>k. k_handler k = Some KClient) ks)"
  shows "focus_ok t \<and> informed t \<and> kb_client_keys t = []"
  using assms
proof (induction ks arbitrary: s)
  case (Cons k ks)
  show ?case
  proof (cases "k_handler k")
    case (Some h)
    let ?s = "next_serial s"
    have q: "quiet s ?s" by simp
    with Cons.prems have s: "focus_ok ?s" "informed ?s" "kb_client_keys ?s = kb_client_keys s"
      by (auto simp: quiet_def focus_ok_same[of ?s s] informed_def same_focus_def)
    from Cons.prems(1) Some obtain b k1 u where
      u: "handler_key lib True h (k\<lparr>k_serial := kb_serial ?s\<rparr>) RELEASED ?s = Inr (b, k1, u)" and rest: "release_keys lib ks u = Inr t"
      by (auto simp: Let_def andThen_Inr)
    show ?thesis
    proof (cases "h = KClient")
      case True
      with u obtain c where "client_handle_key True (k\<lparr>k_serial := kb_serial ?s\<rparr>) RELEASED ?s = (c, u)"
        by (auto simp: handler_key_def split: prod.splits)
      from client_released[OF s(1,2) _ this] s True Some Cons.prems(4) focus_ok_same[of u ?s]
      show ?thesis by (intro Cons.IH[OF rest]) auto
    next
      case False
      from handler_quiet[OF u this] have "quiet ?s u" by simp
      with s False Some Cons.prems(4) focus_ok_same[of u ?s] show ?thesis
        by (intro Cons.IH[OF rest]) (auto simp: quiet_def informed_def same_focus_def)
    qed
  next
    case None
    with Cons show ?thesis by simp
  qed
qed simp

lemma reset_ok:
  assumes "keyboard_ok s"
  shows "keyboard_reset lib mem s \<noteq> Inl AssertionFailed"
    "keyboard_reset lib mem s = Inr (b, t) \<Longrightarrow> keyboard_ok t"
proof -
  have s: "focus_ok s" "informed s" "kb_client_keys s = map k_value (filter (\<lambda>k. k_handler k = Some KClient) (kb_keys s))"
    using assms by (simp_all add: keyboard_ok_def keys_ok_def)
  note r = keys_released[OF _ s]
  have offer: "handler_key lib m h k st u \<noteq> Inl AssertionFailed" for m h k st and u :: "('a, 'b) keyboard"
    by (cases h) (auto simp: handler_key_def split: option.split prod.split)
  have "release_keys lib ks u \<noteq> Inl AssertionFailed" for ks and u :: "('a, 'b) keyboard"
  proof (induction ks arbitrary: u)
    case (Cons k ks)
    then show ?case
      by (auto simp: Let_def andThen_def offer split: option.split sum.split dest: offer[THEN notE])
  qed simp
  then show "keyboard_reset lib mem s \<noteq> Inl AssertionFailed"
    using r by (auto simp: keyboard_reset_def andThen_def Let_def split: sum.splits)
  show "keyboard_ok t" if "keyboard_reset lib mem s = Inr (b, t)"
  proof -
    from that obtain u where u: "release_keys lib (kb_keys s) s = Inr u"
      and t: "t = u\<lparr>kb_keys := [], kb_mods := no_mods, kb_modifiers := 0\<rparr> \<or>
        t = u\<lparr>kb_keys := [], kb_mods := no_mods, kb_modifiers := 0, kb_xkb := lib_new lib\<rparr>"
      by (auto simp: keyboard_reset_def andThen_Inr Let_def split: if_splits)
    from r[OF u] t show ?thesis by (auto simp: keyboard_ok_def keys_ok_def informed_def focus_ok_def)
  qed
qed

lemma observers_ok:
  "keyboard_ok s \<Longrightarrow> keyboard_ok (fst (swc_add_keyboard_observer k mem impl data s))"
  "keyboard_ok s \<Longrightarrow> keyboard_ok (swc_remove_keyboard_observer impl data s)"
  by (auto simp: swc_add_keyboard_observer_def swc_remove_keyboard_observer_def keyboard_ok_def keys_ok_def informed_def
      focus_ok_def Let_def)

lemma kop_keeps:
  assumes "keyboard_ok s" "kop_ok op s" "run_kop lib op s = Inr t"
  shows "keyboard_ok t"
proof (cases op)
  case (Reset mem)
  with assms(3) obtain b where "keyboard_reset lib mem s = Inr (b, t)" by (auto simp: andThen_Inr)
  then show ?thesis by (rule reset_ok(2)[OF assms(1)])
next
  case (Other bs w)
  with assms(3) have "quiet s t" by auto
  then show ?thesis using assms(1) by (rule quiet_ok)
qed (use assms in \<open>auto simp: kop_ok_def intro: key_ok set_focus_ok view_destroyed_ok bind_ok unbind_ok observers_ok\<close>)

lemma kops_keep: "run_kops lib ops s = Inr t \<Longrightarrow> kops_ok lib ops s \<Longrightarrow> keyboard_ok s \<Longrightarrow> keyboard_ok t"
proof (induction ops arbitrary: s)
  case (Cons op ops)
  then obtain u where "run_kop lib op s = Inr u" "run_kops lib ops u = Inr t" by (auto simp: andThen_Inr)
  with Cons.IH[of u] Cons.prems kop_keeps[of s op lib u] show ?case by auto
qed simp

lemma create_ok: "keyboard_ok (keyboard_create lib ix owner vowner w)"
  by (simp add: keyboard_ok_def keys_ok_def informed_def focus_ok_def keyboard_create_def)

subsection \<open>Keys a binding or an observer took\<close>

definition hides :: "u32 \<Rightarrow> (nat \<times> kevent) list \<Rightarrow> bool" where
  "hides v es \<longleftrightarrow>
     (\<forall>(r, e) \<in> set es. case e of KKey _ w _ \<Rightarrow> w \<noteq> v | KEnter _ _ ks \<Rightarrow> v \<notin> set ks | _ \<Rightarrow> True)"

lemma hides_simps [simp]: "hides v []" "hides v (es @ fs) \<longleftrightarrow> hides v es \<and> hides v fs"
  by (auto simp: hides_def)

definition secret :: "u32 \<Rightarrow> ('x, 'w) keyboard \<Rightarrow> ('x, 'w) keyboard \<Rightarrow> bool" where
  "secret v s t \<longleftrightarrow>
     (v \<notin> set (kb_client_keys s) \<longrightarrow>
        v \<notin> set (kb_client_keys t) \<and> (\<exists>es. kb_events t = kb_events s @ es \<and> hides v es))"

lemma secret_refl [simp]: "secret v s s"
  by (simp add: secret_def)

lemma secret_trans: "secret v s t \<Longrightarrow> secret v t u \<Longrightarrow> secret v s u"
  by (auto simp: secret_def)

lemma secret_fields:
  "kb_client_keys t = kb_client_keys s \<Longrightarrow> kb_events t = kb_events s \<Longrightarrow> secret v s t"
  by (simp add: secret_def)

lemma secret_send: "v \<notin> set (kb_client_keys s) \<longrightarrow> hides v es \<Longrightarrow> secret v s (kb_send es s)"
  by (auto simp: secret_def kb_send_def)

lemma secret_fold: "(\<And>x s. secret v s (f x s)) \<Longrightarrow> secret v s (fold f xs s)"
  by (induction xs arbitrary: s) (auto intro: secret_trans)

lemma secret_next: "secret v s (next_serial s)"
  by (rule secret_fields) (simp_all add: next_serial_def)

lemma secret_modifiers: "secret v s (run_modifiers lib h s)"
proof (cases h)
  case KClient
  then show ?thesis
    by (auto simp: run_modifiers_def client_handle_modifiers_def Let_def hides_def next_serial_def secret_def kb_send_def)
qed (simp_all add: run_modifiers_def observer_handle_modifiers_def secret_fields Let_def)

lemma secret_xkb: "secret v s (update_xkb_state lib value state s)"
proof (cases "lib_mods lib (lib_update lib (kb_xkb s) (XKB_KEY value) (state = PRESSED)) = kb_mods s")
  case True
  then show ?thesis by (simp add: update_xkb_state_def secret_fields)
next
  case False
  then show ?thesis unfolding update_xkb_state_def Let_def
    by (simp, intro secret_trans[OF _ secret_fold[OF secret_modifiers]]) (simp add: secret_fields)
qed

lemma secret_handler:
  assumes "handler_key lib mem h key state s = Inr (b, key', t)" "h = KClient \<longrightarrow> k_value key \<noteq> v"
  shows "secret v s t"
proof (cases "h = KClient")
  case True
  with assms show ?thesis
    by (auto simp: handler_key_def client_handle_key_def Let_def secret_def kb_send_def hides_def
        split: if_splits dest: notin_set_remove1)
next
  case False
  with assms(1) show ?thesis
    by (cases h) (auto simp: handler_key_def intro: secret_fields split: option.splits prod.splits)
qed

lemma handler_key_value: "handler_key lib mem h key state s = Inr (b, key', t) \<Longrightarrow> k_value key' = k_value key"
  by (cases h) (auto simp: handler_key_def split: option.splits prod.splits)

lemma secret_offer: "offer lib mem hs key s = Inr (k, t) \<Longrightarrow> k_value key \<noteq> v \<Longrightarrow> secret v s t"
proof (induction hs arbitrary: key s)
  case (Cons h hs)
  from Cons.prems(1) obtain taken key' u where
    h: "handler_key lib mem h key PRESSED s = Inr (taken, key', u)"
    and rest: "if taken then k = key'\<lparr>k_handler := Some h\<rparr> \<and> t = u else offer lib mem hs key' u = Inr (k, t)"
    by (auto simp: andThen_Inr split: if_splits)
  have "secret v s u" using secret_handler[OF h] Cons.prems(2) by simp
  with rest Cons.IH[of key' u] Cons.prems(2) handler_key_value[OF h] show ?case
    by (auto split: if_splits intro: secret_trans)
qed simp

text \<open>When no client key is \<open>v\<close>, a key \<open>v\<close> that is down has another handler, and its release is hidden.\<close>

lemma secret_release:
  assumes "keys_ok s" "keyboard_handle_key lib mem mem' w state s = Inr t" "w \<noteq> v \<or> state = RELEASED"
  shows "secret v s t"
proof (cases "v \<in> set (kb_client_keys s)")
  case False
  let ?s = "next_serial s"
  show ?thesis
  proof (cases "List.find (\<lambda>k. k_value k = w) (kb_keys ?s)")
    case (Some k)
    then have k: "k \<in> set (kb_keys s)" "k_value k = w" by (auto simp: next_serial_def dest: find_SomeD)
    show ?thesis
    proof (cases "state = PRESSED")
      case False
      with Some assms(2) obtain u where
        u: "(case k_handler k of None \<Rightarrow> Inr ?s
          | Some h \<Rightarrow> andThen (handler_key lib mem' h (k\<lparr>k_serial := kb_serial ?s\<rparr>) state ?s) (\<lambda>(_, _, s). Inr s)) = Inr u"
        and t: "t = update_xkb_state lib w state (u\<lparr>kb_keys := remove_key w (kb_keys u)\<rparr>)"
        by (auto simp: keyboard_handle_key_def Let_def andThen_Inr)
      have "w \<noteq> v \<or> k_handler k \<noteq> Some KClient"
        using k \<open>v \<notin> set (kb_client_keys s)\<close> assms(1) by (auto simp: keys_ok_def)
      have "secret v ?s u"
      proof (cases "k_handler k")
        case (Some h)
        with u obtain b k1 where "handler_key lib mem' h (k\<lparr>k_serial := kb_serial ?s\<rparr>) state ?s = Inr (b, k1, u)"
          by (auto simp: andThen_Inr)
        then show ?thesis by (rule secret_handler) (use Some k(2) \<open>w \<noteq> v \<or> k_handler k \<noteq> Some KClient\<close> in auto)
      qed (use u in simp)
      then show ?thesis unfolding t
        by (intro secret_trans[OF secret_next secret_trans[OF _ secret_trans[OF secret_fields secret_xkb]]]) simp_all
    qed (use Some assms(2) secret_next in \<open>auto simp: keyboard_handle_key_def Let_def\<close>)
  next
    case None
    show ?thesis
    proof (cases "state = RELEASED \<or> \<not> mem")
      case True
      with None assms(2) have "t = ?s \<or> t = update_xkb_state lib w state ?s"
        by (auto simp: keyboard_handle_key_def Let_def split: if_splits)
      with secret_next secret_trans[OF secret_next secret_xkb] show ?thesis by auto
    next
      case False
      with None assms(2) obtain k u where
        u: "offer lib mem' (kb_handlers ?s) \<lparr>k_value = w, k_serial = kb_serial ?s, k_data = None, k_handler = None\<rparr> ?s = Inr (k, u)"
        and t: "t = update_xkb_state lib w state (u\<lparr>kb_keys := kb_keys u @ [k]\<rparr>)"
        by (auto simp: keyboard_handle_key_def Let_def andThen_Inr)
      have "secret v ?s u" using secret_offer[OF u] False assms(3) by simp
      then show ?thesis unfolding t
        by (intro secret_trans[OF secret_next secret_trans[OF _ secret_trans[OF secret_fields secret_xkb]]]) simp_all
    qed
  qed
qed (simp add: secret_def)

lemma secret_focus: "secret v s (kb_enter rs w s)" "secret v s (kb_leave rs w s)"
  by (auto simp: kb_enter_def kb_leave_def Let_def next_serial_def secret_def kb_send_def hides_def)

lemma secret_unfocus: "secret v s (unfocus kb_leave s)"
  unfolding unfocus_def Let_def by (rule secret_trans[OF secret_focus(2)[of v s "f_active s" "f_view s"]]) (simp add: secret_fields)

lemma secret_set_focus: "secret v s (keyboard_set_focus w s)"
proof -
  have f: "secret v x (focus kb_enter w x)" for x :: "('a, 'b) keyboard"
  proof (cases w)
    case (Some y)
    show ?thesis unfolding focus_def Some Let_def option.case
      by (rule secret_trans[OF secret_fields secret_focus(1)]) simp_all
  qed (simp add: focus_def Let_def, rule secret_trans[OF secret_fields secret_focus(1)], simp_all)
  have c: "secret v x (x\<lparr>f_changes := c\<rparr>)" for c and x :: "('a, 'b) keyboard" by (simp add: secret_fields)
  show ?thesis unfolding keyboard_set_focus_def input_focus_set_def Let_def
    using secret_trans[OF secret_unfocus secret_trans[OF f c]] by auto
qed

lemma secret_released:
  "release_keys lib ks s = Inr t \<Longrightarrow> (\<And>k. k \<in> set ks \<Longrightarrow> k_handler k = Some KClient \<Longrightarrow> k_value k \<noteq> v) \<Longrightarrow> secret v s t"
proof (induction ks arbitrary: s)
  case (Cons k ks)
  show ?case
  proof (cases "k_handler k")
    case (Some h)
    from Cons.prems(1) Some obtain b k1 u where
      u: "handler_key lib True h (k\<lparr>k_serial := kb_serial (next_serial s)\<rparr>) RELEASED (next_serial s) = Inr (b, k1, u)"
      and rest: "release_keys lib ks u = Inr t"
      by (auto simp: Let_def andThen_Inr)
    have "secret v (next_serial s) u" by (rule secret_handler[OF u]) (use Cons.prems(2) Some in auto)
    moreover have "secret v u t" by (rule Cons.IH[OF rest]) (use Cons.prems(2) in auto)
    ultimately show ?thesis using secret_next secret_trans by blast
  qed (use Cons in auto)
qed simp

definition key_event_of :: "u32 \<Rightarrow> 'w kop \<Rightarrow> bool" where
  "key_event_of v op \<longleftrightarrow> (case op of KeyEvent _ _ w _ \<Rightarrow> w = v | _ \<Rightarrow> False)"

lemma secret_op:
  assumes "run_kop lib op s = Inr t" "keys_ok s" "\<not> key_event_of v op"
  shows "secret v s t"
proof (cases op)
  case (KeyEvent mem mem' w state)
  with assms show ?thesis by (auto simp: key_event_of_def intro: secret_release)
next
  case (Reset mem)
  show ?thesis
  proof (cases "v \<in> set (kb_client_keys s)")
    case False
    from Reset assms(1) obtain u where u: "release_keys lib (kb_keys s) s = Inr u"
      and t: "kb_client_keys t = kb_client_keys u" "kb_events t = kb_events u"
      by (auto simp: keyboard_reset_def andThen_Inr Let_def split: if_splits)
    have "secret v s u" by (rule secret_released[OF u]) (use False assms(2) in \<open>auto simp: keys_ok_def\<close>)
    then show ?thesis using secret_fields[OF t] secret_trans by blast
  qed (simp add: secret_def)
next
  case (SetFocus w)
  with assms(1) secret_set_focus show ?thesis by auto
next
  case ViewDestroyed
  with assms(1) have "t = (if f_view s \<noteq> None then unfocus kb_leave s else s)\<lparr>f_client := None, f_view := None\<rparr>"
    by (simp add: handle_focus_view_destroy_def)
  moreover have "secret v x (x\<lparr>f_client := None, f_view := None\<rparr>)" for x :: "('a, 'b) keyboard" by (simp add: secret_fields)
  note this this[THEN secret_trans[OF secret_unfocus]]
  ultimately show ?thesis by auto
next
  case (BindKeyboard mem version r)
  have one: "secret v x (kb_send [(r, e)] x)" if "e = KKeymap \<or> e = KRepeatInfo" for x :: "('a, 'b) keyboard" and e
    using that by (intro secret_send) (auto simp: hides_def)
  have "secret v x (input_focus_add_resource kb_enter r x)" for x :: "('a, 'b) keyboard"
    unfolding input_focus_add_resource_def Let_def
    by (auto intro: secret_fields secret_trans[OF secret_focus(1) secret_fields])
  from secret_trans[OF one secret_trans[OF this one]] secret_trans[OF one this] BindKeyboard assms(1)
  show ?thesis by (auto simp: keyboard_bind_def Let_def split: if_splits)
next
  case (AddObserver k mem impl data)
  with assms(1) show ?thesis by (auto simp: swc_add_keyboard_observer_def Let_def secret_fields)
qed (use assms(1) in \<open>auto simp: kb_unbind_def input_focus_remove_resource_def swc_remove_keyboard_observer_def secret_fields\<close>)

lemma secret_ops:
  "run_kops lib ops s = Inr t \<Longrightarrow> kops_ok lib ops s \<Longrightarrow> keyboard_ok s \<Longrightarrow> \<forall>op \<in> set ops. \<not> key_event_of v op \<Longrightarrow> secret v s t"
proof (induction ops arbitrary: s)
  case (Cons op ops)
  then obtain u where u: "run_kop lib op s = Inr u" "run_kops lib ops u = Inr t" by (auto simp: andThen_Inr)
  have "secret v s u" by (rule secret_op[OF u(1)]) (use Cons.prems in \<open>auto simp: keyboard_ok_def\<close>)
  moreover have "secret v u t" using Cons.IH[of u] Cons.prems u kop_keeps[of s op lib u] by auto
  ultimately show ?case by (rule secret_trans)
qed simp

lemma handler_events:
  "handler_key lib mem h key state s = Inr (b, key', t) \<Longrightarrow> h \<noteq> KClient \<Longrightarrow>
     kb_events t = kb_events s \<and> kb_client_keys t = kb_client_keys s \<and> k_handler key' = k_handler key"
  by (cases h) (auto simp: handler_key_def split: option.splits prod.splits)

lemma offer_hidden:
  "offer lib mem hs key s = Inr (k, t) \<Longrightarrow> k_handler key = None \<Longrightarrow> k_handler k \<noteq> Some KClient \<Longrightarrow>
     kb_events t = kb_events s \<and> kb_client_keys t = kb_client_keys s"
proof (induction hs arbitrary: key s)
  case (Cons h hs)
  from Cons.prems(1) obtain taken key' u where
    h: "handler_key lib mem h key PRESSED s = Inr (taken, key', u)"
    and rest: "if taken then k = key'\<lparr>k_handler := Some h\<rparr> \<and> t = u else offer lib mem hs key' u = Inr (k, t)"
    by (auto simp: andThen_Inr split: if_splits)
  show ?case
  proof (cases "h = KClient")
    case True
    with h rest Cons.prems(3) have "\<not> taken" "key' = key" "u = s"
      by (auto simp: handler_key_def client_handle_key_def Let_def split: if_splits)
    with rest Cons.IH[of key s] Cons.prems show ?thesis by simp
  next
    case False
    from handler_events[OF h this] rest Cons.IH[of key' u] Cons.prems show ?thesis by (auto split: if_splits)
  qed
qed simp

lemma pressed_hidden:
  assumes "keyboard_ok s" "\<forall>k \<in> set (kb_keys s). k_value k \<noteq> v"
    and "keyboard_handle_key lib mem mem' v PRESSED s = Inr t" "v \<notin> set (kb_client_keys t)"
  shows "secret v s t"
proof -
  let ?s = "next_serial s"
  have none: "List.find (\<lambda>k. k_value k = v) (kb_keys ?s) = None" using assms(2) by (simp add: find_None_all next_serial_def)
  show ?thesis
  proof (cases mem)
    case False
    with none assms(3) have "t = update_xkb_state lib v PRESSED ?s" by (simp add: keyboard_handle_key_def Let_def)
    with secret_trans[OF secret_next secret_xkb] show ?thesis by auto
  next
    case True
    with none assms(3) obtain k u where
      u: "offer lib mem' (kb_handlers ?s) \<lparr>k_value = v, k_serial = kb_serial ?s, k_data = None, k_handler = None\<rparr> ?s = Inr (k, u)"
      and t: "t = update_xkb_state lib v PRESSED (u\<lparr>kb_keys := kb_keys u @ [k]\<rparr>)"
      by (auto simp: keyboard_handle_key_def Let_def andThen_Inr)
    have s: "keyboard_ok ?s" by (rule quiet_ok[OF _ assms(1)]) simp
    have "k_handler k \<noteq> Some KClient"
      using offered[OF u] s assms(4) quiet_xkb[of "u\<lparr>kb_keys := kb_keys u @ [k]\<rparr>" lib v PRESSED]
      by (auto simp: t keyboard_ok_def quiet_def)
    with offer_hidden[OF u] have "secret v ?s u" by (simp add: secret_fields)
    then show ?thesis unfolding t
      by (intro secret_trans[OF secret_next secret_trans[OF _ secret_trans[OF secret_fields secret_xkb]]]) simp_all
  qed
qed

subsection \<open>Properties\<close>

text \<open>C33: in every run of the keyboard no two keys that are down have the same value, \<open>client_keys\<close> are
  the keys the client handler took, in the order they were pressed, and the events of a keyboard
  object of the focused client, and of no other, add up to exactly these keys.\<close>

theorem clients_know_the_keys:
  assumes "run_kops lib ops (keyboard_create lib ix owner vowner w) = Inr t"
    and "kops_ok lib ops (keyboard_create lib ix owner vowner w)"
  shows "distinct (map k_value (kb_keys t)) \<and>
    kb_client_keys t = map k_value (filter (\<lambda>k. k_handler k = Some KClient) (kb_keys t)) \<and>
    (\<forall>r \<in> set (f_active t). Some (f_owner t r) = f_client t \<and> client_view r (kb_events t) = kb_client_keys t) \<and>
    (\<forall>r \<in> set (f_inactive t). Some (f_owner t r) \<noteq> f_client t \<and> client_view r (kb_events t) = [])"
  using kops_keep[OF assms create_ok] by (auto simp: keyboard_ok_def keys_ok_def focus_ok_def informed_def)

text \<open>C35: the assertion of \<open>keyboard_reset\<close>, that releasing every key empties \<open>client_keys\<close>, holds.\<close>

theorem reset_assertion_holds:
  assumes "run_kops lib ops (keyboard_create lib ix owner vowner w) = Inr t"
    and "kops_ok lib ops (keyboard_create lib ix owner vowner w)"
  shows "keyboard_reset lib mem t \<noteq> Inl AssertionFailed"
  by (rule reset_ok(1)[OF kops_keep[OF assms create_ok]])

text \<open>C34: a key that a binding or an observer took is never seen by a client: not its press, not its
  release, however much later, and not in the keys a client is told when it gets the focus in
  between.\<close>

theorem taken_keys_stay_hidden:
  assumes "run_kops lib ops (keyboard_create lib ix owner vowner w) = Inr s"
    and "kops_ok lib ops (keyboard_create lib ix owner vowner w)"
    and "\<forall>k \<in> set (kb_keys s). k_value k \<noteq> v" "keyboard_handle_key lib mem1 mem2 v PRESSED s = Inr t"
    and "k \<in> set (kb_keys t)" "k_value k = v" "k_handler k \<noteq> Some KClient"
    and "run_kops lib ops' t = Inr u" "kops_ok lib ops' t" "\<forall>op \<in> set ops'. \<not> key_event_of v op"
    and "keyboard_handle_key lib mem3 mem4 v RELEASED u = Inr x"
  shows "\<exists>es. kb_events x = kb_events s @ es \<and> hides v es"
proof -
  have s: "keyboard_ok s" by (rule kops_keep[OF assms(1,2) create_ok])
  have t: "keyboard_ok t" by (rule key_ok[OF s assms(4)])
  have u: "keyboard_ok u" by (rule kops_keep[OF assms(8,9) t])
  have vs: "v \<notin> set (kb_client_keys s)" using s assms(3) by (auto simp: keyboard_ok_def keys_ok_def)
  have vt: "v \<notin> set (kb_client_keys t)"
  proof
    assume "v \<in> set (kb_client_keys t)"
    with t obtain j where "j \<in> set (kb_keys t)" "k_value j = v" "k_handler j = Some KClient"
      by (auto simp: keyboard_ok_def keys_ok_def)
    moreover have "inj_on k_value (set (kb_keys t))" using t by (auto simp: keyboard_ok_def keys_ok_def distinct_map)
    ultimately show False using assms(5-7) by (auto dest: inj_onD)
  qed
  obtain es where es: "kb_events t = kb_events s @ es" "hides v es"
    using pressed_hidden[OF s assms(3,4) vt] vs by (auto simp: secret_def)
  from secret_ops[OF assms(8,9) t assms(10)] vt obtain fs where
    fs: "v \<notin> set (kb_client_keys u)" "kb_events u = kb_events t @ fs" "hides v fs" by (auto simp: secret_def)
  from secret_release[OF _ assms(11), of v] u fs(1) obtain gs where "kb_events x = kb_events u @ gs" "hides v gs"
    by (auto simp: secret_def keyboard_ok_def)
  with es fs show ?thesis by auto
qed

lemma fold_modifiers_xkb: "kb_xkb (fold (run_modifiers lib) hs s) = kb_xkb s"
proof (induction hs arbitrary: s)
  case (Cons h hs)
  then show ?case by (cases h) (simp_all add: run_modifiers_def observer_handle_modifiers_def client_handle_modifiers_def
      next_serial_def kb_send_def Let_def)
qed simp

lemma xkb_updated: "kb_xkb (update_xkb_state lib v state s) = lib_update lib (kb_xkb s) (XKB_KEY v) (state = PRESSED)"
  by (simp add: update_xkb_state_def Let_def fold_modifiers_xkb)

text \<open>C36: a press that finds no memory for its key still goes to libxkbcommon, but its release is then
  unpaired and ignored: the key stays down in the state libxkbcommon keeps, and with it a modifier.\<close>

theorem press_without_memory_sticks:
  assumes "\<forall>k \<in> set (kb_keys s). k_value k \<noteq> v"
    and "run_kops lib [KeyEvent False mem v PRESSED, KeyEvent True mem' v RELEASED] s = Inr t"
  shows "kb_xkb t = lib_update lib (kb_xkb s) (XKB_KEY v) True"
proof -
  have none: "List.find (\<lambda>k. k_value k = v) (kb_keys s) = None" using assms(1) by (simp add: find_None_all)
  let ?u = "update_xkb_state lib v PRESSED (next_serial s)"
  have "List.find (\<lambda>k. k_value k = v) (kb_keys ?u) = None"
    using none quiet_xkb[of "next_serial s" lib v PRESSED] by (simp add: quiet_def next_serial_def)
  with none assms(2) have "t = next_serial ?u"
    by (auto simp: keyboard_handle_key_def next_serial_def Let_def)
  then show ?thesis by (simp add: next_serial_def xkb_updated)
qed

text \<open>a client that gets the focus is told the locked modifiers as latched and the latched ones as
  locked.\<close>

theorem enter_swaps_latched_and_locked:
  assumes "run_kops lib ops (keyboard_create lib ix owner vowner w) = Inr s"
    and "kops_ok lib ops (keyboard_create lib ix owner vowner w)"
    and "f_view s \<noteq> Some v" "r \<in> set (f_active s) \<union> set (f_inactive s)" "f_owner s r = f_vowner s v"
  shows "\<exists>es n. kb_events (keyboard_set_focus (Some v) s) = kb_events s @ es \<and>
    (r, KModifiers n (ms_depressed (kb_mods s)) (ms_locked (kb_mods s)) (ms_latched (kb_mods s)) (ms_group (kb_mods s))) \<in> set es"
proof -
  have s: "focus_ok s" using kops_keep[OF assms(1,2) create_ok] by (simp add: keyboard_ok_def)
  let ?u = "unfocus kb_leave s"
  define x where "x = ?u\<lparr>f_active := rev (filter (\<lambda>r. f_owner ?u r = f_vowner ?u v) (f_inactive ?u)) @ f_active ?u,
      f_inactive := filter (\<lambda>r. f_owner ?u r \<noteq> f_vowner ?u v) (f_inactive ?u), f_client := Some (f_vowner ?u v), f_view := Some v\<rparr>"
  have x: "kb_mods x = kb_mods s" "r \<in> set (f_active x)" "\<exists>es. kb_events x = kb_events s @ es"
    using assms(4,5) s
    by (auto simp: x_def unfocus_def kb_leave_def kb_send_def next_serial_def Let_def focus_ok_def)
  have "keyboard_set_focus (Some v) s = (kb_enter (f_active x) (Some v) x)\<lparr>f_changes := f_changes
      (kb_enter (f_active x) (Some v) x) @ [(f_view s, Some v)]\<rparr>"
    using assms(3) by (auto simp: keyboard_set_focus_def input_focus_set_def focus_def Let_def x_def)
  with x show ?thesis
    by (auto simp: kb_enter_def kb_send_def next_serial_def Let_def)
qed

subsection \<open>A keyboard\<close>

text \<open>One modifier key, 42, held while it is down; an observer that takes key 30; one client.\<close>

definition demo_lib :: "(u32, unit) klib" where
  "demo_lib = \<lparr>lib_new = 0, lib_update = (\<lambda>x key down. if key = 50 then if down then 1 else 0 else x),
     lib_mods = (\<lambda>x. no_mods\<lparr>ms_depressed := x\<rparr>), lib_sym = (\<lambda>x key. key), lib_level0 = (\<lambda>x key. None),
     lib_fire = (\<lambda>c w. w), lib_key = (\<lambda>impl. Some (\<lambda>data v st w. (v = 30, w))), lib_modifiers = (\<lambda>impl. None)\<rparr>"

definition demo_indices :: mod_indices where
  "demo_indices = \<lparr>ix_ctrl = 2, ix_alt = 3, ix_super = 6, ix_shift = 0, ix_mod3 = 5, ix_mod5 = 7\<rparr>"

definition demo :: "(u32, unit) keyboard" where
  "demo = keyboard_create demo_lib demo_indices (\<lambda>r. 7) (\<lambda>v. 7) ()"

definition comes_to :: "unit kop list \<Rightarrow> ((u32, unit) keyboard \<Rightarrow> bool) \<Rightarrow> bool" where
  "comes_to ops P \<longleftrightarrow> kops_ok demo_lib ops demo \<and> (case run_kops demo_lib ops demo of Inl _ \<Rightarrow> False | Inr t \<Rightarrow> P t)"

lemma comes_toE:
  assumes "comes_to ops P"
  obtains t where "run_kops demo_lib ops demo = Inr t" "kops_ok demo_lib ops demo" "P t"
  using assms by (auto simp: comes_to_def split: sum.splits)

lemma typing:
  "comes_to [BindKeyboard True 4 3, SetFocus (Some 9), KeyEvent True True 42 PRESSED]
     (\<lambda>t. f_active t = [3] \<and> kb_client_keys t = [42] \<and> kb_modifiers t = 8)"
  by code_simp

lemma typing_unfocused:
  "comes_to [BindKeyboard True 4 3, KeyEvent True True 42 PRESSED]
     (\<lambda>s. f_view s = None \<and> f_inactive s = [3] \<and> kb_modifiers s = 8 \<and> f_owner s 3 = f_vowner s 5)"
  by code_simp

lemma sticking:
  "comes_to [KeyEvent False True 42 PRESSED, KeyEvent True True 42 RELEASED] (\<lambda>t. kb_modifiers t = 8)"
  by code_simp

lemma observing:
  "comes_to [BindKeyboard True 4 3, AddObserver True True 0 0]
     (\<lambda>s. (\<forall>k \<in> set (kb_keys s). k_value k \<noteq> 30) \<and>
       (case keyboard_handle_key demo_lib True True 30 PRESSED s of
          Inl _ \<Rightarrow> False
        | Inr t \<Rightarrow>
            \<exists>k \<in> set (kb_keys t). k_value k = 30 \<and> k_handler k \<noteq> Some KClient \<and> kops_ok demo_lib [SetFocus (Some 9)] t \<and>
            (case run_kops demo_lib [SetFocus (Some 9)] t of
               Inl _ \<Rightarrow> False
             | Inr u \<Rightarrow> (case keyboard_handle_key demo_lib True True 30 RELEASED u of Inl _ \<Rightarrow> False | Inr x \<Rightarrow> True))))"
  by code_simp

theorem clients_know_the_keys_witness:
  "\<exists>t. run_kops demo_lib [BindKeyboard True 4 3, SetFocus (Some 9), KeyEvent True True 42 PRESSED] demo = Inr t \<and>
    client_view 3 (kb_events t) = [42]"
proof (rule comes_toE[OF typing])
  fix t
  assume t: "run_kops demo_lib [BindKeyboard True 4 3, SetFocus (Some 9), KeyEvent True True 42 PRESSED] demo = Inr t"
    "kops_ok demo_lib [BindKeyboard True 4 3, SetFocus (Some 9), KeyEvent True True 42 PRESSED] demo"
    and "f_active t = [3] \<and> kb_client_keys t = [42] \<and> kb_modifiers t = 8"
  then have "client_view 3 (kb_events t) = [42]" using clients_know_the_keys[OF t[unfolded demo_def]] by simp
  with t(1) show ?thesis by blast
qed

theorem reset_assertion_holds_witness:
  "\<exists>t :: (u32, unit) keyboard. kb_client_keys t = [42] \<and> keyboard_reset demo_lib True t \<noteq> Inl AssertionFailed"
proof (rule comes_toE[OF typing])
  fix t
  assume t: "run_kops demo_lib [BindKeyboard True 4 3, SetFocus (Some 9), KeyEvent True True 42 PRESSED] demo = Inr t"
    "kops_ok demo_lib [BindKeyboard True 4 3, SetFocus (Some 9), KeyEvent True True 42 PRESSED] demo"
    and "f_active t = [3] \<and> kb_client_keys t = [42] \<and> kb_modifiers t = 8"
  then have "kb_client_keys t = [42]" by (elim conjE)
  then show ?thesis using reset_assertion_holds[OF t[unfolded demo_def]] by (intro exI[of _ t] conjI)
qed

theorem enter_swaps_latched_and_locked_witness:
  "\<exists>(s :: (u32, unit) keyboard) es n. kb_modifiers s = 8 \<and> kb_events (keyboard_set_focus (Some 5) s) = kb_events s @ es \<and>
    (3, KModifiers n (ms_depressed (kb_mods s)) (ms_locked (kb_mods s)) (ms_latched (kb_mods s)) (ms_group (kb_mods s))) \<in> set es"
proof (rule comes_toE[OF typing_unfocused])
  fix s
  assume t: "run_kops demo_lib [BindKeyboard True 4 3, KeyEvent True True 42 PRESSED] demo = Inr s"
    "kops_ok demo_lib [BindKeyboard True 4 3, KeyEvent True True 42 PRESSED] demo"
    and s: "f_view s = None \<and> f_inactive s = [3] \<and> kb_modifiers s = 8 \<and> f_owner s 3 = f_vowner s 5"
  have "\<exists>es n. kb_events (keyboard_set_focus (Some 5) s) = kb_events s @ es \<and>
    (3, KModifiers n (ms_depressed (kb_mods s)) (ms_locked (kb_mods s)) (ms_latched (kb_mods s)) (ms_group (kb_mods s))) \<in> set es"
    by (rule enter_swaps_latched_and_locked[OF t[unfolded demo_def]]) (use s in simp_all)
  moreover have "kb_modifiers s = 8" using s by simp
  ultimately show ?thesis by blast
qed

theorem taken_keys_stay_hidden_witness:
  "\<exists>s t u x es. keyboard_handle_key demo_lib True True 30 PRESSED s = Inr t \<and>
    run_kops demo_lib [SetFocus (Some 9)] t = Inr u \<and>
    keyboard_handle_key demo_lib True True 30 RELEASED u = Inr x \<and> kb_events x = kb_events s @ es \<and> hides 30 es"
proof (rule comes_toE[OF observing])
  fix s
  let ?ops = "[BindKeyboard True 4 3, AddObserver True True 0 0]"
  assume r: "run_kops demo_lib ?ops demo = Inr s" "kops_ok demo_lib ?ops demo"
    and p: "(\<forall>k \<in> set (kb_keys s). k_value k \<noteq> 30) \<and>
       (case keyboard_handle_key demo_lib True True 30 PRESSED s of
          Inl _ \<Rightarrow> False
        | Inr t \<Rightarrow>
            \<exists>k \<in> set (kb_keys t). k_value k = 30 \<and> k_handler k \<noteq> Some KClient \<and> kops_ok demo_lib [SetFocus (Some 9)] t \<and>
            (case run_kops demo_lib [SetFocus (Some 9)] t of
               Inl _ \<Rightarrow> False
             | Inr u \<Rightarrow> (case keyboard_handle_key demo_lib True True 30 RELEASED u of Inl _ \<Rightarrow> False | Inr x \<Rightarrow> True)))"
  from p obtain t k where t: "keyboard_handle_key demo_lib True True 30 PRESSED s = Inr t"
    "k \<in> set (kb_keys t)" "k_value k = 30" "k_handler k \<noteq> Some KClient" "kops_ok demo_lib [SetFocus (Some 9)] t"
    and "case run_kops demo_lib [SetFocus (Some 9)] t of
               Inl _ \<Rightarrow> False
             | Inr u \<Rightarrow> (case keyboard_handle_key demo_lib True True 30 RELEASED u of Inl _ \<Rightarrow> False | Inr x \<Rightarrow> True)"
    by (elim conjE, cases "keyboard_handle_key demo_lib True True 30 PRESSED s") (simp, auto simp only: sum.case)
  then obtain u x where u: "run_kops demo_lib [SetFocus (Some 9)] t = Inr u"
    "keyboard_handle_key demo_lib True True 30 RELEASED u = Inr x"
    by (auto simp del: run_kops.simps split: sum.splits)
  have "\<exists>es. kb_events x = kb_events s @ es \<and> hides 30 es"
    by (rule taken_keys_stay_hidden[OF r[unfolded demo_def] conjunct1[OF p] t(1-4) u(1) t(5) _ u(2)])
      (simp add: key_event_of_def)
  with t(1) u show ?thesis by blast
qed

theorem press_without_memory_sticks_witness:
  "\<exists>t. run_kops demo_lib [KeyEvent False True 42 PRESSED, KeyEvent True True 42 RELEASED] demo = Inr t \<and>
    kb_modifiers t = 8 \<and> kb_xkb t = lib_update demo_lib (kb_xkb demo) (XKB_KEY 42) True"
proof (rule comes_toE[OF sticking])
  fix t
  assume t: "run_kops demo_lib [KeyEvent False True 42 PRESSED, KeyEvent True True 42 RELEASED] demo = Inr t"
    and "kb_modifiers t = 8"
  moreover have "kb_xkb t = lib_update demo_lib (kb_xkb demo) (XKB_KEY 42) True"
    by (rule press_without_memory_sticks[OF _ t]) (simp add: demo_def keyboard_create_def)
  ultimately show ?thesis by blast
qed

end
