(* ===== verification/KeyRiver.thy ===== *)
theory KeyRiver
  imports KeyRouting RiverManager
begin

text \<open>
  The keyboard, the bindings of \<open>bindings.c\<close> and the observer of \<open>wm/river_wm.c\<close> together: what
  becomes of a key that a key binding of the window manager is for.
\<close>

text \<open>The library whose observers are \<open>keyboard_observer\<close> of the bridge.\<close>

definition with_river :: "('x, 'a rstate_scheme) klib \<Rightarrow> ('x, 'a rstate_scheme) klib" where
  "with_river lib = lib\<lparr>
     lib_key := (\<lambda>impl. Some (\<lambda>data keycode state w. binding_observe_key keycode (state = RELEASED) w)),
     lib_modifiers := (\<lambda>impl. Some (\<lambda>data previous current w. binding_observe_modifiers previous current w))\<rparr>"

text \<open>What queueing events changes.\<close>

definition queues :: "'a rstate_scheme \<Rightarrow> 'a rstate_scheme \<Rightarrow> bool" where
  "queues w x \<longleftrightarrow>
     wm_bind x = wm_bind w \<and> wm_key_bindings x = wm_key_bindings w \<and> ws_mem x = ws_mem w \<and>
     (\<exists>q. wm_queue x = wm_queue w @ q)"

lemma queues_refl [simp]: "queues w w"
  by (simp add: queues_def)

lemma queues_trans: "queues w x \<Longrightarrow> queues x y \<Longrightarrow> queues w y"
  by (auto simp: queues_def)

lemma queue_event_fields:
  "wm_bind (queue_event e w) = wm_bind w" "wm_key_bindings (queue_event e w) = wm_key_bindings w"
  "ws_mem (queue_event e w) = ws_mem w" "wm_queue (queue_event e w) = (if ws_mem w then wm_queue w @ [e] else wm_queue w)"
  by (simp_all add: queue_event_def schedule_sequence_def Let_def)

lemma queues_event: "queues w (queue_event e w)"
  by (simp add: queues_def queue_event_fields)

lemma queues_fold: "(\<And>b w. queues w (f b w)) \<Longrightarrow> queues w (fold f bs w)"
  by (induction bs arbitrary: w) (auto intro: queues_trans)

lemma queues_observe_modifiers: "queues w (binding_observe_modifiers p c w)"
  by (simp add: binding_observe_modifiers_def queues_event)

lemma queues_observers: "queues w (fold (\<lambda>(impl, data). binding_observe_modifiers p c) os w)"
  by (rule queues_fold) (auto simp: queues_observe_modifiers)

lemma queues_modifiers: "queues (kb_world s) (kb_world (run_modifiers (with_river lib) h s))"
proof (cases h)
  case KObservers
  then show ?thesis
    by (simp add: run_modifiers_def observer_handle_modifiers_def with_river_def queues_observers Let_def)
qed (simp_all add: run_modifiers_def client_handle_modifiers_def next_serial_def kb_send_def Let_def)

lemma queues_run_modifiers: "queues (kb_world s) (kb_world (fold (run_modifiers (with_river lib)) hs s))"
  by (induction hs arbitrary: s) (auto intro: queues_trans queues_modifiers)

lemma queues_xkb: "queues (kb_world s) (kb_world (update_xkb_state (with_river lib) v state s))"
  using queues_run_modifiers[where s = "s\<lparr>kb_xkb := x, kb_mods := m, kb_modifiers := n\<rparr>" for x m n]
  by (simp add: update_xkb_state_def Let_def)

text \<open>The key binding that matches a key is pressed, and released with it.\<close>

lemma observed_press:
  assumes "List.find (\<lambda>b. binding_matches (rbind w b) v (en_modifiers (wm_env w) AND NOT (en_consumed (wm_env w) v)) (wm_env w))
      (wm_key_bindings w) = Some b"
    and "ws_mem w" "wm_bind w b \<noteq> None"
  shows "\<exists>x. binding_observe_key v False w = (True, x) \<and> wm_key_bindings x = wm_key_bindings w \<and> ws_mem x \<and>
    wm_bind x = (wm_bind w)(b \<mapsto> (rbind w b)\<lparr>rb_held := Some v\<rparr>) \<and> (\<exists>q. wm_queue x = wm_queue w @ q @ [BPressed b])"
proof -
  define y where "y = fold (\<lambda>c s. if rb_held (rbind s c) \<noteq> None \<and> Some c \<noteq> Some b then queue_event (BStopRepeat c) s else s)
    (wm_key_bindings w) w"
  have "queues w y" unfolding y_def by (rule queues_fold) (simp add: queues_event)
  then obtain q where y: "wm_bind y = wm_bind w" "wm_key_bindings y = wm_key_bindings w" "ws_mem y" "wm_queue y = wm_queue w @ q"
    using assms(2) by (auto simp: queues_def)
  have "binding_observe_key v False w = (True, (queue_event (BPressed b) (updrb b (\<lambda>x. x\<lparr>rb_held := Some v\<rparr>) y))\<lparr>wm_eat_next_key := False\<rparr>)"
    using assms(1) by (simp add: binding_observe_key_def Let_def y_def)
  then show ?thesis using y assms(3) by (auto simp: queue_event_fields updrb_def rbind_def)
qed

lemma observed_release:
  assumes "b \<in> set (wm_key_bindings w)" "rb_held (rbind w b) = Some v"
    and "\<And>c. c \<in> set (wm_key_bindings w) \<Longrightarrow> c \<noteq> b \<Longrightarrow> rb_held (rbind w c) \<noteq> Some v" "ws_mem w"
  shows "\<exists>x. binding_observe_key v True w = (True, x) \<and> wm_queue x = wm_queue w @ [BReleased b]"
proof -
  obtain c where c: "List.find (\<lambda>b. rb_held (rbind w b) = Some v) (wm_key_bindings w) = Some c"
    using assms(1,2) by (cases "List.find (\<lambda>b. rb_held (rbind w b) = Some v) (wm_key_bindings w)") (auto simp: find_None_all)
  with assms(3) have "c = b" by (auto dest: find_SomeD)
  with c assms(4) show ?thesis by (simp add: binding_observe_key_def queue_event_fields updrb_def)
qed

lemma find_snoc: "List.find P xs = None \<Longrightarrow> List.find P (xs @ [x]) = (if P x then Some x else None)"
  by (induction xs) (auto split: if_splits)

lemma fold_modifiers_observers: "kb_observers (fold (run_modifiers lib) hs s) = kb_observers s"
proof (induction hs arbitrary: s)
  case (Cons h hs)
  then show ?case by (cases h) (simp_all add: run_modifiers_def observer_handle_modifiers_def client_handle_modifiers_def
      next_serial_def kb_send_def Let_def)
qed simp

lemma xkb_observers [simp]: "kb_observers (update_xkb_state lib v state s) = kb_observers s"
  by (simp add: update_xkb_state_def Let_def fold_modifiers_observers)


subsection \<open>A key binding of the window manager\<close>

definition plain_lib :: "(u32, rstate) klib" where
  "plain_lib = \<lparr>lib_new = 0, lib_update = (\<lambda>x key down. x), lib_mods = (\<lambda>x. no_mods), lib_sym = (\<lambda>x key. key),
     lib_level0 = (\<lambda>x key. None), lib_fire = (\<lambda>c w. w), lib_key = (\<lambda>impl. None), lib_modifiers = (\<lambda>impl. None)\<rparr>"

text \<open>A binding for keysym 30, enabled.\<close>

definition one_binding :: rstate where
  "one_binding = (case run_ops [Bnd (Key_binding 1 30 0), Bnd (Enable False 0)] two_windows of
     Inl _ \<Rightarrow> two_windows | Inr w \<Rightarrow> w)"

definition river_keyboard :: "(u32, rstate) keyboard" where
  "river_keyboard = fst (swc_add_keyboard_observer True True 0 0
     (keyboard_bind True 4 3 (keyboard_create (with_river plain_lib) demo_indices (\<lambda>r. 7) (\<lambda>v. 7) one_binding)))"

lemma river_keyboard_state:
  "kb_handlers river_keyboard = [KBindings, KObservers, KClient] \<and> kb_observers river_keyboard = [(0, 0)] \<and>
   kb_keys river_keyboard = [] \<and> ws_mem (kb_world river_keyboard) \<and>
   find_key_binding (kb_bindings river_keyboard) (lib_sym plain_lib (kb_xkb river_keyboard) (XKB_KEY 30))
     (lib_level0 plain_lib (kb_xkb river_keyboard) (XKB_KEY 30)) (kb_modifiers river_keyboard) = None"
  by code_simp

lemma river_keyboard_binding:
  "wm_key_bindings (kb_world river_keyboard) = [1] \<and>
   (\<forall>c \<in> set (wm_key_bindings (kb_world river_keyboard)).
      wm_bind (kb_world river_keyboard) c \<noteq> None \<and> rb_held (rbind (kb_world river_keyboard) c) \<noteq> Some 30) \<and>
   List.find (\<lambda>b. binding_matches (rbind (kb_world river_keyboard) b) 30
       (en_modifiers (wm_env (kb_world river_keyboard)) AND NOT (en_consumed (wm_env (kb_world river_keyboard)) 30))
       (wm_env (kb_world river_keyboard)))
     (wm_key_bindings (kb_world river_keyboard)) = Some 1"
  by code_simp


end
