(* ===== verification/XdgShell.thy ===== *)
theory XdgShell
  imports Cohort Interactive
begin

text \<open>
  \<open>libswc/xdg_shell.c\<close>: positioners and the place of a popup, the roles of an \<open>xdg_surface\<close>, toplevels
  and popups, the acknowledgement of configures, and the window geometry. The functions of a toplevel
  that \<open>window.c\<close> calls (\<open>configure\<close>, \<open>focus\<close>, ...) are in \<open>WindowState\<close>.

  A protocol object is known by its id; \<open>x_data\<close> is its user data with the interface it was
  created for, \<open>XBare\<close> for one whose implementation was never set. The destroy listeners of a role
  are run by \<open>forget_role\<close>. Allocations and \<open>wl_resource_create\<close> succeed or fail as the arguments say.
\<close>

subsection \<open>Positioners\<close>

record xdg_positioner =
  ps_width :: i32
  ps_height :: i32
  ps_anchor_x :: i32
  ps_anchor_y :: i32
  ps_anchor_width :: i32
  ps_anchor_height :: i32
  ps_anchor :: u32
  ps_gravity :: u32
  ps_constraint :: u32
  ps_offset_x :: i32
  ps_offset_y :: i32

definition new_positioner :: xdg_positioner where
  "new_positioner = \<lparr>ps_width = 0, ps_height = 0, ps_anchor_x = 0, ps_anchor_y = 0, ps_anchor_width = 0,
     ps_anchor_height = 0, ps_anchor = 0, ps_gravity = 0, ps_constraint = 0, ps_offset_x = 0, ps_offset_y = 0\<rparr>"

text \<open>Requests on a positioner. \<open>None\<close> is the error \<open>XDG_POSITIONER_ERROR_INVALID_INPUT\<close>.\<close>

definition set_size :: "i32 \<Rightarrow> i32 \<Rightarrow> xdg_positioner \<Rightarrow> xdg_positioner option" where
  "set_size width height p =
     (if sint width \<le> 0 \<or> sint height \<le> 0 then None else Some (p\<lparr>ps_width := width, ps_height := height\<rparr>))"

definition set_anchor_rect :: "i32 \<Rightarrow> i32 \<Rightarrow> i32 \<Rightarrow> i32 \<Rightarrow> xdg_positioner \<Rightarrow> xdg_positioner option" where
  "set_anchor_rect x y width height p =
     (if sint width \<le> 0 \<or> sint height \<le> 0 then None
      else Some (p\<lparr>ps_anchor_x := x, ps_anchor_y := y, ps_anchor_width := width, ps_anchor_height := height\<rparr>))"

definition set_anchor :: "u32 \<Rightarrow> xdg_positioner \<Rightarrow> xdg_positioner" where
  "set_anchor anchor p = p\<lparr>ps_anchor := anchor\<rparr>"

definition set_gravity :: "u32 \<Rightarrow> xdg_positioner \<Rightarrow> xdg_positioner" where
  "set_gravity gravity p = p\<lparr>ps_gravity := gravity\<rparr>"

definition set_constraint_adjustment :: "u32 \<Rightarrow> xdg_positioner \<Rightarrow> xdg_positioner" where
  "set_constraint_adjustment constraint p = p\<lparr>ps_constraint := constraint\<rparr>"

definition set_offset :: "i32 \<Rightarrow> i32 \<Rightarrow> xdg_positioner \<Rightarrow> xdg_positioner" where
  "set_offset x y p = p\<lparr>ps_offset_x := x, ps_offset_y := y\<rparr>"

text \<open>The values of \<open>enum xdg_positioner_anchor\<close>; those of the gravity are the same.\<close>

abbreviation (input) ANCHOR_TOP :: u32 where "ANCHOR_TOP \<equiv> 1"
abbreviation (input) ANCHOR_BOTTOM :: u32 where "ANCHOR_BOTTOM \<equiv> 2"
abbreviation (input) ANCHOR_LEFT :: u32 where "ANCHOR_LEFT \<equiv> 3"
abbreviation (input) ANCHOR_RIGHT :: u32 where "ANCHOR_RIGHT \<equiv> 4"
abbreviation (input) ANCHOR_TOP_LEFT :: u32 where "ANCHOR_TOP_LEFT \<equiv> 5"
abbreviation (input) ANCHOR_BOTTOM_LEFT :: u32 where "ANCHOR_BOTTOM_LEFT \<equiv> 6"
abbreviation (input) ANCHOR_TOP_RIGHT :: u32 where "ANCHOR_TOP_RIGHT \<equiv> 7"
abbreviation (input) ANCHOR_BOTTOM_RIGHT :: u32 where "ANCHOR_BOTTOM_RIGHT \<equiv> 8"

text \<open>Half of a signed integer, rounded towards zero.\<close>

definition half :: "i32 \<Rightarrow> i32" where
  "half x = word_of_int (sgn (sint x) * (\<bar>sint x\<bar> div 2))"

text \<open>The anchor's part and the gravity's part of a coordinate are added in the order of the code;
  \<open>r.width\<close> and \<open>r.height\<close> are unsigned.\<close>

definition anchored_y :: "xdg_positioner \<Rightarrow> i32 \<Rightarrow> i32" where
  "anchored_y p y =
     (if ps_anchor p \<in> {ANCHOR_TOP, ANCHOR_TOP_LEFT, ANCHOR_TOP_RIGHT} then y + ps_anchor_y p
      else if ps_anchor p \<in> {ANCHOR_BOTTOM, ANCHOR_BOTTOM_LEFT, ANCHOR_BOTTOM_RIGHT}
      then y + (ps_anchor_y p + ps_anchor_height p)
      else y + (ps_anchor_y p + half (ps_anchor_height p)))"

definition anchored_x :: "xdg_positioner \<Rightarrow> i32 \<Rightarrow> i32" where
  "anchored_x p x =
     (if ps_anchor p \<in> {ANCHOR_LEFT, ANCHOR_TOP_LEFT, ANCHOR_BOTTOM_LEFT} then x + ps_anchor_x p
      else if ps_anchor p \<in> {ANCHOR_RIGHT, ANCHOR_TOP_RIGHT, ANCHOR_BOTTOM_RIGHT}
      then x + (ps_anchor_x p + ps_anchor_width p)
      else x + (ps_anchor_x p + half (ps_anchor_width p)))"

definition gravity_y :: "xdg_positioner \<Rightarrow> u32 \<Rightarrow> i32 \<Rightarrow> i32" where
  "gravity_y p height y =
     (if ps_gravity p \<in> {ANCHOR_TOP, ANCHOR_TOP_LEFT, ANCHOR_TOP_RIGHT} then y - height
      else if ps_gravity p \<in> {ANCHOR_BOTTOM, ANCHOR_BOTTOM_LEFT, ANCHOR_BOTTOM_RIGHT} then y
      else y - height div 2)"

definition gravity_x :: "xdg_positioner \<Rightarrow> u32 \<Rightarrow> i32 \<Rightarrow> i32" where
  "gravity_x p width x =
     (if ps_gravity p \<in> {ANCHOR_LEFT, ANCHOR_TOP_LEFT, ANCHOR_BOTTOM_LEFT} then x - width
      else if ps_gravity p \<in> {ANCHOR_RIGHT, ANCHOR_TOP_RIGHT, ANCHOR_BOTTOM_RIGHT} then x
      else x - width div 2)"

definition calculate_position :: "xdg_positioner \<Rightarrow> rect" where
  "calculate_position p =
     \<lparr>r_x = gravity_x p (ps_width p) (anchored_x p (ps_offset_x p)),
      r_y = gravity_y p (ps_height p) (anchored_y p (ps_offset_y p)),
      r_w = ps_width p, r_h = ps_height p\<rparr>"

subsection \<open>State\<close>

record xdg_surface =
  xs_resource :: nat
  xs_role :: "nat option"
  xs_surface :: addr
  xs_serial :: u32

record xdg_popup =
  xp_resource :: nat
  xp_surface :: addr
  xp_positioner :: xdg_positioner
  xp_view :: addr

datatype xdata = XSurface addr | XToplevel addr | XPopup addr | XPositioner xdg_positioner | XBare

datatype xevent =
    XRoleError | XInvalidInput | XNoMemory | XPopupConfigure i32 i32 u32 u32 | XSurfaceConfigure u32

text \<open>\<open>x_top w\<close> are \<open>resource\<close> and \<open>xdg_surface\<close> of the toplevel whose window is \<open>w\<close>, \<open>x_role f\<close> is the
  role of surface \<open>f\<close>, \<open>x_applied f\<close> its \<open>window_geometry_applied\<close>. While an \<open>xdg_surface\<close> has a
  toplevel, its \<open>configure_serial\<close> is \<open>w_xdg_serial\<close> of the window; otherwise it is \<open>xs_serial\<close>.\<close>

record xstate = wstate +
  x_surf :: "addr \<Rightarrow> xdg_surface option"
  x_pop :: "addr \<Rightarrow> xdg_popup option"
  x_top :: "addr \<Rightarrow> (nat \<times> addr) option"
  x_data :: "nat \<Rightarrow> xdata option"
  x_role :: "addr \<Rightarrow> nat option"
  x_applied :: "addr \<Rightarrow> bool"
  x_next :: nat
  x_events :: "(nat \<times> xevent) list"

definition xsend :: "nat \<Rightarrow> xevent \<Rightarrow> 'a xstate_scheme \<Rightarrow> 'a xstate_scheme" where
  "xsend r e s = s\<lparr>x_events := x_events s @ [(r, e)]\<rparr>"

definition xsurf :: "'a xstate_scheme \<Rightarrow> addr \<Rightarrow> xdg_surface" where
  "xsurf s a = the (x_surf s a)"

definition updxs :: "addr \<Rightarrow> (xdg_surface \<Rightarrow> xdg_surface) \<Rightarrow> 'a xstate_scheme \<Rightarrow> 'a xstate_scheme" where
  "updxs a f s = s\<lparr>x_surf := (x_surf s)(a := map_option f (x_surf s a))\<rparr>"

text \<open>\<open>wl_resource_create\<close>, before an implementation is set.\<close>

definition new_id :: "'a xstate_scheme \<Rightarrow> nat \<times> 'a xstate_scheme" where
  "new_id s = (x_next s, s\<lparr>x_next := Suc (x_next s), x_data := (x_data s)(x_next s \<mapsto> XBare)\<rparr>)"

definition set_implementation :: "nat \<Rightarrow> xdata \<Rightarrow> 'a xstate_scheme \<Rightarrow> 'a xstate_scheme" where
  "set_implementation r d s = s\<lparr>x_data := (x_data s)(r \<mapsto> d)\<rparr>"

definition surface_set_role :: "addr \<Rightarrow> nat \<Rightarrow> 'a xstate_scheme \<Rightarrow> bool \<times> 'a xstate_scheme" where
  "surface_set_role f r s =
     (if x_role s f \<noteq> None then (False, s) else (True, s\<lparr>x_role := (x_role s)(f \<mapsto> r)\<rparr>))"

text \<open>The destroy listeners of a role object, \<open>handle_role_destroy\<close> and the one of the surface; then
  the object is gone.\<close>

definition handle_role_destroy :: "nat \<Rightarrow> addr \<Rightarrow> xdg_surface option \<Rightarrow> xdg_surface option" where
  "handle_role_destroy r a x = map_option (\<lambda>x. if xs_role x = Some r then x\<lparr>xs_role := None\<rparr> else x) x"

definition forget_role :: "nat \<Rightarrow> 'a xstate_scheme \<Rightarrow> 'a xstate_scheme" where
  "forget_role r s =
     s\<lparr>x_surf := (\<lambda>a. handle_role_destroy r a (x_surf s a)),
       x_role := (\<lambda>f. if x_role s f = Some r then None else x_role s f), x_data := (x_data s)(r := None)\<rparr>"

subsection \<open>Toplevels\<close>

text \<open>\<open>mem1\<close>: the toplevel could be allocated, at \<open>w\<close>, with the contents \<open>old\<close>; \<open>mem2\<close>: its resource
  could be created; \<open>view\<close>: the address of a new view.\<close>

definition xdg_toplevel_new ::
  "bool \<Rightarrow> bool \<Rightarrow> addr \<Rightarrow> window \<Rightarrow> addr option \<Rightarrow> addr \<Rightarrow> 'a xstate_scheme \<Rightarrow> nat option \<times> 'a xstate_scheme" where
  "xdg_toplevel_new mem1 mem2 w old view a s =
     (if \<not> mem1 \<or> \<not> mem2 then (None, s)
      else
        let (r, s) = new_id s; f = xs_surface (xsurf s a);
            (ok, s) = surface_set_role f r s
        in if \<not> ok then (None, forget_role r s)
           else
             let (ok, s) = window_initialize w old Xdg f view s
             in if \<not> ok then (None, forget_role r s)
                else
                  let s = updw w (\<lambda>x. x\<lparr>w_states := [], w_xdg_serial := xs_serial (xsurf s a)\<rparr>) s;
                      s = set_implementation r (XToplevel w) (s\<lparr>x_top := (x_top s)(w \<mapsto> (r, a))\<rparr>)
                  in (Some r, window_manage w s))"

definition has_role :: "addr \<Rightarrow> 'a xstate_scheme \<Rightarrow> bool" where
  "has_role a s \<longleftrightarrow> xs_role (xsurf s a) \<noteq> None \<or> x_role s (xs_surface (xsurf s a)) \<noteq> None"

text \<open>Requests on an \<open>xdg_surface\<close>; \<open>a\<close> is its user data, \<open>r\<close> the object.\<close>

definition get_toplevel ::
  "bool \<Rightarrow> bool \<Rightarrow> addr \<Rightarrow> window \<Rightarrow> addr option \<Rightarrow> nat \<Rightarrow> addr \<Rightarrow> 'a xstate_scheme \<Rightarrow> 'a xstate_scheme" where
  "get_toplevel mem1 mem2 w old view r a s =
     (if has_role a s then xsend r XRoleError s
      else case xdg_toplevel_new mem1 mem2 w old view a s of
             (None, s) \<Rightarrow> xsend r XNoMemory s
           | (Some q, s) \<Rightarrow> updxs a (\<lambda>x. x\<lparr>xs_role := Some q\<rparr>) s)"

text \<open>Requests on a toplevel, on its window.\<close>

definition top_set_parent :: "addr \<Rightarrow> addr option \<Rightarrow> 'a xstate_scheme \<Rightarrow> 'a xstate_scheme result" where
  "top_set_parent w parent s = window_set_parent w parent s"

definition top_set_title :: "addr \<Rightarrow> string \<Rightarrow> 'a xstate_scheme \<Rightarrow> 'a xstate_scheme" where
  "top_set_title w title s = window_set_title w title None s"

definition top_set_app_id :: "addr \<Rightarrow> string \<Rightarrow> 'a xstate_scheme \<Rightarrow> 'a xstate_scheme" where
  "top_set_app_id w app_id s = window_set_app_id w app_id s"

definition show_window_menu :: "addr \<Rightarrow> i32 \<Rightarrow> i32 \<Rightarrow> 'a xstate_scheme \<Rightarrow> 'a xstate_scheme" where
  "show_window_menu w x y s = window_request_window_menu w x y s"

definition top_move :: "addr \<Rightarrow> u32 \<Rightarrow> 'a xstate_scheme \<Rightarrow> 'a xstate_scheme" where
  "top_move w serial s =
     (case pointer_get_button serial s of None \<Rightarrow> s | Some b \<Rightarrow> window_begin_move w (Some b) s)"

definition top_resize :: "addr \<Rightarrow> u32 \<Rightarrow> u32 \<Rightarrow> 'a xstate_scheme \<Rightarrow> 'a xstate_scheme" where
  "top_resize w serial edges s =
     (case pointer_get_button serial s of None \<Rightarrow> s | Some b \<Rightarrow> window_begin_resize w edges (Some b) s)"

definition set_maximized :: "addr \<Rightarrow> 'a xstate_scheme \<Rightarrow> 'a xstate_scheme" where
  "set_maximized w s = window_request_maximize w s"

definition unset_maximized :: "addr \<Rightarrow> 'a xstate_scheme \<Rightarrow> 'a xstate_scheme" where
  "unset_maximized w s = window_request_unmaximize w s"

definition set_minimized :: "addr \<Rightarrow> 'a xstate_scheme \<Rightarrow> 'a xstate_scheme" where
  "set_minimized w s = window_request_minimize w s"

subsection \<open>Popups\<close>

text \<open>The view of the parent's surface, and the place of the popup in it. Without memory for the
  resource the popup is not freed; when the surface has a role the resource is not destroyed.\<close>

definition xdg_popup_new ::
  "bool \<Rightarrow> bool \<Rightarrow> addr \<Rightarrow> addr option \<Rightarrow> addr \<Rightarrow> addr \<Rightarrow> xdg_positioner \<Rightarrow> 'a xstate_scheme \<Rightarrow>
   (nat option \<times> 'a xstate_scheme) result" where
  "xdg_popup_new mem1 mem2 p view a parent positioner s =
     (let parent_view = sf_view (c_surf s (xs_surface (xsurf s parent)));
          serial = ws_next_serial s; s = s\<lparr>ws_next_serial := serial + 1\<rparr>
      in case parent_view of
           None \<Rightarrow> Inr (None, s)
         | Some pv \<Rightarrow>
             if \<not> mem1 \<or> \<not> mem2 then Inr (None, s)
             else
               let (r, s) = new_id s; f = xs_surface (xsurf s a);
                   (ok, s) = surface_set_role f r s
               in if \<not> ok then Inr (None, s)
                  else
                    let (v, s) = compositor_create_view (ws_renderer s (the view)) view f s
                    in case v of
                         None \<Rightarrow> Inr (None, forget_role r s)
                       | Some v \<Rightarrow>
                           let s = set_implementation r (XPopup p) (s\<lparr>x_pop := (x_pop s)(p \<mapsto>
                                     \<lparr>xp_resource = r, xp_surface = a, xp_positioner = positioner, xp_view = v\<rparr>)\<rparr>);
                               g = calculate_position positioner
                           in andThen (fuelled (compositor_view_set_parent v (Some pv) s)) (\<lambda>s.
                                let s = view_move v (r_x (v_geom (cv s pv)) + r_x g) (r_y (v_geom (cv s pv)) + r_y g) s;
                                    s = xsend r (XPopupConfigure (r_x g) (r_y g) (r_w g) (r_h g)) s
                                in Inr (Some r, xsend (xs_resource (xsurf s a)) (XSurfaceConfigure serial) s)))"

text \<open>\<open>parent\<close> is the user data of the parent's object, \<open>None\<close> when the request has no parent:
  \<open>wl_resource_get_user_data\<close> of a null pointer.\<close>

definition get_popup ::
  "bool \<Rightarrow> bool \<Rightarrow> addr \<Rightarrow> addr option \<Rightarrow> nat \<Rightarrow> addr \<Rightarrow> addr option \<Rightarrow> xdg_positioner \<Rightarrow> 'a xstate_scheme \<Rightarrow>
   'a xstate_scheme result" where
  "get_popup mem1 mem2 p view r a parent positioner s =
     (case parent of
        None \<Rightarrow> Inl NullDereference
      | Some b \<Rightarrow>
          if has_role a s then Inr (xsend r XRoleError s)
          else andThen (xdg_popup_new mem1 mem2 p view a b positioner s) (\<lambda>(q, s). Inr (case q of
                 None \<Rightarrow> xsend r XNoMemory s
               | Some q \<Rightarrow> updxs a (\<lambda>x. x\<lparr>xs_role := Some q\<rparr>) s)))"

subsection \<open>Acknowledging, and the window geometry\<close>

definition configure_serial :: "addr \<Rightarrow> 'a xstate_scheme \<Rightarrow> u32" where
  "configure_serial a s =
     (case xs_role (xsurf s a) of
        None \<Rightarrow> xs_serial (xsurf s a)
      | Some q \<Rightarrow> (case x_data s q of Some (XToplevel w) \<Rightarrow> w_xdg_serial (win s w) | _ \<Rightarrow> xs_serial (xsurf s a)))"

text \<open>The user data of the role is taken for a window, also when it is a popup: what is then written
  is no window.\<close>

definition ack_configure :: "u32 \<Rightarrow> addr \<Rightarrow> 'a xstate_scheme \<Rightarrow> 'a xstate_scheme result" where
  "ack_configure serial a s =
     (case xs_role (xsurf s a) of
        None \<Rightarrow> Inr s
      | Some q \<Rightarrow>
          if serial \<noteq> configure_serial a s then Inr s
          else case x_data s q of
                 Some (XToplevel w) \<Rightarrow> Inr (window_ack_configure w s)
               | Some (XPopup p) \<Rightarrow> Inl UseAfterFree
               | _ \<Rightarrow> Inr s)"

definition set_window_geometry :: "i32 \<Rightarrow> i32 \<Rightarrow> i32 \<Rightarrow> i32 \<Rightarrow> addr \<Rightarrow> 'a xstate_scheme \<Rightarrow> 'a xstate_scheme" where
  "set_window_geometry x y width height a s =
     (let f = xs_surface (xsurf s a)
      in if sint width \<le> 0 \<or> sint height \<le> 0 then upd_surf f (\<lambda>c. c\<lparr>sf_has_wg := False\<rparr>) s
         else
           let s = upd_surf f (\<lambda>c. c\<lparr>sf_has_wg := True, sf_wx := x, sf_wy := y, sf_ww := width, sf_wh := height\<rparr>) s
           in case sf_view (c_surf s f) of
                None \<Rightarrow> s
              | Some v \<Rightarrow>
                  if \<not> x_applied s f \<and> (x \<noteq> 0 \<or> y \<noteq> 0)
                  then (view_move v (r_x (v_geom (cv s v)) - x) (r_y (v_geom (cv s v)) - y) s)
                         \<lparr>x_applied := (x_applied s)(f := True)\<rparr>
                  else s)"

subsection \<open>Creation and destruction\<close>

text \<open>\<open>garbage\<close> is what \<open>malloc\<close> leaves in \<open>configure_serial\<close>, which is not initialized.\<close>

definition xdg_surface_new ::
  "bool \<Rightarrow> bool \<Rightarrow> addr \<Rightarrow> u32 \<Rightarrow> addr \<Rightarrow> 'a xstate_scheme \<Rightarrow> bool \<times> 'a xstate_scheme" where
  "xdg_surface_new mem1 mem2 a garbage f s =
     (if \<not> mem1 \<or> \<not> mem2 then (False, s)
      else
        let (r, s) = new_id s
        in (True, set_implementation r (XSurface a) (s\<lparr>x_surf := (x_surf s)(a \<mapsto>
              \<lparr>xs_resource = r, xs_role = None, xs_surface = f, xs_serial = garbage\<rparr>)\<rparr>)))"

definition get_xdg_surface ::
  "bool \<Rightarrow> bool \<Rightarrow> nat \<Rightarrow> addr \<Rightarrow> u32 \<Rightarrow> addr \<Rightarrow> 'a xstate_scheme \<Rightarrow> 'a xstate_scheme" where
  "get_xdg_surface mem1 mem2 base a garbage f s =
     (case xdg_surface_new mem1 mem2 a garbage f s of
        (False, s) \<Rightarrow> xsend base XNoMemory s
      | (True, s) \<Rightarrow> s)"

definition create_positioner :: "bool \<Rightarrow> bool \<Rightarrow> nat \<Rightarrow> 'a xstate_scheme \<Rightarrow> 'a xstate_scheme" where
  "create_positioner mem1 mem2 base s =
     (if \<not> mem1 \<or> \<not> mem2 then xsend base XNoMemory s
      else let (r, s) = new_id s in set_implementation r (XPositioner new_positioner) s)"

text \<open>\<open>wl_resource_destroy\<close> of a toplevel or a popup: the listeners, then the destructor. The
  \<open>configure_serial\<close> stays in the \<open>xdg_surface\<close>.\<close>

definition destroy_popup :: "addr \<Rightarrow> 'a xstate_scheme \<Rightarrow> 'a xstate_scheme result" where
  "destroy_popup p s =
     (let v = xp_view (the (x_pop s p))
      in andThen (fuelled (compositor_view_destroy (ws_renderer s v) v s)) (\<lambda>s.
           Inr (s\<lparr>x_pop := (x_pop s)(p := None)\<rparr>)))"

definition destroy_role :: "nat \<Rightarrow> 'a xstate_scheme \<Rightarrow> 'a xstate_scheme result" where
  "destroy_role q s =
     (let d = x_data s q; s = forget_role q s
      in case d of
           Some (XToplevel w) \<Rightarrow>
             (let s = (case x_top s w of None \<Rightarrow> s
                       | Some (_, a) \<Rightarrow> updxs a (\<lambda>x. x\<lparr>xs_serial := w_xdg_serial (win s w)\<rparr>) s)
              in andThen (destroy_toplevel w s) (\<lambda>s. Inr (s\<lparr>x_top := (x_top s)(w := None)\<rparr>)))
         | Some (XPopup p) \<Rightarrow> destroy_popup p s
         | _ \<Rightarrow> Inr s)"

definition destroy_xdg_surface :: "addr \<Rightarrow> 'a xstate_scheme \<Rightarrow> 'a xstate_scheme result" where
  "destroy_xdg_surface a s =
     (let x = xsurf s a; s = s\<lparr>x_data := (x_data s)(xs_resource x := None)\<rparr>
      in andThen (case xs_role x of None \<Rightarrow> Inr s | Some q \<Rightarrow> destroy_role q s) (\<lambda>s.
           Inr (s\<lparr>x_surf := (x_surf s)(a := None)\<rparr>)))"

subsection \<open>Where a popup goes\<close>

text \<open>The same with unbounded integers: an anchor is a side of the anchor rectangle, a gravity the side
  to which the popup extends, -1 for left and top, 1 for right and bottom, 0 for the middle.\<close>

definition dir_x :: "u32 \<Rightarrow> int" where
  "dir_x a = (if a \<in> {ANCHOR_LEFT, ANCHOR_TOP_LEFT, ANCHOR_BOTTOM_LEFT} then -1
              else if a \<in> {ANCHOR_RIGHT, ANCHOR_TOP_RIGHT, ANCHOR_BOTTOM_RIGHT} then 1 else 0)"

definition dir_y :: "u32 \<Rightarrow> int" where
  "dir_y a = (if a \<in> {ANCHOR_TOP, ANCHOR_TOP_LEFT, ANCHOR_TOP_RIGHT} then -1
              else if a \<in> {ANCHOR_BOTTOM, ANCHOR_BOTTOM_LEFT, ANCHOR_BOTTOM_RIGHT} then 1 else 0)"

definition place_along :: "int \<Rightarrow> int \<Rightarrow> int \<Rightarrow> int \<Rightarrow> int \<Rightarrow> int \<Rightarrow> int" where
  "place_along offset anchor_pos anchor_size anchor_dir extent gravity_dir =
     offset + anchor_pos + anchor_size * (1 + anchor_dir) div 2 - extent * (1 - gravity_dir) div 2"

text \<open>What the requests allow, away from the end of the 32 bits.\<close>

definition positioner_ok :: "xdg_positioner \<Rightarrow> bool" where
  "positioner_ok p \<longleftrightarrow>
     0 \<le> sint (ps_width p) \<and> 0 \<le> sint (ps_height p) \<and> 0 \<le> sint (ps_anchor_width p) \<and> 0 \<le> sint (ps_anchor_height p) \<and>
     (\<forall>x \<in> {ps_width p, ps_height p, ps_anchor_width p, ps_anchor_height p, ps_anchor_x p, ps_anchor_y p,
             ps_offset_x p, ps_offset_y p}. \<bar>sint x\<bar> < 2 ^ 29)"

lemma as_word: "(x :: i32) = word_of_int (sint x)"
  by simp

lemma half_word: "0 \<le> sint x \<Longrightarrow> half x = word_of_int (sint x div 2)"
  by (cases "sint x = 0") (simp_all add: half_def sgn_if)

lemma div_word: "0 \<le> sint (x :: i32) \<Longrightarrow> x div 2 = word_of_int (sint x div 2)"
proof -
  assume "0 \<le> sint x"
  moreover have "sint x < 2 ^ 32" using sint_lt[of x] by simp
  ultimately have "uint x = sint x" by (simp add: uint_sint take_bit_int_eq_self)
  then show ?thesis by (simp add: word_div_def)
qed

lemma sint_small: "\<bar>k\<bar> < 2 ^ 31 \<Longrightarrow> sint (word_of_int k :: i32) = k"
  by (simp add: signed_of_int signed_take_bit_int_eq_self abs_less_iff)

lemma place_word:
  fixes off pos asize ext :: i32
  assumes "0 \<le> sint asize" "0 \<le> sint ext" "\<bar>sint off\<bar> < 2 ^ 29" "\<bar>sint pos\<bar> < 2 ^ 29" "\<bar>sint asize\<bar> < 2 ^ 29" "\<bar>sint ext\<bar> < 2 ^ 29"
    and "da \<in> {-1, 0, 1}" "dg \<in> {-1, 0, 1}"
    and "x = (if da = -1 then off + pos else if da = 1 then off + (pos + asize) else off + (pos + half asize))"
    and "y = (if dg = -1 then x - ext else if dg = 1 then x else x - ext div 2)"
  shows "sint y = place_along (sint off) (sint pos) (sint asize) da (sint ext) dg"
proof -
  have "x = word_of_int (sint off + sint pos + sint asize * (1 + da) div 2)"
    using assms(7) unfolding assms(9) by (auto simp: half_word[OF assms(1)])
  then have "y = word_of_int (place_along (sint off) (sint pos) (sint asize) da (sint ext) dg)"
    using assms(8) unfolding assms(10) place_along_def by (auto simp: div_word[OF assms(2)])
  moreover have "\<bar>place_along (sint off) (sint pos) (sint asize) da (sint ext) dg\<bar> < 2 ^ 31"
    using assms(1-8) unfolding place_along_def by auto
  ultimately show ?thesis using sint_small by simp
qed

text \<open>C38: the place the 32-bit arithmetic computes for a popup, a chain of cases on anchor and gravity, is
  that of the formula on integers, as long as positions and sizes stay below 2 to the 29.\<close>

theorem popup_position_correct:
  assumes "positioner_ok p"
  shows "sint (r_x (calculate_position p)) =
      place_along (sint (ps_offset_x p)) (sint (ps_anchor_x p)) (sint (ps_anchor_width p)) (dir_x (ps_anchor p))
        (sint (ps_width p)) (dir_x (ps_gravity p)) \<and>
    sint (r_y (calculate_position p)) =
      place_along (sint (ps_offset_y p)) (sint (ps_anchor_y p)) (sint (ps_anchor_height p)) (dir_y (ps_anchor p))
        (sint (ps_height p)) (dir_y (ps_gravity p))"
proof
  show "sint (r_x (calculate_position p)) = place_along (sint (ps_offset_x p)) (sint (ps_anchor_x p)) (sint (ps_anchor_width p))
      (dir_x (ps_anchor p)) (sint (ps_width p)) (dir_x (ps_gravity p))"
    by (rule place_word[OF _ _ _ _ _ _ _ _ refl])
      (use assms in \<open>auto simp: positioner_ok_def calculate_position_def gravity_x_def anchored_x_def dir_x_def\<close>)
  show "sint (r_y (calculate_position p)) = place_along (sint (ps_offset_y p)) (sint (ps_anchor_y p)) (sint (ps_anchor_height p))
      (dir_y (ps_anchor p)) (sint (ps_height p)) (dir_y (ps_gravity p))"
    by (rule place_word[OF _ _ _ _ _ _ _ _ refl])
      (use assms in \<open>auto simp: positioner_ok_def calculate_position_def gravity_y_def anchored_y_def dir_y_def\<close>)
qed

theorem popup_position_correct_witness:
  "sint (r_x (calculate_position (new_positioner\<lparr>ps_width := 50, ps_height := 20, ps_anchor_x := 100, ps_anchor_width := 31,
      ps_anchor := ANCHOR_BOTTOM, ps_gravity := ANCHOR_BOTTOM_LEFT\<rparr>))) = 65"
  using popup_position_correct[of "new_positioner\<lparr>ps_width := 50, ps_height := 20, ps_anchor_x := 100, ps_anchor_width := 31,
      ps_anchor := ANCHOR_BOTTOM, ps_gravity := ANCHOR_BOTTOM_LEFT\<rparr>"]
  by (simp add: positioner_ok_def new_positioner_def dir_x_def place_along_def)

subsection \<open>A popup lands at its parent\<close>

lemma x_comp [simp]:
  "c_views (xsend r e s) = c_views s" "c_heap (xsend r e s) = c_heap s" "cv (xsend r e s) u = cv s u"
  "cv (s\<lparr>x_events := es\<rparr>) u = cv s u" "x_surf (xsend r e s) = x_surf s" "x_events (set_implementation r d s) = x_events s" "x_surf (set_implementation r d s) = x_surf s"
  "c_views (set_implementation r d s) = c_views s" "c_heap (set_implementation r d s) = c_heap s"
  by (simp_all add: xsend_def set_implementation_def cv_def)

lemma x_more: "comp.more s = comp.more t \<Longrightarrow> x_events s = x_events t \<and> x_surf s = x_surf t"
  by (cases s; cases t) simp

lemma created_view:
  assumes "compositor_create_view n (Some v) f s = (w, t)" "sf_view (c_surf s f) \<noteq> Some v"
  shows "w = Some v" "c_views t = v # c_views s" "c_heap t v \<noteq> None" "x \<noteq> v \<Longrightarrow> c_heap t x = c_heap s x"
    "comp.more t = comp.more s"
proof -
  let ?s = "s\<lparr>c_heap := (c_heap s)(v \<mapsto> initial_view f)\<rparr>"
  let ?u = "upd_surf f (\<lambda>x. x\<lparr>sf_view := Some v\<rparr>) ?s"
  define u where "u = ?u"
  have eq: "surface_set_view n f (Some v) ?s = (if sf_held (c_surf u f)
      then upd_surf f (\<lambda>x. x\<lparr>sf_hold_attach := True, sf_hold_update := True\<rparr>) u
      else update_only v (snd (view_attach n v (sf_buffer (c_surf u f)) u)))"
    using assms(2) by (simp add: surface_set_view_def Let_def u_def)
  have "acts {f} {v} ?u (surface_set_view n f (Some v) ?s)"
    unfolding eq u_def[symmetric] by (simp add: acts_intros)
  note a = actsD[OF this]
  show "w = Some v" "c_views t = v # c_views s" "c_heap t v \<noteq> None" "x \<noteq> v \<Longrightarrow> c_heap t x = c_heap s x"
    "comp.more t = comp.more s"
    using assms(1) a(1,2) a(4)[of v] a(10)[of x] by (auto simp: compositor_create_view_def Let_def upd_surf_def)
qed

lemma set_parent_returns:
  assumes "distinct (c_views s)" "\<forall>u \<in> set (c_views s). c_heap s u \<noteq> None" "v \<in> set (c_views s)"
  shows "\<exists>t. compositor_view_set_parent v (Some p) s = Some t \<and> v_parent (cv t v) = Some p \<and> c_heap t v \<noteq> None \<and>
    comp.more t = comp.more s"
proof -
  define u where "u = upd v (\<lambda>x. x\<lparr>v_parent := Some p\<rparr>) s"
  have u: "distinct (c_views u)" "\<forall>w \<in> set (c_views u). c_heap u w \<noteq> None" "v \<in> set (c_views u)" "v_parent (cv u v) = Some p"
    using assms by (auto simp: u_def upd_def cv_def)
  have uv: "c_heap u v \<noteq> None" using u(2,3) by blast
  obtain x where x: "compositor_view_show v u = Some x" "shows_more u x"
    using show_walk(1)[OF u(1-3) walk_fuel_enough] unfolding compositor_view_show_def by blast
  obtain y where y: "compositor_view_hide v u = Some y" "hides_more u y"
    using hide_walk(1)[OF u(2,3) walk_fuel_enough] unfolding compositor_view_hide_def by blast
  have "v_parent (cv x v) = Some p \<and> c_heap x v \<noteq> None" "v_parent (cv y v) = Some p \<and> c_heap y v \<noteq> None"
    using x(2) y(2) u(4) uv unfolding shows_more_def hides_more_def by metis+
  then obtain t where "compositor_view_set_parent v (Some p) s = Some t" "v_parent (cv t v) = Some p" "c_heap t v \<noteq> None"
    using x(1) y(1) by (cases "v_visible (cv u p)") (simp_all add: compositor_view_set_parent_def u_def Let_def)
  with set_parent_more show ?thesis by blast
qed

text \<open>C39: on a surface without a role, below a mapped parent, a popup is created: its view hangs below
  the parent's, lies at the parent's place plus what the positioner gives, and the client is told
  this place and a serial.\<close>

theorem popup_lands_at_its_parent:
  assumes "distinct (c_views s)" "\<forall>u \<in> set (c_views s). c_heap s u \<noteq> None" "v \<notin> set (c_views s)"
    and "sf_view (c_surf s (xs_surface (xsurf s b))) = Some pv" "pv \<in> set (c_views s)"
    and "x_role s (xs_surface (xsurf s a)) = None" "sf_view (c_surf s (xs_surface (xsurf s a))) \<noteq> Some v"
  shows "\<exists>t. xdg_popup_new True True p (Some v) a b q s = Inr (Some (x_next s), t) \<and>
    v_parent (cv t v) = Some pv \<and>
    r_x (v_geom (cv t v)) = r_x (v_geom (cv t pv)) + r_x (calculate_position q) \<and>
    r_y (v_geom (cv t v)) = r_y (v_geom (cv t pv)) + r_y (calculate_position q) \<and>
    x_events t = x_events s @
      [(x_next s, XPopupConfigure (r_x (calculate_position q)) (r_y (calculate_position q)) (ps_width q) (ps_height q)),
       (xs_resource (xsurf s a), XSurfaceConfigure (ws_next_serial s))]"
proof -
  let ?r = "x_next s" and ?f = "xs_surface (xsurf s a)" and ?g = "calculate_position q"
  define s1 where "s1 = s\<lparr>ws_next_serial := ws_next_serial s + 1, x_next := Suc ?r, x_data := (x_data s)(?r \<mapsto> XBare),
    x_role := (x_role s)(?f \<mapsto> ?r)\<rparr>"
  obtain w s2 where c: "compositor_create_view (ws_renderer s1 v) (Some v) ?f s1 = (w, s2)" by fastforce
  have "sf_view (c_surf s1 ?f) \<noteq> Some v" using assms(7) by (simp add: s1_def)
  note c2 = created_view[OF c this]
  define s3 where "s3 = set_implementation ?r (XPopup p) (s2\<lparr>x_pop := (x_pop s2)(p \<mapsto>
     \<lparr>xp_resource = ?r, xp_surface = a, xp_positioner = q, xp_view = v\<rparr>)\<rparr>)"
  have s3: "c_views s3 = v # c_views s" "c_heap s3 = c_heap s2" using c2(2) by (simp_all add: s3_def s1_def)
  have "distinct (c_views s3)" "\<forall>u \<in> set (c_views s3). c_heap s3 u \<noteq> None" "v \<in> set (c_views s3)"
    using assms(1-3) s3 c2(3,4) by (auto simp: s1_def) (metis assms(3) option.exhaust)+
  from set_parent_returns[OF this, of pv] obtain s4 where s4: "compositor_view_set_parent v (Some pv) s3 = Some s4"
    "v_parent (cv s4 v) = Some pv" "c_heap s4 v \<noteq> None" "comp.more s4 = comp.more s3" by blast
  define s5 where "s5 = view_move v (r_x (v_geom (cv s4 pv)) + r_x ?g) (r_y (v_geom (cv s4 pv)) + r_y ?g) s4"
  define t where "t = xsend (xs_resource (xsurf s5 a)) (XSurfaceConfigure (ws_next_serial s))
    (xsend ?r (XPopupConfigure (r_x ?g) (r_y ?g) (r_w ?g) (r_h ?g)) s5)"
  have acts: "acts {} {v} s4 s5" unfolding s5_def by (rule acts_view_move[OF acts_refl]) simp
  have "pv \<noteq> v" using assms(3,5) by auto
  have new: "xdg_popup_new True True p (Some v) a b q s = Inr (Some ?r, t)"
    using assms(4,6) c c2(1) s4(1)
    by (simp add: xdg_popup_new_def new_id_def surface_set_role_def Let_def s1_def s3_def s5_def t_def xsurf_def)
  have more: "x_events s5 = x_events s \<and> x_surf s5 = x_surf s"
    using x_more[OF actsD(1)[OF acts]] x_more[OF s4(4)] x_more[OF c2(5)] by (simp add: s3_def s1_def)
  have "place (cv s5 v) = (r_x (v_geom (cv s5 pv)) + r_x ?g, r_y (v_geom (cv s5 pv)) + r_y ?g)"
    using view_move_place[OF s4(3)] actsD(12)[OF acts, of pv] \<open>pv \<noteq> v\<close> by (simp add: s5_def)
  moreover have "v_parent (cv s5 v) = Some pv" using s4(2) actsD(7)[OF acts] by simp
  ultimately show ?thesis using new more
    by (intro exI[of _ t]) (simp add: t_def place_def xsurf_def xsend_def calculate_position_def)
qed

subsection \<open>Acknowledging\<close>

text \<open>C40: a toplevel is configured with a size, then with a new state because it gets the focus. Only the
  serial of the first is accepted: a client that acknowledges the last configure it was sent, as the
  protocol lets it, is ignored, and its window stays unacknowledged.\<close>

theorem only_the_size_serial_acknowledges:
  assumes "x_surf s a = Some x" "xs_role x = Some q" "x_data s q = Some (XToplevel w)" "live s w"
  shows "\<exists>e1 e2. ws_events (xdg_focus w (xdg_configure w width height s)) = ws_events s @ [(w, e1), (w, e2)] \<and>
    (\<exists>a b st. e1 = XdgConfigure a b st (ws_next_serial s)) \<and>
    (\<exists>a b st. e2 = XdgConfigure a b st (ws_next_serial s + 1)) \<and>
    \<not> w_acknowledged (win (xdg_focus w (xdg_configure w width height s)) w) \<and>
    (\<forall>n. ack_configure n a (xdg_focus w (xdg_configure w width height s)) =
      Inr (if n = ws_next_serial s then window_ack_configure w (xdg_focus w (xdg_configure w width height s))
           else xdg_focus w (xdg_configure w width height s)))"
proof -
  obtain y where y: "ws_win s w = Some y" using assms(4) by (auto simp: live_def)
  define t where "t = xdg_focus w (xdg_configure w width height s)"
  have "x_surf t = x_surf s" "x_data t = x_data s" "w_xdg_serial (win t w) = ws_next_serial s" "\<not> w_acknowledged (win t w)"
    "\<exists>a b st c d su. ws_events t = ws_events s @ [(w, XdgConfigure a b st (ws_next_serial s)), (w, XdgConfigure c d su (ws_next_serial s + 1))]"
    using y by (auto simp: t_def xdg_focus_def xdg_configure_def xdg_send_size_def send_configure_def add_state_def Let_def
        updw_def emit_def win_def)
  then show ?thesis
    unfolding t_def[symmetric] using assms(1-3)
    by (auto simp: ack_configure_def configure_serial_def xsurf_def)
qed

text \<open>An \<open>xdg_surface\<close> whose role is a popup: its client acknowledges the serial that happens to be in
  \<open>configure_serial\<close>, which nothing set, and the popup is written to as if it were a window.\<close>

theorem popup_ack_writes_into_popup:
  assumes "x_surf s a = Some x" "xs_role x = Some q" "x_data s q = Some (XPopup p)"
  shows "ack_configure (xs_serial x) a s = Inl UseAfterFree"
  using assms by (simp add: ack_configure_def configure_serial_def xsurf_def)

subsection \<open>Concrete runs\<close>

text \<open>Two toplevels on screen; \<open>xdg_surface\<close> 10 of a surface 3 without a role, 11 of the toplevel 1.\<close>

definition xdesk :: xstate where
  "xdesk = wstate.extend (running WINDOW_MODE_STACKED Xdg
      [(1, \<lparr>r_x = 20, r_y = 30, r_w = 80, r_h = 60\<rparr>), (2, \<lparr>r_x = 5, r_y = 5, r_w = 80, r_h = 60\<rparr>)])
    (xstate.fields
      [10 \<mapsto> \<lparr>xs_resource = 50, xs_role = None, xs_surface = 3, xs_serial = 77\<rparr>,
       11 \<mapsto> \<lparr>xs_resource = 51, xs_role = Some 60, xs_surface = 1, xs_serial = 78\<rparr>]
      Map.empty [1 \<mapsto> (60, 11)] [50 \<mapsto> XSurface 10, 51 \<mapsto> XSurface 11, 60 \<mapsto> XToplevel 1] [1 \<mapsto> 60] (\<lambda>_. False) 100 [])"

theorem popup_lands_at_its_parent_witness:
  "\<exists>t. xdg_popup_new True True 40 (Some 9) 10 11 (new_positioner\<lparr>ps_width := 16, ps_height := 8, ps_anchor_x := 4,
        ps_anchor_width := 10, ps_anchor := ANCHOR_RIGHT, ps_gravity := ANCHOR_RIGHT\<rparr>) xdesk = Inr (Some 100, t) \<and>
    v_parent (cv t 9) = Some 1 \<and> r_x (v_geom (cv t 9)) = r_x (v_geom (cv t 1)) + 14"
proof -
  have "distinct (c_views xdesk)" "\<forall>u \<in> set (c_views xdesk). c_heap xdesk u \<noteq> None" "9 \<notin> set (c_views xdesk)"
    "sf_view (c_surf xdesk (xs_surface (xsurf xdesk 11))) = Some 1" "1 \<in> set (c_views xdesk)"
    "x_role xdesk (xs_surface (xsurf xdesk 10)) = None" "sf_view (c_surf xdesk (xs_surface (xsurf xdesk 10))) \<noteq> Some 9"
    "x_next xdesk = 100" by code_simp+
  note this(8) popup_lands_at_its_parent[OF this(1-7), where p = 40 and q = "new_positioner\<lparr>ps_width := 16, ps_height := 8,
      ps_anchor_x := 4, ps_anchor_width := 10, ps_anchor := ANCHOR_RIGHT, ps_gravity := ANCHOR_RIGHT\<rparr>"]
  moreover have "r_x (calculate_position (new_positioner\<lparr>ps_width := 16, ps_height := 8,
      ps_anchor_x := 4, ps_anchor_width := 10, ps_anchor := ANCHOR_RIGHT, ps_gravity := ANCHOR_RIGHT\<rparr>)) = 14"
    by code_simp
  ultimately show ?thesis by fastforce
qed

theorem only_the_size_serial_acknowledges_witness:
  "\<not> w_acknowledged (win (xdg_focus 1 (xdg_configure 1 200 100 xdesk)) 1)"
proof -
  have "x_surf xdesk 11 = Some \<lparr>xs_resource = 51, xs_role = Some 60, xs_surface = 1, xs_serial = 78\<rparr>"
    "x_data xdesk 60 = Some (XToplevel 1)" "live xdesk 1"
    unfolding live_def by (simp_all add: xdesk_def wstate.defs xstate.defs running_def Let_def)
  from only_the_size_serial_acknowledges[OF this(1) _ this(2,3), of 200 100] show ?thesis by auto
qed

theorem popup_ack_writes_into_popup_witness:
  "\<exists>s :: xstate. ack_configure 77 10 s = Inl UseAfterFree"
proof -
  let ?s = "xdesk\<lparr>x_surf := [10 \<mapsto> \<lparr>xs_resource = 50, xs_role = Some 100, xs_surface = 3, xs_serial = 77\<rparr>],
    x_data := [100 \<mapsto> XPopup 40]\<rparr>"
  show ?thesis using popup_ack_writes_into_popup[of ?s 10 "\<lparr>xs_resource = 50, xs_role = Some 100, xs_surface = 3, xs_serial = 77\<rparr>" 100 40] by auto
qed

end
